(* ===== verification/Js_Number.thy ===== *)
theory Js_Number
  imports Complex_Main "HOL-Library.Log_Nat"
begin

text \<open>
  The JavaScript \<open>number\<close> type: IEEE 754 binary64 with round to nearest, ties to even,
  overflow to the infinities and gradual underflow. Finite values are exact rationals; the
  two zeros are identified, which no code of the library can observe. Arithmetic rounds the
  exact result with \<open>dround\<close>; comparisons are false on NaN; \<open>Math.max\<close> and
  \<open>Math.min\<close> propagate NaN.
\<close>

section \<open>Values and rounding\<close>

datatype jsnum = Fin rat | PosInf | NegInf | NaN

text \<open>The exponent of the binade of a positive rational.\<close>

definition log2_floor :: "rat \<Rightarrow> int" where
  "log2_floor x =
     (let (p, q) = quotient_of x;
          k = int (floorlog 2 (nat p)) - int (floorlog 2 (nat q))
      in if x < 2 powi k then k - 1 else k)"

text \<open>Round to the nearest integer, ties to even.\<close>

definition rne :: "rat \<Rightarrow> int" where
  "rne y = (let f = \<lfloor>y\<rfloor>; d = y - of_int f
            in if d < 1 / 2 then f else if 1 / 2 < d then f + 1
               else if even f then f else f + 1)"

definition ulp_exp :: "rat \<Rightarrow> int" where
  "ulp_exp x = max (- 1074) (log2_floor \<bar>x\<bar> - 52)"

definition round_grid :: "rat \<Rightarrow> rat" where
  "round_grid x = (if x = 0 then 0 else of_int (rne (x / 2 powi ulp_exp x)) * 2 powi ulp_exp x)"

definition dround :: "rat \<Rightarrow> jsnum" where
  "dround x = (let y = round_grid x
               in if 2 ^ 1024 \<le> y then PosInf else if y \<le> - (2 ^ 1024) then NegInf else Fin y)"

section \<open>Operators\<close>

abbreviation num :: "int \<Rightarrow> jsnum" where
  "num k \<equiv> Fin (of_int k)"

fun num_lt :: "jsnum \<Rightarrow> jsnum \<Rightarrow> bool" where
  "num_lt NaN _ = False"
| "num_lt _ NaN = False"
| "num_lt (Fin x) (Fin y) = (x < y)"
| "num_lt _ NegInf = False"
| "num_lt NegInf _ = True"
| "num_lt PosInf _ = False"
| "num_lt _ PosInf = True"

fun num_le :: "jsnum \<Rightarrow> jsnum \<Rightarrow> bool" where
  "num_le NaN _ = False"
| "num_le _ NaN = False"
| "num_le (Fin x) (Fin y) = (x \<le> y)"
| "num_le NegInf _ = True"
| "num_le _ PosInf = True"
| "num_le _ _ = False"

definition num_max :: "jsnum \<Rightarrow> jsnum \<Rightarrow> jsnum" where
  "num_max a b = (if a = NaN \<or> b = NaN then NaN else if num_lt a b then b else a)"

definition num_min :: "jsnum \<Rightarrow> jsnum \<Rightarrow> jsnum" where
  "num_min a b = (if a = NaN \<or> b = NaN then NaN else if num_lt b a then b else a)"

fun num_add :: "jsnum \<Rightarrow> jsnum \<Rightarrow> jsnum" where
  "num_add (Fin x) (Fin y) = dround (x + y)"
| "num_add NaN _ = NaN"
| "num_add _ NaN = NaN"
| "num_add PosInf NegInf = NaN"
| "num_add NegInf PosInf = NaN"
| "num_add PosInf _ = PosInf"
| "num_add _ PosInf = PosInf"
| "num_add NegInf _ = NegInf"
| "num_add _ NegInf = NegInf"

fun num_neg :: "jsnum \<Rightarrow> jsnum" where
  "num_neg (Fin x) = Fin (- x)"
| "num_neg PosInf = NegInf"
| "num_neg NegInf = PosInf"
| "num_neg NaN = NaN"

definition num_sub :: "jsnum \<Rightarrow> jsnum \<Rightarrow> jsnum" where
  "num_sub a b = num_add a (num_neg b)"

definition inf_of_sign :: "rat \<Rightarrow> jsnum" where
  "inf_of_sign x = (if 0 < x then PosInf else if x < 0 then NegInf else NaN)"

fun num_mul :: "jsnum \<Rightarrow> jsnum \<Rightarrow> jsnum" where
  "num_mul (Fin x) (Fin y) = dround (x * y)"
| "num_mul NaN _ = NaN"
| "num_mul _ NaN = NaN"
| "num_mul (Fin x) PosInf = inf_of_sign x"
| "num_mul PosInf (Fin x) = inf_of_sign x"
| "num_mul (Fin x) NegInf = inf_of_sign (- x)"
| "num_mul NegInf (Fin x) = inf_of_sign (- x)"
| "num_mul PosInf PosInf = PosInf"
| "num_mul NegInf NegInf = PosInf"
| "num_mul _ _ = NegInf"

text \<open>\<open>Math.floor\<close> and \<open>Math.round\<close> (ties towards plus infinity) are exact.\<close>

fun num_floor :: "jsnum \<Rightarrow> jsnum" where
  "num_floor (Fin x) = num \<lfloor>x\<rfloor>"
| "num_floor v = v"

fun num_round :: "jsnum \<Rightarrow> jsnum" where
  "num_round (Fin x) = num \<lfloor>x + 1 / 2\<rfloor>"
| "num_round v = v"

text \<open>
  \<open>Math.pow(2, k)\<close> for an integral exponent; the library only passes integral ones, an
  infinity or NaN.
\<close>

fun num_pow2 :: "jsnum \<Rightarrow> jsnum" where
  "num_pow2 (Fin x) = dround (2 powi \<lfloor>x\<rfloor>)"
| "num_pow2 PosInf = PosInf"
| "num_pow2 NegInf = Fin 0"
| "num_pow2 NaN = NaN"

fun num_is_finite :: "jsnum \<Rightarrow> bool" where
  "num_is_finite (Fin _) = True"
| "num_is_finite _ = False"

section \<open>Rounding: binades, monotonicity, exactly representable values\<close>

lemma powi_diff_nat: "(2::rat) powi (int a - int b) = 2 ^ a / 2 ^ b"
  by (simp add: power_int_diff)

lemma log2_floor_bounds:
  assumes "0 < x"
  shows "2 powi log2_floor x \<le> x" and "x < 2 powi (log2_floor x + 1)"
proof -
  obtain p q where pq: "quotient_of x = (p, q)" by (cases "quotient_of x")
  have q: "0 < q" using pq by (rule quotient_of_denom_pos)
  have x: "x = of_int p / of_int q" using pq by (rule quotient_of_div)
  have p: "0 < p" using assms q by (simp add: x zero_less_divide_iff)
  define a where "a = floorlog 2 (nat p)"
  define b where "b = floorlog 2 (nat q)"
  have pb: "2 ^ (a - 1) \<le> nat p" "nat p < 2 ^ a"
    using floorlog_bounds [of "nat p" 2] p by (simp_all add: a_def)
  have qb: "2 ^ (b - 1) \<le> nat q" "nat q < 2 ^ b"
    using floorlog_bounds [of "nat q" 2] q by (simp_all add: b_def)
  have a0: "0 < a" and b0: "0 < b"
    using p q by (auto simp: a_def b_def floorlog_def)
  have P1: "(2::rat) ^ (a - 1) \<le> of_int p" and P2: "(of_int p :: rat) < 2 ^ a"
    using pb p by (metis of_nat_le_iff of_nat_less_iff of_nat_nat of_nat_numeral of_nat_power less_imp_le of_int_of_nat_eq)+
  have Q1: "(2::rat) ^ (b - 1) \<le> of_int q" and Q2: "(of_int q :: rat) < 2 ^ b"
    using qb q by (metis of_nat_le_iff of_nat_less_iff of_nat_nat of_nat_numeral of_nat_power less_imp_le of_int_of_nat_eq)+
  have "(2::rat) powi (int a - int b - 1) = 2 ^ (a - 1) / 2 ^ b"
    using powi_diff_nat [of "a - 1" b] a0 by (simp add: algebra_simps of_nat_diff)
  also have "\<dots> \<le> of_int p / of_int q"
    using P1 Q2 q p by (intro frac_le) (auto simp: less_imp_le)
  finally have lo: "2 powi (int a - int b - 1) \<le> x" by (simp add: x)
  have "of_int p / of_int q < (2::rat) ^ a / 2 ^ (b - 1)"
    using P2 Q1 p by (intro frac_less) auto
  also have "\<dots> = 2 powi (int a - int b + 1)"
    using powi_diff_nat [of a "b - 1"] b0 by (simp add: algebra_simps of_nat_diff)
  finally have hi: "x < 2 powi (int a - int b + 1)" by (simp add: x)
  show "2 powi log2_floor x \<le> x" and "x < 2 powi (log2_floor x + 1)"
    using lo hi by (auto simp: log2_floor_def pq Let_def a_def b_def)
qed

lemma powi2_less_iff [simp]: "(2::rat) powi i < 2 powi j \<longleftrightarrow> i < j"
  by (metis linorder_neqE one_less_numeral_iff order_less_asym power_int_strict_increasing semiring_norm(76))

lemma log2_floor_unique:
  assumes "2 powi k \<le> x" and "x < 2 powi (k + 1)"
  shows "log2_floor x = k"
proof -
  have "0 < (2::rat) powi k" by simp
  then have "0 < x" using assms(1) by (rule less_le_trans)
  note b = log2_floor_bounds [OF this]
  have "(2::rat) powi k < 2 powi (log2_floor x + 1)" using assms b by linarith
  moreover have "(2::rat) powi log2_floor x < 2 powi (k + 1)" using assms b by linarith
  ultimately show ?thesis by simp
qed

lemma log2_floor_mono: "0 < x \<Longrightarrow> x \<le> y \<Longrightarrow> log2_floor x \<le> log2_floor y"
  using log2_floor_bounds [of x] log2_floor_bounds [of y] powi2_less_iff [of "log2_floor x" "log2_floor y + 1"]
  by linarith

lemma rne_of_int [simp]: "rne (of_int k) = k"
  by (simp add: rne_def)

lemma rne_bounds: "\<lfloor>y\<rfloor> \<le> rne y" "rne y \<le> \<lfloor>y\<rfloor> + 1"
  by (auto simp: rne_def Let_def)

lemma rne_mono: "x \<le> y \<Longrightarrow> rne x \<le> rne y"
proof -
  assume xy: "x \<le> y"
  then have f: "\<lfloor>x\<rfloor> \<le> \<lfloor>y\<rfloor>" by (rule floor_mono)
  show ?thesis
  proof (cases "\<lfloor>x\<rfloor> = \<lfloor>y\<rfloor>")
    case True
    then show ?thesis using xy by (auto simp: rne_def Let_def)
  next
    case False
    then show ?thesis using f rne_bounds [of x] rne_bounds [of y] by linarith
  qed
qed

lemma powi2_pos [simp]: "0 < (2::rat) powi k"
  by simp

lemma powi2_le_iff [simp]: "(2::rat) powi i \<le> 2 powi j \<longleftrightarrow> i \<le> j"
  by (simp add: not_less [symmetric])

lemma powi2_add: "(2::rat) powi (i + j) = 2 powi i * 2 powi j"
  by (simp add: power_int_add)

lemma rne_minus: "rne (- y) = - rne y"
proof -
  define f where "f = \<lfloor>y\<rfloor>"
  define d where "d = y - of_int f"
  have d: "0 \<le> d" "d < 1" by (auto simp: d_def f_def) linarith+
  have y: "y = of_int f + d" by (simp add: d_def)
  show ?thesis
  proof (cases "d = 0")
    case True
    then have "y = of_int f" using y by simp
    then show ?thesis by (metis of_int_minus rne_of_int)
  next
    case False
    then have "\<lfloor>- y\<rfloor> = - f - 1" using d y by (intro floor_unique) auto
    moreover have "- y - of_int (- f - 1) = 1 - d" by (simp add: y)
    ultimately show ?thesis using d
      by (auto simp: rne_def Let_def f_def [symmetric] d_def [symmetric])
  qed
qed

lemma round_grid_minus: "round_grid (- x) = - round_grid x"
proof -
  have "- x / c = - (x / c)" for c :: rat by simp
  then show ?thesis by (simp add: round_grid_def ulp_exp_def rne_minus)
qed

lemma round_grid_nonneg: "0 \<le> x \<Longrightarrow> 0 \<le> round_grid x"
proof -
  assume "0 \<le> x"
  then have "0 \<le> x / 2 powi ulp_exp x" by simp
  then have "rne 0 \<le> rne (x / 2 powi ulp_exp x)" by (rule rne_mono)
  moreover have "rne 0 = 0" using rne_of_int [of 0] by simp
  ultimately show ?thesis by (simp add: round_grid_def)
qed

lemma ulp_exp_upper: "0 < x \<Longrightarrow> x < 2 powi (ulp_exp x + 53)"
proof -
  assume x: "0 < x"
  have "log2_floor x + 1 \<le> ulp_exp x + 53" using x by (simp add: ulp_exp_def)
  then have "(2::rat) powi (log2_floor x + 1) \<le> 2 powi (ulp_exp x + 53)" by simp
  with log2_floor_bounds(2) [OF x] show ?thesis by linarith
qed

lemma ulp_exp_lower: "0 < x \<Longrightarrow> - 1074 < ulp_exp x \<Longrightarrow> 2 powi (ulp_exp x + 52) \<le> x"
proof -
  assume x: "0 < x" and "- 1074 < ulp_exp x"
  then have "ulp_exp x + 52 = log2_floor x" by (simp add: ulp_exp_def)
  then show ?thesis using log2_floor_bounds(1) [OF x] by simp
qed

lemma round_grid_upper: "0 < x \<Longrightarrow> round_grid x \<le> 2 powi (ulp_exp x + 53)"
proof -
  assume x: "0 < x"
  have "x / 2 powi ulp_exp x \<le> of_int (2 ^ 53)"
    using ulp_exp_upper [OF x] by (simp add: powi2_add field_simps)
  then have "rne (x / 2 powi ulp_exp x) \<le> 2 ^ 53"
    using rne_mono rne_of_int by metis
  then have "(of_int (rne (x / 2 powi ulp_exp x)) :: rat) \<le> of_int (2 ^ 53)" by (simp only: of_int_le_iff)
  then show ?thesis using x by (simp add: round_grid_def powi2_add)
qed

lemma round_grid_lower:
  "0 < x \<Longrightarrow> - 1074 < ulp_exp x \<Longrightarrow> 2 powi (ulp_exp x + 52) \<le> round_grid x"
proof -
  assume x: "0 < x" and u: "- 1074 < ulp_exp x"
  have "of_int (2 ^ 52) \<le> x / 2 powi ulp_exp x"
    using ulp_exp_lower [OF x u] by (simp add: powi2_add field_simps)
  then have "2 ^ 52 \<le> rne (x / 2 powi ulp_exp x)"
    using rne_mono rne_of_int by metis
  then have "of_int (2 ^ 52) \<le> (of_int (rne (x / 2 powi ulp_exp x)) :: rat)" by (simp only: of_int_le_iff)
  then show ?thesis using x by (simp add: round_grid_def powi2_add)
qed

lemma round_grid_mono_pos:
  assumes x: "0 < x" and xy: "x \<le> y"
  shows "round_grid x \<le> round_grid y"
proof -
  have y: "0 < y" using x xy by simp
  have e: "ulp_exp x \<le> ulp_exp y" using log2_floor_mono [OF x xy] x y by (auto simp: ulp_exp_def)
  show ?thesis
  proof (cases "ulp_exp x = ulp_exp y")
    case True
    have "rne (x / 2 powi ulp_exp x) \<le> rne (y / 2 powi ulp_exp y)"
      using xy by (intro rne_mono) (simp add: True divide_right_mono)
    then show ?thesis using x y by (simp add: round_grid_def True mult_right_mono)
  next
    case False
    with e have lt: "ulp_exp x < ulp_exp y" by simp
    moreover have "- 1074 \<le> ulp_exp x" by (simp add: ulp_exp_def)
    ultimately have "2 powi (ulp_exp y + 52) \<le> round_grid y" by (intro round_grid_lower y) simp
    moreover have "(2::rat) powi (ulp_exp x + 53) \<le> 2 powi (ulp_exp y + 52)" using lt by simp
    ultimately show ?thesis using round_grid_upper [OF x] by linarith
  qed
qed

lemma round_grid_0 [simp]: "round_grid 0 = 0"
  by (simp add: round_grid_def)

lemma round_grid_mono: "x \<le> y \<Longrightarrow> round_grid x \<le> round_grid y"
proof -
  assume xy: "x \<le> y"
  consider "0 < x" | "x \<le> 0" "0 \<le> y" | "y < 0" by linarith
  then show ?thesis
  proof cases
    case 1 then show ?thesis using xy by (rule round_grid_mono_pos)
  next
    case 2
    then show ?thesis using round_grid_nonneg [of "- x"] round_grid_nonneg [of y]
      by (simp add: round_grid_minus)
  next
    case 3
    then show ?thesis using round_grid_mono_pos [of "- y" "- x"] xy by (simp add: round_grid_minus)
  qed
qed

lemma round_grid_exact:
  assumes x: "x = of_int m * 2 powi e" and m: "\<bar>m\<bar> \<le> 2 ^ 53" and e: "- 1074 \<le> e"
  shows "round_grid x = x"
proof (cases "m = 0")
  case True
  then show ?thesis by (simp add: x)
next
  case False
  define k where "k = ulp_exp x"
  have ax: "\<bar>x\<bar> = of_int \<bar>m\<bar> * 2 powi e" by (simp add: x abs_mult)
  have x0: "0 < \<bar>x\<bar>" using False by (simp add: ax)
  have whole: "\<exists>j. x / 2 powi k = of_int j"
  proof (cases "\<bar>m\<bar> = 2 ^ 53")
    case True
    have "(of_int \<bar>m\<bar> :: rat) = 2 powi 53" by (simp add: True)
    then have "\<bar>x\<bar> = 2 powi (53 + e)" by (simp only: ax powi2_add)
    then have "log2_floor \<bar>x\<bar> = 53 + e" by (intro log2_floor_unique) simp_all
    then have "k = e + 1" using e by (simp add: k_def ulp_exp_def)
    then have "x / 2 powi k = of_int m / 2" by (simp add: x powi2_add)
    moreover have "even m" using True by (metis abs_if dvd_power even_minus zero_less_numeral)
    ultimately show ?thesis by (metis dvd_div_mult_self nonzero_mult_div_cancel_right of_int_mult of_int_numeral zero_neq_numeral)
  next
    case False
    then have "\<bar>m\<bar> < 2 ^ 53" using m by simp
    then have "(of_int \<bar>m\<bar> :: rat) < of_int (2 ^ 53)" by (simp only: of_int_less_iff)
    then have "\<bar>x\<bar> < 2 powi (e + 53)" by (simp add: ax powi2_add)
    then have "(2::rat) powi log2_floor \<bar>x\<bar> < 2 powi (e + 53)"
      using log2_floor_bounds(1) [OF x0] by linarith
    then have ke: "k \<le> e" using e by (simp add: k_def ulp_exp_def)
    then obtain n where n: "e = k + int n" by (metis zle_iff_zadd)
    have "x / 2 powi k = of_int (m * 2 ^ n)" by (simp add: x n powi2_add)
    then show ?thesis by blast
  qed
  then obtain j where j: "x / 2 powi k = of_int j" by blast
  then have "x = of_int j * 2 powi k" by (simp add: field_simps)
  moreover have "round_grid x = of_int (rne (x / 2 powi k)) * 2 powi k"
    using x0 by (auto simp: round_grid_def k_def)
  ultimately show ?thesis by (metis j rne_of_int)
qed

lemma dround_exact:
  assumes "x = of_int m * 2 powi e" and "\<bar>m\<bar> \<le> 2 ^ 53" and "- 1074 \<le> e" and "\<bar>x\<bar> < 2 ^ 1024"
  shows "dround x = Fin x"
  using assms(4) by (auto simp: dround_def round_grid_exact [OF assms(1-3)])

lemma big_2_1024: "(2::rat) ^ 53 < 2 ^ 1024"
  by (rule power_strict_increasing) simp_all

lemma dround_int:
  assumes "\<bar>k\<bar> \<le> 2 ^ 53"
  shows "dround (of_int k) = num k"
proof (rule dround_exact [where m = k and e = 0])
  have "\<bar>of_int k :: rat\<bar> \<le> of_int (2 ^ 53)" using assms by (metis of_int_abs of_int_le_iff)
  then show "\<bar>of_int k :: rat\<bar> < 2 ^ 1024" using big_2_1024 by simp
qed (use assms in simp_all)

lemma dround_0 [simp]: "dround 0 = Fin 0"
  by (simp add: dround_def)

lemma dround_numeral:
  "(numeral n :: int) \<le> 2 ^ 53 \<Longrightarrow> dround (numeral n) = Fin (numeral n)"
  using dround_int [of "numeral n"] by simp

lemma dround_pow2:
  assumes "0 \<le> k" and "k < 1024"
  shows "dround (2 powi k) = Fin (2 powi k)"
proof (rule dround_exact [where m = 1 and e = k])
  have "(2::rat) powi k < 2 powi 1024" using assms(2) by (simp only: powi2_less_iff)
  then show "\<bar>2 powi k :: rat\<bar> < 2 ^ 1024" by simp
qed (use assms in simp_all)

lemma dround_pow2_overflow:
  assumes "1024 \<le> k"
  shows "dround (2 powi k) = PosInf"
proof -
  have "round_grid (2 powi k) = 2 powi k"
    by (rule round_grid_exact [where m = 1 and e = k]) (use assms in simp_all)
  moreover have "(2::rat) powi 1024 \<le> 2 powi k" using assms by (simp only: powi2_le_iff)
  ultimately show ?thesis by (simp add: dround_def)
qed

section \<open>Order and arithmetic of numbers\<close>

lemma num_le_refl [simp]: "num_le x x \<longleftrightarrow> x \<noteq> NaN"
  by (cases x) auto

lemma num_le_PosInf [simp]: "num_le x PosInf \<longleftrightarrow> x \<noteq> NaN"
  by (cases x) auto

lemma num_le_NegInf [simp]: "num_le NegInf x \<longleftrightarrow> x \<noteq> NaN"
  by (cases x) auto

lemma num_le_trans: "num_le x y \<Longrightarrow> num_le y z \<Longrightarrow> num_le x z"
  by (cases x; cases y; cases z) auto

lemma num_lt_iff: "num_lt x y \<longleftrightarrow> x \<noteq> NaN \<and> y \<noteq> NaN \<and> \<not> num_le y x"
  by (cases x; cases y) auto

lemma num_le_total: "x \<noteq> NaN \<Longrightarrow> y \<noteq> NaN \<Longrightarrow> num_le x y \<or> num_le y x"
  by (cases x; cases y) auto

lemma num_le_antisym: "num_le x y \<Longrightarrow> num_le y x \<Longrightarrow> x = y"
  by (cases x; cases y) auto

lemma num_le_not_NaN: "num_le x y \<Longrightarrow> x \<noteq> NaN \<and> y \<noteq> NaN"
  by (cases x; cases y) auto

lemma dround_not_NaN [simp]: "dround x \<noteq> NaN"
  by (simp add: dround_def Let_def)

lemma dround_mono: "x \<le> y \<Longrightarrow> num_le (dround x) (dround y)"
  using round_grid_mono [of x y] by (auto simp: dround_def Let_def)

lemma dround_nonneg: "0 \<le> x \<Longrightarrow> num_le (Fin 0) (dround x)"
  using dround_mono [of 0 x] by simp

lemma num_add_mono:
  assumes "num_le a a'" and "num_le b b'" and "num_le (Fin 0) a" and "num_le (Fin 0) b"
  shows "num_le (num_add a b) (num_add a' b')"
  using assms by (cases a; cases a'; cases b; cases b') (auto intro: dround_mono)

lemma num_add_nonneg:
  "num_le (Fin 0) a \<Longrightarrow> num_le (Fin 0) b \<Longrightarrow> num_le (Fin 0) (num_add a b)"
  by (cases a; cases b) (auto intro: dround_nonneg)

lemma num_mul_mono_right:
  assumes "0 < x" and "num_le a b"
  shows "num_le (num_mul (Fin x) a) (num_mul (Fin x) b)"
  using assms by (cases a; cases b) (auto simp: inf_of_sign_def intro: dround_mono)

lemma num_mul_nonneg:
  assumes "num_le (Fin 0) a" and "num_le (Fin 0) b" and "num_mul a b \<noteq> NaN"
  shows "num_le (Fin 0) (num_mul a b)"
  using assms by (cases a; cases b) (auto simp: inf_of_sign_def split: if_splits intro: dround_nonneg)

lemma num_add_int:
  "\<bar>a + b\<bar> \<le> 2 ^ 53 \<Longrightarrow> num_add (num a) (num b) = num (a + b)"
  using dround_int [of "a + b"] by simp

lemma num_sub_int:
  "\<bar>a - b\<bar> \<le> 2 ^ 53 \<Longrightarrow> num_sub (num a) (num b) = num (a - b)"
  using dround_int [of "a - b"] by (simp add: num_sub_def)

lemma num_mul_int:
  "\<bar>a * b\<bar> \<le> 2 ^ 53 \<Longrightarrow> num_mul (num a) (num b) = num (a * b)"
  using dround_int [of "a * b"] by simp

lemma num_max_Fin [simp]: "num_max (Fin x) (Fin y) = Fin (max x y)"
  by (simp add: num_max_def max_def)

lemma num_min_Fin [simp]: "num_min (Fin x) (Fin y) = Fin (min x y)"
  by (simp add: num_min_def min_def)

lemma num_min_le: "num_min a b \<noteq> NaN \<Longrightarrow> num_le (num_min a b) a \<and> num_le (num_min a b) b"
  by (auto simp: num_min_def num_lt_iff split: if_splits dest: num_le_total)

lemma num_min_mono: "num_le a a' \<Longrightarrow> b \<noteq> NaN \<Longrightarrow> num_le (num_min a b) (num_min a' b)"
  by (cases a; cases a'; cases b) (auto simp: num_min_def)

lemma num_max_mono: "num_le a a' \<Longrightarrow> b \<noteq> NaN \<Longrightarrow> num_le (num_max b a) (num_max b a')"
  by (cases a; cases a'; cases b) (auto simp: num_max_def)

lemma num_round_mono: "num_le a b \<Longrightarrow> num_le (num_round a) (num_round b)"
  by (cases a; cases b) (auto intro: floor_mono)

lemma num_floor_mono: "num_le a b \<Longrightarrow> num_le (num_floor a) (num_floor b)"
  by (cases a; cases b) (auto intro: floor_mono)

lemma num_pow2_mono: "num_le a b \<Longrightarrow> num_le (num_pow2 a) (num_pow2 b)"
  by (cases a; cases b) (auto intro!: dround_mono dround_nonneg floor_mono)

section \<open>Doubles: the fixed points of rounding\<close>

lemma round_grid_form:
  "\<exists>m e. round_grid x = of_int m * 2 powi e \<and> \<bar>m\<bar> \<le> 2 ^ 53 \<and> - 1074 \<le> e"
proof -
  have pos: "\<exists>m e. round_grid x = of_int m * 2 powi e \<and> \<bar>m\<bar> \<le> 2 ^ 53 \<and> - 1074 \<le> e" if "0 < x" for x
  proof -
    let ?m = "rne (x / 2 powi ulp_exp x)"
    have r: "round_grid x = of_int ?m * 2 powi ulp_exp x" using that by (simp add: round_grid_def)
    have "0 \<le> round_grid x" using that by (intro round_grid_nonneg) simp
    moreover have "\<not> (2::rat) powi ulp_exp x \<le> 0" by (simp add: not_le)
    ultimately have "0 \<le> ?m" using r by (simp add: zero_le_mult_iff)
    moreover have "of_int ?m * 2 powi ulp_exp x \<le> (2 ^ 53 :: rat) * 2 powi ulp_exp x"
      using round_grid_upper [OF that] by (simp add: r powi2_add)
    then have "(of_int ?m :: rat) \<le> of_int (2 ^ 53)" by simp
    then have "?m \<le> 2 ^ 53" by (simp only: of_int_le_iff)
    ultimately show ?thesis using r by (intro exI [of _ ?m] exI [of _ "ulp_exp x"]) (simp add: ulp_exp_def)
  qed
  consider "0 < x" | "x = 0" | "0 < - x" by linarith
  then show ?thesis
  proof cases
    case 2
    then have "round_grid x = of_int 0 * 2 powi 0 \<and> \<bar>0 :: int\<bar> \<le> 2 ^ 53 \<and> - 1074 \<le> (0 :: int)" by simp
    then show ?thesis by blast
  next
    case 3
    from pos [OF 3] obtain m e where "round_grid (- x) = of_int m * 2 powi e" "\<bar>m\<bar> \<le> 2 ^ 53" "- 1074 \<le> e"
      by blast
    then show ?thesis by (intro exI [of _ "- m"] exI [of _ e]) (simp add: round_grid_minus minus_equation_iff)
  qed (rule pos)
qed

lemma dround_idem: "dround x = Fin y \<Longrightarrow> dround y = Fin y"
proof -
  assume d: "dround x = Fin y"
  then have y: "y = round_grid x" and b: "\<not> 2 ^ 1024 \<le> y" "\<not> y \<le> - (2 ^ 1024)"
    by (auto simp: dround_def Let_def split: if_splits)
  obtain m e where "round_grid x = of_int m * 2 powi e" "\<bar>m\<bar> \<le> 2 ^ 53" "- 1074 \<le> e"
    using round_grid_form by blast
  then have "round_grid y = y" using y round_grid_exact by metis
  with b show ?thesis by (simp add: dround_def)
qed

text \<open>A value that arithmetic can produce: finite ones are fixed points of rounding.\<close>

definition is_double :: "jsnum \<Rightarrow> bool" where
  "is_double v \<longleftrightarrow> (\<forall>y. v = Fin y \<longrightarrow> dround y = Fin y)"

lemma is_double_dround [simp]: "is_double (dround x)"
  by (simp add: is_double_def dround_idem)

lemma is_double_add [simp]: "is_double (num_add a b)"
  by (cases a; cases b) (simp_all add: is_double_def dround_idem)

lemma is_double_num: "\<bar>k\<bar> \<le> 2 ^ 53 \<Longrightarrow> is_double (num k)"
  by (simp add: is_double_def dround_int)

lemma num_add_increases:
  assumes "is_double b" and "num_le (Fin 0) a" and "num_le (Fin 0) b"
  shows "num_le b (num_add a b)"
proof (cases b)
  case (Fin y)
  show ?thesis
  proof (cases a)
    case (Fin x)
    then have "num_le (dround y) (dround (x + y))" using assms(2) by (intro dround_mono) simp
    then show ?thesis using assms(1) Fin \<open>b = Fin y\<close> by (simp add: is_double_def)
  qed (use assms Fin in simp_all)
qed (use assms in \<open>cases a; simp\<close>)+

end
