(* ===== verification/Js_Value.thy ===== *)
theory Js_Value
  imports Js_Number
begin

text \<open>
  JavaScript values as the library's untyped boundaries see them. An object is the list of its
  own enumerable string-keyed properties in the order \<open>Object.keys\<close> returns them (keys are
  distinct: \<open>wf_jsval\<close>); an array is the list of its slots, a hole being
  \<open>None\<close>. Functions, symbols and big integers only matter through \<open>typeof\<close>.
  Strings are lists of code units up to 255; a literal with an arrow writes it as its UTF-8 bytes.
\<close>

section \<open>Values\<close>

datatype jsval =
    JUndef
  | JNull
  | JBool bool
  | JNum jsnum
  | JBigInt int
  | JStr string
  | JSymbol nat
  | JFun nat
  | JObj "(string \<times> jsval) list"
  | JArr "jsval option list"

fun typeof :: "jsval \<Rightarrow> string" where
  "typeof JUndef = ''undefined''"
| "typeof JNull = ''object''"
| "typeof (JBool _) = ''boolean''"
| "typeof (JNum _) = ''number''"
| "typeof (JBigInt _) = ''bigint''"
| "typeof (JStr _) = ''string''"
| "typeof (JSymbol _) = ''symbol''"
| "typeof (JFun _) = ''function''"
| "typeof (JObj _) = ''object''"
| "typeof (JArr _) = ''object''"

fun wf_jsval :: "jsval \<Rightarrow> bool" where
  "wf_jsval (JObj ps) = (distinct (map fst ps) \<and> (\<forall>v \<in> snd ` set ps. wf_jsval v))"
| "wf_jsval (JArr vs) = (\<forall>x \<in> set vs. \<forall>v \<in> set_option x. wf_jsval v)"
| "wf_jsval _ = True"

section \<open>Decimal numerals of template strings and array indices\<close>

definition digit :: "nat \<Rightarrow> char" where
  "digit d = char_of (48 + d)"

fun show_nat :: "nat \<Rightarrow> string" where
  "show_nat n = (if n < 10 then [digit n] else show_nat (n div 10) @ [digit (n mod 10)])"

declare show_nat.simps [simp del]

lemma digit_inj: "d < 10 \<Longrightarrow> e < 10 \<Longrightarrow> digit d = digit e \<Longrightarrow> d = e"
  by (auto simp: digit_def char_of_eq_iff of_char_of take_bit_eq_mod)

lemma show_nat_not_Nil [simp]: "show_nat n \<noteq> []" "[] \<noteq> show_nat n"
  by (subst show_nat.simps, simp)+

lemma show_nat_inj: "show_nat m = show_nat n \<Longrightarrow> m = n"
proof (induction m arbitrary: n rule: show_nat.induct)
  case (1 m)
  show ?case
  proof (cases "m < 10 \<or> n < 10")
    case True
    then show ?thesis using "1.prems"
      by (auto simp: show_nat.simps [of m] show_nat.simps [of n] digit_inj split: if_splits)
  next
    case False
    then have "show_nat (m div 10) = show_nat (n div 10)" and "m mod 10 = n mod 10"
      using "1.prems" by (auto simp: show_nat.simps [of m] show_nat.simps [of n] intro: digit_inj)
    moreover from this(1) have "m div 10 = n div 10" using "1.IH" False by simp
    ultimately show ?thesis by (metis div_mult_mod_eq)
  qed
qed

lemma show_nat_eq_iff [simp]: "show_nat m = show_nat n \<longleftrightarrow> m = n"
  using show_nat_inj by blast

text \<open>A numeral starts with a decimal digit, so it is none of the property names of the library.\<close>

definition is_digit :: "char \<Rightarrow> bool" where
  "is_digit c \<longleftrightarrow> (\<exists>d < 10. c = digit d)"

lemma hd_show_nat: "is_digit (hd (show_nat n))"
proof (induction n rule: show_nat.induct)
  case (1 n)
  show ?case
  proof (cases "n < 10")
    case True
    then show ?thesis by (auto simp: show_nat.simps [of n] is_digit_def)
  next
    case False
    then show ?thesis using "1.IH" by (simp add: show_nat.simps [of n])
  qed
qed

lemma show_nat_not_name: "\<not> is_digit c \<Longrightarrow> show_nat n \<noteq> c # s"
  using hd_show_nat [of n] by (metis list.sel(1))

lemma is_digit_code: "is_digit c \<longleftrightarrow> (of_char c :: nat) \<in> {48..57}"
proof
  assume "is_digit c"
  then show "(of_char c :: nat) \<in> {48..57}"
    by (auto simp: is_digit_def digit_def of_char_of take_bit_eq_mod)
next
  assume c: "(of_char c :: nat) \<in> {48..57}"
  then have "c = digit (of_char c - 48)" by (simp add: digit_def)
  with c show "is_digit c" unfolding is_digit_def by (intro exI [of _ "of_char c - 48"]) auto
qed

section \<open>Property access\<close>

text \<open>
  Reading a property of an object: absent properties are \<open>undefined\<close>. The library reads
  the properties of a value only after checking that it is a non-null object.
\<close>

fun props :: "jsval \<Rightarrow> (string \<times> jsval) list" where
  "props (JObj ps) = ps"
| "props (JArr vs) =
     concat (map (\<lambda>(i, x). case x of None \<Rightarrow> [] | Some v \<Rightarrow> [(show_nat i, v)]) (enumerate 0 vs))"
| "props _ = []"

definition get_prop :: "jsval \<Rightarrow> string \<Rightarrow> jsval" where
  "get_prop v k = (case map_of (props v) k of None \<Rightarrow> JUndef | Some x \<Rightarrow> x)"

definition object_keys :: "jsval \<Rightarrow> string list" where
  "object_keys v = map fst (props v)"

text \<open>A non-null object, the guard every reader uses: \<open>typeof v === 'object' && v !== null\<close>.\<close>

definition is_object :: "jsval \<Rightarrow> bool" where
  "is_object v \<longleftrightarrow> \<not> (v = JNull \<or> typeof v \<noteq> ''object'')"

definition is_string :: "jsval \<Rightarrow> bool" where
  "is_string v \<longleftrightarrow> typeof v = ''string''"

lemma is_object_simps [simp]:
  "\<not> is_object JUndef" "\<not> is_object JNull" "\<not> is_object (JBool b)" "\<not> is_object (JNum n)"
  "\<not> is_object (JBigInt i)" "\<not> is_object (JStr s)" "\<not> is_object (JSymbol y)" "\<not> is_object (JFun f)"
  "is_object (JObj ps)" "is_object (JArr vs)"
  by (simp_all add: is_object_def)

lemma is_string_iff: "is_string v \<longleftrightarrow> (\<exists>s. v = JStr s)"
  by (cases v) (simp_all add: is_string_def)

lemma is_string_simps [simp]:
  "is_string (JStr s)" "\<not> is_string JUndef" "\<not> is_string JNull" "\<not> is_string (JBool b)"
  "\<not> is_string (JNum n)" "\<not> is_string (JObj ps)" "\<not> is_string (JArr vs)"
  by (simp_all add: is_string_def)

text \<open>
  An array's index keys are never the named properties the library reads, so an array reads as
  an object without them.
\<close>

lemma array_props_index:
  "(k, v) \<in> set (props (JArr vs)) \<Longrightarrow> \<exists>i. k = show_nat i"
  by (auto split: option.splits)

lemma get_prop_array_name [simp]:
  assumes "\<not> is_digit c"
  shows "get_prop (JArr vs) (c # s) = JUndef"
proof (cases "map_of (props (JArr vs)) (c # s)")
  case (Some x)
  then have "(c # s, x) \<in> set (props (JArr vs))" by (rule map_of_SomeD)
  then show ?thesis using array_props_index show_nat_not_name [OF assms] by metis
qed (simp add: get_prop_def)

lemma distinct_array_keys:
  "distinct (map fst (concat (map (\<lambda>(i, x). case x of None \<Rightarrow> [] | Some v \<Rightarrow> [(show_nat i, v)]) (enumerate n vs))))"
proof (induction vs arbitrary: n)
  case (Cons x vs)
  have "\<exists>i > n. k = show_nat i" if "k \<in> fst ` set (concat (map (\<lambda>(i, x). case x of None \<Rightarrow> [] | Some v \<Rightarrow> [(show_nat i, v)]) (enumerate (Suc n) vs)))" for k
    using that by (force simp: in_set_enumerate_eq split: option.splits)
  then show ?case using Cons.IH [of "Suc n"] by (cases x) force+
qed simp

lemma distinct_object_keys: "wf_jsval v \<Longrightarrow> distinct (object_keys v)"
  using distinct_array_keys [of 0] by (cases v) (simp_all add: object_keys_def)

lemma get_prop_in: "wf_jsval v \<Longrightarrow> (k, x) \<in> set (props v) \<Longrightarrow> get_prop v k = x"
  using distinct_object_keys [of v] by (simp add: get_prop_def object_keys_def)

lemma object_keys_in: "k \<in> set (object_keys v) \<longleftrightarrow> (\<exists>x. (k, x) \<in> set (props v))"
  by (force simp: object_keys_def)

end
