(* ===== verification/Sync_Prelude.thy ===== *)
theory Sync_Prelude
  imports Js_Value
begin

text \<open>
  What every component shares: the rewrite collections, the wire representation of the
  string enumerations, reachability in a step relation with its invariant rule, and the actions
  that stand for the library's asynchronous functions.
\<close>

named_theorems wire_simps \<open>wire names of the enumerations\<close>
named_theorems err_simps \<open>error values and error-propagating actions\<close>
named_theorems step_simps \<open>state updates of the step functions\<close>

section \<open>White space\<close>

text \<open>
  What \<open>\s\<close> matches in a regular expression and \<open>parseInt\<close> skips, among the code units up to 255.
\<close>

definition is_space :: "char \<Rightarrow> bool" where
  "is_space c \<longleftrightarrow> of_char c \<in> {9, 10, 11, 12, 13, 32, 160 :: nat}"

section \<open>String enumerations\<close>

text \<open>
  An \<open>as const\<close> object is a list of values with a wire string each. Reading a wire string
  searches the list, as \<open>Set.has\<close> over \<open>Object.values\<close> does.
\<close>

definition parse_wire :: "'a list \<Rightarrow> ('a \<Rightarrow> string) \<Rightarrow> string \<Rightarrow> 'a option" where
  "parse_wire vs w s = find (\<lambda>x. w x = s) vs"

locale wire_enum =
  fixes vals :: "'a list" and wire :: "'a \<Rightarrow> string"
  assumes all_values: "x \<in> set vals"
    and distinct_wire: "distinct (map wire vals)"
begin

lemma wire_inj: "wire x = wire y \<Longrightarrow> x = y"
  using distinct_wire all_values by (meson distinct_map inj_onD)

lemma parse_iff: "parse_wire vals wire s = Some x \<longleftrightarrow> wire x = s"
proof
  assume "parse_wire vals wire s = Some x"
  then show "wire x = s" by (auto simp: parse_wire_def find_Some_iff)
next
  assume s: "wire x = s"
  then have "parse_wire vals wire s \<noteq> None"
    using all_values by (auto simp: parse_wire_def find_None_iff)
  then obtain y where y: "parse_wire vals wire s = Some y" by blast
  then have "wire y = s" by (auto simp: parse_wire_def find_Some_iff)
  with s y wire_inj show "parse_wire vals wire s = Some x" by metis
qed

lemma parse_wire_id: "parse_wire vals wire (wire x) = Some x"
  by (simp add: parse_iff)

lemma parse_none: "parse_wire vals wire s = None \<longleftrightarrow> s \<notin> set (map wire vals)"
  by (auto simp: parse_wire_def find_None_iff)

end

section \<open>Counting in lists\<close>

lemma count_list_remove1: "count_list (remove1 x xs) y = (if x = y then count_list xs y - 1 else count_list xs y)"
proof (induction xs)
  case (Cons a xs)
  have "x \<in> set xs \<Longrightarrow> 0 < count_list xs x" by (simp add: count_list_0_iff zero_less_iff_neq_zero)
  then show ?case using Cons by (auto simp: count_list_0_iff)
qed simp

lemma count_list_taken: "x \<in> set xs \<Longrightarrow> Suc (count_list (remove1 x xs) x) = count_list xs x"
  by (induction xs) auto

lemma count_list_pairs [simp]: "count_list (map (Pair m) ks) (n, k) = (if m = n then count_list ks k else 0)"
  by (induction ks) auto

section \<open>Reachability and invariants\<close>

inductive reachable :: "('s \<Rightarrow> bool) \<Rightarrow> ('s \<Rightarrow> 'e \<Rightarrow> 's \<Rightarrow> bool) \<Rightarrow> 's \<Rightarrow> bool"
  for init step where
  reach_init: "init s \<Longrightarrow> reachable init step s"
| reach_step: "reachable init step s \<Longrightarrow> step s e t \<Longrightarrow> reachable init step t"

text \<open>The contract of an invariant: it holds at the start and every step keeps it.\<close>

locale invariant_system =
  fixes init :: "'s \<Rightarrow> bool" and step :: "'s \<Rightarrow> 'e \<Rightarrow> 's \<Rightarrow> bool" and inv :: "'s \<Rightarrow> bool"
  assumes inv_init: "init s \<Longrightarrow> inv s"
    and inv_step: "inv s \<Longrightarrow> step s e t \<Longrightarrow> inv t"
begin

lemma reachable_inv: "reachable init step s \<Longrightarrow> inv s"
  by (induction rule: reachable.induct) (blast intro: inv_init inv_step)+

end

section \<open>Actions: state passing with errors\<close>

text \<open>
  An \<open>async\<close> function that settles is an action: from a state to an error or a value, and
  the state it leaves. \<open>catch\<close> is \<open>try \<dots> catch\<close> around an awaited call.
\<close>

type_synonym ('s, 'e, 'a) act = "'s \<Rightarrow> ('e + 'a) \<times> 's"

definition returnA :: "'a \<Rightarrow> ('s, 'e, 'a) act" where
  "returnA x s = (Inr x, s)"

definition throwA :: "'e \<Rightarrow> ('s, 'e, 'a) act" where
  "throwA e s = (Inl e, s)"

definition bindA :: "('s, 'e, 'a) act \<Rightarrow> ('a \<Rightarrow> ('s, 'e, 'b) act) \<Rightarrow> ('s, 'e, 'b) act" where
  "bindA m f s = (case m s of (Inl e, t) \<Rightarrow> (Inl e, t) | (Inr x, t) \<Rightarrow> f x t)"

definition catchA :: "('s, 'e, 'a) act \<Rightarrow> ('e \<Rightarrow> ('s, 'e, 'a) act) \<Rightarrow> ('s, 'e, 'a) act" where
  "catchA m h s = (case m s of (Inl e, t) \<Rightarrow> h e t | (Inr x, t) \<Rightarrow> (Inr x, t))"

definition liftE :: "'e + 'a \<Rightarrow> ('s, 'e, 'a) act" where
  "liftE r s = (r, s)"

lemma returnA_apply [err_simps]: "returnA x s = (Inr x, s)"
  by (simp add: returnA_def)

lemma throwA_apply [err_simps]: "throwA e s = (Inl e, s)"
  by (simp add: throwA_def)

lemma liftE_apply [err_simps]: "liftE r s = (r, s)"
  by (simp add: liftE_def)

lemma bindA_liftE [err_simps]:
  "bindA (liftE (Inl e)) f s = (Inl e, s)" "bindA (liftE (Inr x)) f s = f x s"
  by (simp_all add: bindA_def liftE_def)

lemma bindA_result:
  "m s = (Inl e, t) \<Longrightarrow> bindA m f s = (Inl e, t)"
  "m s = (Inr x, t) \<Longrightarrow> bindA m f s = f x t"
  by (simp_all add: bindA_def)

lemma bindA_Inr_iff:
  "bindA m f s = (Inr y, u) \<longleftrightarrow> (\<exists>x t. m s = (Inr x, t) \<and> f x t = (Inr y, u))"
  by (auto simp: bindA_def split: prod.splits sum.splits)

lemma catchA_Inr_iff:
  "catchA m h s = (Inr y, u) \<longleftrightarrow>
     m s = (Inr y, u) \<or> (\<exists>e t. m s = (Inl e, t) \<and> h e t = (Inr y, u))"
  by (auto simp: catchA_def split: prod.splits sum.splits)

lemma bindA_assoc: "bindA (bindA m f) g = bindA m (\<lambda>x. bindA (f x) g)"
  by (rule ext) (simp add: bindA_def split: prod.splits sum.splits)

end
