(* ===== verification/Sync_Errors.thy ===== *)
theory Sync_Errors
  imports Sync_Prelude
begin

text \<open>
  The error surface (\<open>src/errors\<close>, \<open>src/utils/errors.ts\<close>): the error codes, validation
  issues, the values a call can throw, and \<open>wrapNativeError\<close>, which turns whatever the
  native layer threw into a \<open>SyncError\<close>.
\<close>

datatype sync_error_code =
    NETWORK_ERROR | SERVER_ERROR | INVALID_PAYLOAD | QUEUE_FULL | NATIVE_MODULE_UNAVAILABLE
  | BACKGROUND_TASK_REGISTRATION_FAILED | INVALID_URL | UNAUTHORIZED | REQUEST_TIMEOUT
  | MAX_ATTEMPTS_EXCEEDED | DUPLICATE_ITEM | DRAIN_ALREADY_ACTIVE

fun code_wire :: "sync_error_code \<Rightarrow> string" where
  "code_wire NETWORK_ERROR = ''NETWORK_ERROR''"
| "code_wire SERVER_ERROR = ''SERVER_ERROR''"
| "code_wire INVALID_PAYLOAD = ''INVALID_PAYLOAD''"
| "code_wire QUEUE_FULL = ''QUEUE_FULL''"
| "code_wire NATIVE_MODULE_UNAVAILABLE = ''NATIVE_MODULE_UNAVAILABLE''"
| "code_wire BACKGROUND_TASK_REGISTRATION_FAILED = ''BACKGROUND_TASK_REGISTRATION_FAILED''"
| "code_wire INVALID_URL = ''INVALID_URL''"
| "code_wire UNAUTHORIZED = ''UNAUTHORIZED''"
| "code_wire REQUEST_TIMEOUT = ''TIMEOUT''"
| "code_wire MAX_ATTEMPTS_EXCEEDED = ''MAX_ATTEMPTS_EXCEEDED''"
| "code_wire DUPLICATE_ITEM = ''DUPLICATE_ITEM''"
| "code_wire DRAIN_ALREADY_ACTIVE = ''DRAIN_ALREADY_ACTIVE''"

definition code_values :: "sync_error_code list" where
  "code_values =
     [NETWORK_ERROR, SERVER_ERROR, INVALID_PAYLOAD, QUEUE_FULL, NATIVE_MODULE_UNAVAILABLE,
      BACKGROUND_TASK_REGISTRATION_FAILED, INVALID_URL, UNAUTHORIZED, REQUEST_TIMEOUT,
      MAX_ATTEMPTS_EXCEEDED, DUPLICATE_ITEM, DRAIN_ALREADY_ACTIVE]"

interpretation code_enum: wire_enum code_values code_wire
proof unfold_locales
  show "x \<in> set code_values" for x by (cases x) (simp_all add: code_values_def)
qed (simp add: code_values_def)

section \<open>Validation issues and thrown values\<close>

text \<open>An absent optional field of an issue is \<open>None\<close>.\<close>

record validation_issue =
  vi_field :: string
  vi_reason :: string
  vi_value :: "jsval option"
  vi_itemIndex :: "nat option"

text \<open>
  What a \<open>throw\<close> or a rejection can carry: a \<open>SyncError\<close> with its code, message, cause
  and validation errors; another \<open>Error\<close> with its \<open>message\<close> property; or any other
  value.
\<close>

datatype thrown =
    SyncError sync_error_code string "thrown option" "validation_issue list option"
  | ErrorObject jsval
  | OtherValue jsval

fun is_SyncError :: "thrown \<Rightarrow> bool" where
  "is_SyncError (SyncError _ _ _ _) = True"
| "is_SyncError _ = False"

fun error_code :: "thrown \<Rightarrow> sync_error_code option" where
  "error_code (SyncError c _ _ _) = Some c"
| "error_code _ = None"

fun error_message :: "thrown \<Rightarrow> string option" where
  "error_message (SyncError _ m _ _) = Some m"
| "error_message (ErrorObject (JStr m)) = Some m"
| "error_message _ = None"

fun error_cause :: "thrown \<Rightarrow> thrown option" where
  "error_cause (SyncError _ _ c _) = c"
| "error_cause _ = None"

fun validation_errors :: "thrown \<Rightarrow> validation_issue list option" where
  "validation_errors (SyncError _ _ _ v) = v"
| "validation_errors _ = None"

text \<open>The constructor sets \<open>cause\<close> and \<open>validationErrors\<close> only when they are defined.\<close>

definition new_SyncError ::
  "sync_error_code \<Rightarrow> string \<Rightarrow> thrown option \<Rightarrow> validation_issue list option \<Rightarrow> thrown" where
  "new_SyncError code message cause issues =
     SyncError code message (if cause = Some (OtherValue JUndef) then None else cause) issues"

definition native_message :: "thrown \<Rightarrow> sync_error_code \<Rightarrow> string" where
  "native_message err fallbackCode =
     (case err of
        ErrorObject (JStr m) \<Rightarrow>
          if m \<noteq> [] then m else ''Native call failed with code '' @ code_wire fallbackCode @ ''.''
      | _ \<Rightarrow> ''Native call failed with code '' @ code_wire fallbackCode @ ''.'')"

text \<open>\<open>wrapNativeError\<close> never returns: its result is what it throws.\<close>

definition wrapNativeError :: "thrown \<Rightarrow> sync_error_code \<Rightarrow> thrown" where
  "wrapNativeError err fallbackCode =
     (if is_SyncError err then err
      else new_SyncError fallbackCode (native_message err fallbackCode) (Some err) None)"

lemma new_SyncError_simps [simp]:
  "is_SyncError (new_SyncError c m k v)" "error_code (new_SyncError c m k v) = Some c"
  "error_message (new_SyncError c m k v) = Some m" "validation_errors (new_SyncError c m k v) = v"
  by (simp_all add: new_SyncError_def)

lemma error_code_iff: "error_code e \<noteq> None \<longleftrightarrow> is_SyncError e"
  by (cases e) simp_all

lemma wrapNativeError_is_SyncError [simp]: "is_SyncError (wrapNativeError err c)"
  by (simp add: wrapNativeError_def)

lemma wrapNativeError_SyncError [simp]: "is_SyncError err \<Longrightarrow> wrapNativeError err c = err"
  by (simp add: wrapNativeError_def)

lemma wrapNativeError_code:
  "error_code (wrapNativeError err c) = (if is_SyncError err then error_code err else Some c)"
  by (simp add: wrapNativeError_def)

lemma native_message_not_Nil: "native_message err c \<noteq> []"
  by (simp add: native_message_def split: thrown.splits jsval.splits)

lemma wrapNativeError_idem:
  "wrapNativeError (wrapNativeError err c) d = wrapNativeError err c"
  by simp

end
