(* ===== verification/Sync_Types.thy ===== *)
theory Sync_Types
  imports Sync_Errors
begin

text \<open>
  The public data types (\<open>src/types\<close>): the string enumerations with their wire names and the
  records that cross the bridge. An optional field is an \<open>option\<close>, a \<open>number\<close> is
  a \<^typ>\<open>jsnum\<close>, a \<open>Record<string, string>\<close> an association list.
\<close>

section \<open>Enumerations (types/enums.ts)\<close>

datatype connection_status = CONNECTED | DISCONNECTED | METERED | UNKNOWN

datatype connection_type =
  WIFI | CELLULAR | ETHERNET | BLUETOOTH | VPN | OTHER | NONE | UNKNOWN_TYPE

datatype sync_strategy = AUTOMATIC | MANUAL | OPPORTUNISTIC

datatype sync_priority = HIGH | NORMAL | LOW

datatype backoff_strategy = LINEAR | EXPONENTIAL | FIBONACCI

datatype network_quality = OFFLINE | POOR | MODERATE | GOOD | EXCELLENT

datatype http_method = GET | POST | PUT | PATCH | DELETE

datatype sync_event_type =
    ITEM_ENQUEUED | ITEM_REMOVED | SYNC_STARTED | SYNC_PROGRESS | SYNC_SUCCEEDED | SYNC_FAILED
  | ITEM_SUCCEEDED | ITEM_FAILED | ITEM_RETRYING | QUEUE_CLEARED | CONNECTION_CHANGED
  | PAUSED | RESUMED | BACKGROUND_SYNC_STARTED | BACKGROUND_SYNC_COMPLETED

fun status_wire :: "connection_status \<Rightarrow> string" where
  "status_wire CONNECTED = ''CONNECTED''"
| "status_wire DISCONNECTED = ''DISCONNECTED''"
| "status_wire METERED = ''METERED''"
| "status_wire UNKNOWN = ''UNKNOWN''"

fun type_wire :: "connection_type \<Rightarrow> string" where
  "type_wire WIFI = ''WIFI''"
| "type_wire CELLULAR = ''CELLULAR''"
| "type_wire ETHERNET = ''ETHERNET''"
| "type_wire BLUETOOTH = ''BLUETOOTH''"
| "type_wire VPN = ''VPN''"
| "type_wire OTHER = ''OTHER''"
| "type_wire NONE = ''NONE''"
| "type_wire UNKNOWN_TYPE = ''UNKNOWN''"

fun strategy_wire :: "sync_strategy \<Rightarrow> string" where
  "strategy_wire AUTOMATIC = ''AUTOMATIC''"
| "strategy_wire MANUAL = ''MANUAL''"
| "strategy_wire OPPORTUNISTIC = ''OPPORTUNISTIC''"

fun priority_wire :: "sync_priority \<Rightarrow> string" where
  "priority_wire HIGH = ''HIGH''"
| "priority_wire NORMAL = ''NORMAL''"
| "priority_wire LOW = ''LOW''"

fun backoff_wire :: "backoff_strategy \<Rightarrow> string" where
  "backoff_wire LINEAR = ''LINEAR''"
| "backoff_wire EXPONENTIAL = ''EXPONENTIAL''"
| "backoff_wire FIBONACCI = ''FIBONACCI''"

fun quality_wire :: "network_quality \<Rightarrow> string" where
  "quality_wire OFFLINE = ''OFFLINE''"
| "quality_wire POOR = ''POOR''"
| "quality_wire MODERATE = ''MODERATE''"
| "quality_wire GOOD = ''GOOD''"
| "quality_wire EXCELLENT = ''EXCELLENT''"

fun method_wire :: "http_method \<Rightarrow> string" where
  "method_wire GET = ''GET''"
| "method_wire POST = ''POST''"
| "method_wire PUT = ''PUT''"
| "method_wire PATCH = ''PATCH''"
| "method_wire DELETE = ''DELETE''"

fun event_wire :: "sync_event_type \<Rightarrow> string" where
  "event_wire ITEM_ENQUEUED = ''ITEM_ENQUEUED''"
| "event_wire ITEM_REMOVED = ''ITEM_REMOVED''"
| "event_wire SYNC_STARTED = ''SYNC_STARTED''"
| "event_wire SYNC_PROGRESS = ''SYNC_PROGRESS''"
| "event_wire SYNC_SUCCEEDED = ''SYNC_SUCCEEDED''"
| "event_wire SYNC_FAILED = ''SYNC_FAILED''"
| "event_wire ITEM_SUCCEEDED = ''ITEM_SUCCEEDED''"
| "event_wire ITEM_FAILED = ''ITEM_FAILED''"
| "event_wire ITEM_RETRYING = ''ITEM_RETRYING''"
| "event_wire QUEUE_CLEARED = ''QUEUE_CLEARED''"
| "event_wire CONNECTION_CHANGED = ''CONNECTION_CHANGED''"
| "event_wire PAUSED = ''PAUSED''"
| "event_wire RESUMED = ''RESUMED''"
| "event_wire BACKGROUND_SYNC_STARTED = ''BACKGROUND_SYNC_STARTED''"
| "event_wire BACKGROUND_SYNC_COMPLETED = ''BACKGROUND_SYNC_COMPLETED''"

text \<open>\<open>Object.values\<close> of each enumeration, in declaration order.\<close>

definition status_values :: "connection_status list" where
  "status_values = [CONNECTED, DISCONNECTED, METERED, UNKNOWN]"

definition type_values :: "connection_type list" where
  "type_values = [WIFI, CELLULAR, ETHERNET, BLUETOOTH, VPN, OTHER, NONE, UNKNOWN_TYPE]"

definition strategy_values :: "sync_strategy list" where
  "strategy_values = [AUTOMATIC, MANUAL, OPPORTUNISTIC]"

definition priority_values :: "sync_priority list" where
  "priority_values = [HIGH, NORMAL, LOW]"

definition backoff_values :: "backoff_strategy list" where
  "backoff_values = [LINEAR, EXPONENTIAL, FIBONACCI]"

definition quality_values :: "network_quality list" where
  "quality_values = [OFFLINE, POOR, MODERATE, GOOD, EXCELLENT]"

definition method_values :: "http_method list" where
  "method_values = [GET, POST, PUT, PATCH, DELETE]"

definition event_values :: "sync_event_type list" where
  "event_values =
     [ITEM_ENQUEUED, ITEM_REMOVED, SYNC_STARTED, SYNC_PROGRESS, SYNC_SUCCEEDED, SYNC_FAILED,
      ITEM_SUCCEEDED, ITEM_FAILED, ITEM_RETRYING, QUEUE_CLEARED, CONNECTION_CHANGED,
      PAUSED, RESUMED, BACKGROUND_SYNC_STARTED, BACKGROUND_SYNC_COMPLETED]"

lemmas enum_values =
  status_values_def type_values_def strategy_values_def priority_values_def backoff_values_def
  quality_values_def method_values_def event_values_def

interpretation status_enum: wire_enum status_values status_wire
proof unfold_locales
  show "x \<in> set status_values" for x by (cases x) (simp_all add: enum_values)
qed (simp add: enum_values)

interpretation type_enum: wire_enum type_values type_wire
proof unfold_locales
  show "x \<in> set type_values" for x by (cases x) (simp_all add: enum_values)
qed (simp add: enum_values)

interpretation strategy_enum: wire_enum strategy_values strategy_wire
proof unfold_locales
  show "x \<in> set strategy_values" for x by (cases x) (simp_all add: enum_values)
qed (simp add: enum_values)

interpretation priority_enum: wire_enum priority_values priority_wire
proof unfold_locales
  show "x \<in> set priority_values" for x by (cases x) (simp_all add: enum_values)
qed (simp add: enum_values)

interpretation backoff_enum: wire_enum backoff_values backoff_wire
proof unfold_locales
  show "x \<in> set backoff_values" for x by (cases x) (simp_all add: enum_values)
qed (simp add: enum_values)

interpretation quality_enum: wire_enum quality_values quality_wire
proof unfold_locales
  show "x \<in> set quality_values" for x by (cases x) (simp_all add: enum_values)
qed (simp add: enum_values)

interpretation method_enum: wire_enum method_values method_wire
proof unfold_locales
  show "x \<in> set method_values" for x by (cases x) (simp_all add: enum_values)
qed (simp add: enum_values)

interpretation event_enum: wire_enum event_values event_wire
proof unfold_locales
  show "x \<in> set event_values" for x by (cases x) (simp_all add: enum_values)
qed (simp add: enum_values)

subsection \<open>Network quality is ordered worst to best\<close>

fun quality_rank :: "network_quality \<Rightarrow> nat" where
  "quality_rank OFFLINE = 0"
| "quality_rank POOR = 1"
| "quality_rank MODERATE = 2"
| "quality_rank GOOD = 3"
| "quality_rank EXCELLENT = 4"

instantiation network_quality :: linorder
begin

definition less_eq_network_quality :: "network_quality \<Rightarrow> network_quality \<Rightarrow> bool" where
  "less_eq_network_quality a b \<longleftrightarrow> quality_rank a \<le> quality_rank b"

definition less_network_quality :: "network_quality \<Rightarrow> network_quality \<Rightarrow> bool" where
  "less_network_quality a b \<longleftrightarrow> quality_rank a < quality_rank b"

instance
proof
  fix a b :: network_quality
  show "a \<le> b \<Longrightarrow> b \<le> a \<Longrightarrow> a = b"
    by (cases a; cases b) (simp_all add: less_eq_network_quality_def)
qed (auto simp: less_eq_network_quality_def less_network_quality_def)

end

section \<open>Connection state (types/connection.ts)\<close>

record connection_state =
  conn_status :: connection_status
  conn_type :: connection_type
  conn_isInternetReachable :: "bool option"
  conn_isExpensive :: "bool option"

section \<open>Items, policy, options, results, events (types/sync.ts)\<close>

type_synonym string_record = "(string \<times> string) list"

record sync_item_input =
  in_method :: http_method
  in_url :: string
  in_headers :: "string_record option"
  in_body :: "string option"
  in_contentType :: "string option"
  in_priority :: "sync_priority option"
  in_metadata :: "string_record option"

record sync_item =
  item_id :: string
  item_method :: http_method
  item_url :: string
  item_headers :: "string_record option"
  item_body :: "string option"
  item_contentType :: "string option"
  item_priority :: "sync_priority option"
  item_createdAt :: jsnum
  item_attempts :: jsnum
  item_nextRetryAt :: jsnum
  item_metadata :: "string_record option"

record retry_policy =
  maxAttempts :: jsnum
  backoff :: string
  baseDelayMs :: jsnum
  maxDelayMs :: jsnum
  jitter :: bool
  retryOnStatusCodes :: "jsnum list"

record sync_options =
  opt_strategy :: sync_strategy
  opt_retryPolicy :: retry_policy
  opt_batchSize :: "jsnum option"
  opt_requestTimeoutMs :: "jsnum option"
  opt_maxQueueSize :: "jsnum option"
  opt_persistQueue :: "bool option"
  opt_defaultHeaders :: "string_record option"

record sync_result =
  startedAt :: jsnum
  finishedAt :: jsnum
  successCount :: jsnum
  failureCount :: jsnum
  succeededIds :: "string list"
  failedIds :: "string list"
  res_errors :: string_record

record background_sync_options =
  bg_minimumIntervalMs :: jsnum
  bg_requiresCharging :: "bool option"
  bg_requiresUnmeteredNetwork :: "bool option"
  bg_requiresDeviceIdle :: "bool option"
  bg_foregroundOnly :: "bool option"
  bg_taskIdentifier :: "string option"

text \<open>The flat event payload: every field but the first two is optional.\<close>

record sync_event =
  ev_type :: sync_event_type
  ev_timestamp :: jsnum
  ev_itemId :: "string option"
  ev_progress :: "jsnum option"
  ev_errorCode :: "sync_error_code option"
  ev_statusCode :: "jsnum option"
  ev_attempt :: "jsnum option"
  ev_connectionStatus :: "connection_status option"
  ev_metadata :: "string_record option"

record sync_dead_letter_item =
  dl_id :: string
  dl_method :: http_method
  dl_url :: string
  dl_headers :: "string_record option"
  dl_body :: "string option"
  dl_contentType :: "string option"
  dl_priority :: "sync_priority option"
  dl_createdAt :: jsnum
  dl_metadata :: "string_record option"
  dl_attempts :: jsnum
  dl_lastAttemptAt :: jsnum
  dl_lastErrorCode :: sync_error_code
  dl_lastErrorMessage :: "string option"
  dl_deadLetteredAt :: jsnum

section \<open>Drain options and result (types/drain.ts)\<close>

datatype drain_stopped_reason = EMPTY | MAX_ITERATIONS | TIMEOUT | CANCELLED

record drain_options =
  dopt_maxIterations :: "jsnum option"
  dopt_timeoutMs :: "jsnum option"
  dopt_delayBetweenCyclesMs :: "jsnum option"

record drain_result =
  dres_iterations :: int
  dres_itemsDispatched :: int
  dres_queueRemaining :: int
  dres_stoppedReason :: drain_stopped_reason

end
