(* ===== verification/Retry_Backoff.thy ===== *)
theory Retry_Backoff
  imports Sync_Types
begin

text \<open>
  The retry delay (\<open>src/utils/retryBackoff.ts\<close>). \<open>Math.random()\<close> is an argument. The
  Fibonacci loop counts in binary64, so it is a \<open>partial_function\<close>: \<open>None\<close> is a loop that
  does not return.
\<close>

section \<open>The Fibonacci loop\<close>

partial_function (option) fib_loop :: "jsnum \<Rightarrow> jsnum \<Rightarrow> jsnum \<Rightarrow> jsnum \<Rightarrow> jsnum option" where
  "fib_loop n i prv cur =
     (if num_le i n then fib_loop n (num_add i (num 1)) cur (num_add prv cur)
      else Some cur)"

definition fibonacci :: "jsnum \<Rightarrow> jsnum option" where
  "fibonacci n =
     (if num_le n (num 0) then Some (num 0)
      else if num_le n (num 2) then Some (num 1)
      else fib_loop n (num 3) (num 1) (num 1))"

section \<open>computeNextDelayMs\<close>

definition raw_delay :: "string \<Rightarrow> jsnum \<Rightarrow> jsnum \<Rightarrow> jsnum option" where
  "raw_delay strategy base safeAttempt =
     (if strategy = backoff_wire LINEAR then Some (num_mul base safeAttempt)
      else if strategy = backoff_wire EXPONENTIAL
      then Some (num_mul base (num_pow2 (num_sub safeAttempt (num 1))))
      else if strategy = backoff_wire FIBONACCI
      then map_option (num_mul base) (fibonacci safeAttempt)
      else Some (num_mul base (num_pow2 (num_sub safeAttempt (num 1)))))"

definition jitter_factor :: "jsnum \<Rightarrow> jsnum" where
  "jitter_factor random = num_add (Fin (3 / 4)) (num_mul random (Fin (1 / 2)))"

definition apply_jitter :: "bool \<Rightarrow> jsnum \<Rightarrow> jsnum \<Rightarrow> jsnum" where
  "apply_jitter j random raw = (if j then num_mul raw (jitter_factor random) else raw)"

definition clamp_delay :: "jsnum \<Rightarrow> jsnum \<Rightarrow> jsnum" where
  "clamp_delay maxDelay raw =
     (let cap = (if num_lt (num 0) maxDelay then maxDelay else raw)
      in num_round (num_min (num_max (num 0) raw) cap))"

definition safe_attempt :: "jsnum \<Rightarrow> jsnum" where
  "safe_attempt attempt = num_max (num 1) (num_floor attempt)"

definition computeNextDelayMs :: "jsnum \<Rightarrow> retry_policy \<Rightarrow> jsnum \<Rightarrow> jsnum option" where
  "computeNextDelayMs attempt policy random =
     map_option (\<lambda>raw. clamp_delay (maxDelayMs policy) (apply_jitter (jitter policy) random raw))
       (raw_delay (backoff policy) (num_max (num 0) (baseDelayMs policy)) (safe_attempt attempt))"

section \<open>Termination of the loop\<close>

lemma num_add_one: "\<bar>k\<bar> < 2 ^ 53 \<Longrightarrow> num_add (num k) (num 1) = num (k + 1)"
  by (rule num_add_int) linarith

lemma num_add_stuck: "num_add (num (2 ^ 53)) (num 1) = num (2 ^ 53)"
proof -
  define x :: rat where "x = 9007199254740993"
  have "log2_floor x = 53" by (rule log2_floor_unique) (simp_all add: x_def)
  then have u: "ulp_exp x = 1" by (simp add: ulp_exp_def x_def)
  have "\<lfloor>x / 2\<rfloor> = 2 ^ 52" by (rule floor_unique) (simp_all add: x_def)
  then have "rne (x / 2) = 2 ^ 52" by (simp add: rne_def x_def)
  then have "round_grid x = 2 ^ 53" by (simp add: round_grid_def u) (simp add: x_def)
  then have "dround x = Fin (2 ^ 53)" using big_2_1024 by (simp add: dround_def Let_def)
  then show ?thesis by (simp add: x_def)
qed

lemma fib_loop_returns:
  assumes "x < 2 ^ 53" and "0 \<le> k" and "k \<le> 2 ^ 53"
  shows "fib_loop (Fin x) (num k) a b \<noteq> None"
  using assms
proof (induction "nat (2 ^ 53 - k)" arbitrary: k a b rule: less_induct)
  case less
  show ?case
  proof (cases "of_int k \<le> x")
    case True
    with less.prems(1) have "(of_int k :: rat) < of_int (2 ^ 53)" by simp
    then have k: "k < 2 ^ 53" by (simp only: of_int_less_iff)
    have "fib_loop (Fin x) (num (k + 1)) b (num_add a b) \<noteq> None"
      using k less.prems by (intro less.hyps) auto
    then show ?thesis using True k less.prems num_add_one [of k]
      by (subst fib_loop.simps) simp
  qed (simp add: fib_loop.simps)
qed

lemma fib_loop_stuck:
  assumes ret: "fib_loop n i a b = Some r"
  shows "\<not> (num_le (num (2 ^ 53)) n \<and> (\<exists>k. i = num k \<and> 0 \<le> k \<and> k \<le> 2 ^ 53))"
proof (rule fib_loop.raw_induct [where P = "\<lambda>n i a b r.
    \<not> (num_le (num (2 ^ 53)) n \<and> (\<exists>k. i = num k \<and> 0 \<le> k \<and> k \<le> 2 ^ 53))", OF _ ret])
  fix f n i a b r
  assume IH: "\<And>n i a b r. f n i a b = Some r \<Longrightarrow>
      \<not> (num_le (num (2 ^ 53)) n \<and> (\<exists>k. i = num k \<and> 0 \<le> k \<and> k \<le> 2 ^ 53))"
    and eq: "(if num_le i n then f n (num_add i (num 1)) b (num_add a b) else Some b) = Some r"
  show "\<not> (num_le (num (2 ^ 53)) n \<and> (\<exists>k. i = num k \<and> 0 \<le> k \<and> k \<le> 2 ^ 53))"
  proof
    assume "num_le (num (2 ^ 53)) n \<and> (\<exists>k. i = num k \<and> 0 \<le> k \<and> k \<le> 2 ^ 53)"
    then obtain k where n: "num_le (num (2 ^ 53)) n" and i: "i = num k" and k: "0 \<le> k" "k \<le> 2 ^ 53"
      by blast
    have "(of_int k :: rat) \<le> of_int (2 ^ 53)" using k(2) by (simp only: of_int_le_iff)
    then have "num_le i n" using n i num_le_trans [of i "num (2 ^ 53)" n] by simp
    with eq have rec: "f n (num_add i (num 1)) b (num_add a b) = Some r" by simp
    have "\<exists>k'. num_add i (num 1) = num k' \<and> 0 \<le> k' \<and> k' \<le> 2 ^ 53"
    proof (cases "k = 2 ^ 53")
      case True
      then show ?thesis using i num_add_stuck by (intro exI [of _ k]) simp
    next
      case False
      then show ?thesis using i k num_add_one [of k] by (intro exI [of _ "k + 1"]) simp
    qed
    with IH [OF rec] n show False by blast
  qed
qed

lemma fibonacci_diverges_iff: "fibonacci n = None \<longleftrightarrow> num_le (num (2 ^ 53)) n"
proof (cases n)
  case (Fin x)
  have "fib_loop (Fin x) (num 3) (num 1) (num 1) = None \<longleftrightarrow> 2 ^ 53 \<le> x"
    using fib_loop_returns [of x 3 "num 1" "num 1"] fib_loop_stuck [of "Fin x" "num 3" "num 1" "num 1"]
    by (cases "2 ^ 53 \<le> x") force+
  then show ?thesis by (auto simp: fibonacci_def Fin)
next
  case PosInf
  have "fib_loop PosInf (num 3) (num 1) (num 1) = None"
    using fib_loop_stuck [of PosInf "num 3" "num 1" "num 1"] by force
  then show ?thesis by (simp add: fibonacci_def PosInf)
qed (simp_all add: fibonacci_def fib_loop.simps)

section \<open>Equivalence with the documented curves\<close>

fun fib :: "nat \<Rightarrow> nat" where
  "fib 0 = 0"
| "fib (Suc 0) = 1"
| "fib (Suc (Suc n)) = fib n + fib (Suc n)"

fun fib_from :: "int \<Rightarrow> int \<Rightarrow> nat \<Rightarrow> int" where
  "fib_from a b 0 = a"
| "fib_from a b (Suc n) = fib_from b (a + b) n"

lemma fib_from_fib: "fib_from (int (fib k)) (int (fib (Suc k))) n = int (fib (n + k))"
proof (induction n arbitrary: k)
  case (Suc n)
  then show ?case using Suc.IH [of "Suc k"] by simp
qed simp

lemma fib_mono_Suc: "fib n \<le> fib (Suc n)"
  by (induction n rule: fib.induct) simp_all

lemma fib_mono: "m \<le> n \<Longrightarrow> fib m \<le> fib n"
  by (rule lift_Suc_mono_le [of fib]) (rule fib_mono_Suc)

lemma fib_78: "int (fib 78) = 8944394323791464"
proof -
  have "fib_from 0 1 78 = 8944394323791464" by code_simp
  then show ?thesis using fib_from_fib [of 0 78] by simp
qed

lemma fib_exact:
  assumes "n \<le> 78"
  shows "int (fib n) \<le> 2 ^ 53"
proof -
  have "int (fib n) \<le> int (fib 78)" using fib_mono [OF assms] by simp
  then show ?thesis using fib_78 by simp
qed

lemma fib_exact_iff: "int (fib n) \<le> 2 ^ 53 \<longleftrightarrow> n \<le> 78"
proof
  assume small: "int (fib n) \<le> 2 ^ 53"
  have "fib_from 0 1 79 = 14472334024676221" by code_simp
  then have "int (fib 79) = 14472334024676221" using fib_from_fib [of 0 79] by simp
  with small have "int (fib n) < int (fib 79)" by simp
  then have "fib n < fib 79" by simp
  then have "\<not> 79 \<le> n" using fib_mono [of 79 n] by (meson not_le)
  then show "n \<le> 78" by simp
qed (rule fib_exact)

lemma fib_loop_fib:
  assumes "n \<le> 78" and "k + 1 \<le> n" and "1 \<le> k"
  shows "fib_loop (num (int n)) (num (int k + 2)) (num (int (fib k))) (num (int (fib (Suc k)))) =
    Some (num (int (fib n)))"
  using assms
proof (induction "n - k" arbitrary: k rule: less_induct)
  case less
  show ?case
  proof (cases "k + 1 = n")
    case True
    then show ?thesis by (subst fib_loop.simps) auto
  next
    case False
    then have k: "k + 2 \<le> n" using less.prems by simp
    have "fib_loop (num (int n)) (num (int (Suc k) + 2)) (num (int (fib (Suc k)))) (num (int (fib (Suc (Suc k))))) =
        Some (num (int (fib n)))"
      using k less.prems by (intro less.hyps) auto
    moreover have "num_add (num (int (fib k))) (num (int (fib (Suc k)))) = num (int (fib (Suc (Suc k))))"
      using fib_exact [of "Suc (Suc k)"] k less.prems num_add_int [of "int (fib k)" "int (fib (Suc k))"] by simp
    moreover have "num_add (num (int k + 2)) (num 1) = num (int (Suc k) + 2)"
      using num_add_one [of "int k + 2"] less.prems k by (simp add: algebra_simps)
    moreover have "num_le (num (int k + 2)) (num (int n))"
      using k by (simp del: of_int_add of_int_of_nat_eq)
    ultimately show ?thesis by (subst fib_loop.simps) (simp del: of_int_add of_int_of_nat_eq num_add.simps)
  qed
qed

lemma fibonacci_fib: "n \<le> 78 \<Longrightarrow> fibonacci (num (int n)) = Some (num (int (fib n)))"
proof -
  assume n: "n \<le> 78"
  consider "n = 0" | "n = 1" | "n = 2" | "3 \<le> n" by linarith
  then show ?thesis
  proof cases
    case 4
    then show ?thesis using fib_loop_fib [of n 1] n by (simp add: fibonacci_def)
  qed (simp_all add: fibonacci_def numeral_2_eq_2)
qed


text \<open>The curve documented on \<open>BackoffStrategy\<close>; an unknown strategy is exponential.\<close>

definition curve :: "string \<Rightarrow> nat \<Rightarrow> int" where
  "curve strategy n =
     (if strategy = backoff_wire LINEAR then int n
      else if strategy = backoff_wire FIBONACCI then int (fib n) else 2 ^ (n - 1))"

lemma num_sub_one: "1 \<le> n \<Longrightarrow> int n \<le> 2 ^ 53 \<Longrightarrow> num_sub (num (int n)) (num 1) = num (int (n - 1))"
  using num_sub_int [of "int n" 1] by (simp add: of_nat_diff)

lemma num_pow2_nat:
  assumes "(2::int) ^ k \<le> 2 ^ 53"
  shows "num_pow2 (num (int k)) = num (2 ^ k)"
  using dround_int [of "2 ^ k"] assms by simp

lemma pow2_le_53: "(2::int) ^ k \<le> 2 ^ 53 \<longleftrightarrow> k \<le> 53"
  by (rule power_increasing_iff) simp

lemma raw_delay_curve:
  assumes n: "1 \<le> n" and c: "curve strategy n \<le> 2 ^ 53"
    and b: "0 \<le> b" "b * curve strategy n \<le> 2 ^ 53"
  shows "raw_delay strategy (num b) (num (int n)) = Some (num (b * curve strategy n))"
proof -
  have c0: "0 \<le> curve strategy n" by (simp add: curve_def)
  have mul: "num_mul (num b) (num (curve strategy n)) = num (b * curve strategy n)"
    using b c0 by (intro num_mul_int) simp
  have exp: "num_pow2 (num_sub (num (int n)) (num 1)) = num (2 ^ (n - 1))" if "(2::int) ^ (n - 1) \<le> 2 ^ 53"
    using that n pow2_le_53 [of "n - 1"] num_sub_one [of n] num_pow2_nat [of "n - 1"] by simp
  consider "strategy = backoff_wire LINEAR" | "strategy = backoff_wire FIBONACCI"
    | "strategy \<noteq> backoff_wire LINEAR" "strategy \<noteq> backoff_wire FIBONACCI" by blast
  then show ?thesis
  proof cases
    case 1
    then show ?thesis using mul by (simp add: raw_delay_def curve_def)
  next
    case 2
    then have "n \<le> 78" using c fib_exact_iff by (simp add: curve_def)
    then show ?thesis using mul 2 fibonacci_fib [of n] by (simp add: raw_delay_def curve_def)
  next
    case 3
    then have "curve strategy n = 2 ^ (n - 1)" by (simp add: curve_def)
    then show ?thesis using mul exp c 3 unfolding raw_delay_def by (simp del: num_mul.simps num_pow2.simps)
  qed
qed

lemma clamp_delay_int:
  "0 \<le> r \<Longrightarrow> 0 < m \<Longrightarrow> clamp_delay (num m) (num r) = num (min r m)"
  by (auto simp: clamp_delay_def min_def max_def floor_eq_iff)

lemma safe_attempt_nat: "1 \<le> n \<Longrightarrow> safe_attempt (num (int n)) = num (int n)"
  by (simp add: safe_attempt_def)

section \<open>The sequence the loop computes\<close>

fun fibd :: "nat \<Rightarrow> jsnum" where
  "fibd 0 = num 0"
| "fibd (Suc 0) = num 1"
| "fibd (Suc (Suc n)) = num_add (fibd n) (fibd (Suc n))"

lemma fibd_double: "is_double (fibd n)"
  by (induction n rule: fibd.induct) (simp_all add: is_double_num [of 0, simplified] is_double_num [of 1, simplified])

lemma fibd_nonneg: "num_le (num 0) (fibd n)"
  by (induction n rule: fibd.induct) (simp_all add: num_add_nonneg)

lemma fibd_mono_Suc: "num_le (fibd n) (fibd (Suc n))"
proof (cases n)
  case (Suc m)
  then show ?thesis
    using num_add_increases [OF fibd_double] fibd_nonneg by simp
qed simp

lemma fibd_mono: "m \<le> n \<Longrightarrow> num_le (fibd m) (fibd n)"
proof (induction n rule: dec_induct)
  case base
  show ?case using fibd_nonneg [of m] by (auto dest: num_le_not_NaN)
next
  case (step n)
  then show ?case using fibd_mono_Suc num_le_trans by blast
qed

lemma fib_loop_fibd:
  assumes "x < 2 ^ 53" and "1 \<le> k" and "of_nat k + 1 \<le> x"
  shows "fib_loop (Fin x) (num (int k + 2)) (fibd k) (fibd (Suc k)) = Some (fibd (nat \<lfloor>x\<rfloor>))"
  using assms(2,3)
proof (induction "nat \<lfloor>x\<rfloor> - k" arbitrary: k rule: less_induct)
  case less
  have lt: "int k + 1 \<le> \<lfloor>x\<rfloor>" using less.prems(2) by (simp add: le_floor_iff)
  have "(of_int \<lfloor>x\<rfloor> :: rat) < of_int (2 ^ 53)" using assms(1) of_int_floor_le [of x] by simp
  then have up: "\<lfloor>x\<rfloor> < 2 ^ 53" by (simp only: of_int_less_iff)
  show ?case
  proof (cases "of_int (int k + 2) \<le> x")
    case True
    have "fib_loop (Fin x) (num (int (Suc k) + 2)) (fibd (Suc k)) (fibd (Suc (Suc k))) = Some (fibd (nat \<lfloor>x\<rfloor>))"
      using True less.prems lt by (intro less.hyps) (arith, simp_all)
    moreover have "num_add (num (int k + 2)) (num 1) = num (int (Suc k) + 2)"
    proof -
      have "int k + 2 \<le> \<lfloor>x\<rfloor>" using True by (simp only: le_floor_iff)
      then have "\<bar>int k + 2\<bar> < 2 ^ 53" using up by linarith
      then show ?thesis using num_add_one [of "int k + 2"] by (simp add: algebra_simps)
    qed
    ultimately show ?thesis using True
      by (subst fib_loop.simps) (simp del: of_int_add of_int_of_nat_eq num_add.simps)
  next
    case False
    then have "\<lfloor>x\<rfloor> = int (Suc k)" using less.prems by (intro floor_unique) auto
    then have "nat \<lfloor>x\<rfloor> = Suc k" by simp
    then show ?thesis using False
      by (subst fib_loop.simps) (simp del: of_int_add of_int_of_nat_eq fibd.simps)
  qed
qed

lemma fibonacci_fibd:
  assumes "1 \<le> x" and "x < 2 ^ 53"
  shows "fibonacci (Fin x) = Some (fibd (nat \<lfloor>x\<rfloor>))"
proof (cases "2 < x")
  case True
  have "num_add (num 0) (num 1) = num 1" using num_add_int [of 0 1] by simp
  then have "fibd 2 = num 1" by (simp add: numeral_2_eq_2)
  then show ?thesis using fib_loop_fibd [of x 1] True assms by (simp add: fibonacci_def numeral_2_eq_2)
next
  case False
  then have "\<lfloor>x\<rfloor> = 1 \<or> x = 2" using assms by (auto intro: floor_unique)
  moreover have "num_add (num 0) (num 1) = num 1" using num_add_int [of 0 1] by simp
  ultimately show ?thesis using assms False by (auto simp: fibonacci_def numeral_2_eq_2)
qed


section \<open>Properties of the delay\<close>

text \<open>The policy of the documentation example.\<close>

definition example_policy :: retry_policy where
  "example_policy =
     \<lparr>maxAttempts = num 5, backoff = ''EXPONENTIAL'', baseDelayMs = num 1000, maxDelayMs = num 60000,
      jitter = False, retryOnStatusCodes = [num 503]\<rparr>"

lemma computeNextDelayMs_at:
  assumes n: "1 \<le> n" and j: "\<not> jitter p" and base: "baseDelayMs p = num b" and cap: "maxDelayMs p = num m"
    and b: "0 \<le> b" and m: "0 < m"
    and c: "curve (backoff p) n \<le> 2 ^ 53" "b * curve (backoff p) n \<le> 2 ^ 53"
  shows "computeNextDelayMs (num (int n)) p random = Some (num (min (b * curve (backoff p) n) m))"
proof -
  have "0 \<le> curve (backoff p) n" by (simp add: curve_def)
  then have "0 \<le> b * curve (backoff p) n" using b by simp
  moreover have "num_max (num 0) (num b) = num b" using b by simp
  ultimately show ?thesis
    using raw_delay_curve [OF n c(1) b c(2)] clamp_delay_int [OF _ m] safe_attempt_nat [OF n] j
    by (simp add: computeNextDelayMs_def base cap apply_jitter_def del: num_max_Fin of_int_of_nat_eq of_int_mult)
qed

text \<open>C26: the computed delay equals the documented curve. For an integral base and cap,
  no jitter, and an attempt whose curve value (\<open>n\<close>, \<open>2^(n-1)\<close>, \<open>fib n\<close>, unknown
  strategies exponential) and its product with the base are at most \<open>2^53\<close>, the result is
  exactly \<open>min (base * curve) maxDelayMs\<close>: binary64 rounding, the power and the loop lose
  nothing.\<close>

theorem computeNextDelayMs_curve:
  assumes n: "1 \<le> n" and j: "\<not> jitter p" and base: "baseDelayMs p = num b" and cap: "maxDelayMs p = num m"
    and b: "0 \<le> b" and m: "0 < m"
    and c: "curve (backoff p) n \<le> 2 ^ 53" "b * curve (backoff p) n \<le> 2 ^ 53"
  shows "computeNextDelayMs (num (int n)) p random = Some (num (min (b * curve (backoff p) n) m))"
  using assms by (rule computeNextDelayMs_at)

lemma computeNextDelayMs_curve_witness:
  "computeNextDelayMs (num (int 3)) example_policy (Fin 0) = Some (num 4000)"
proof -
  have c: "curve ''EXPONENTIAL'' 3 = 4" by code_simp
  show ?thesis
    using computeNextDelayMs_curve [of 3 example_policy 1000 60000 "Fin 0"] c
    by (simp add: example_policy_def)
qed

lemma safe_attempt_cases:
  assumes "attempt \<noteq> NaN"
  obtains n where "safe_attempt attempt = num (int n)" and "1 \<le> n" | "safe_attempt attempt = PosInf"
proof (cases attempt)
  case (Fin x)
  then have "safe_attempt attempt = num (int (nat (max 1 \<lfloor>x\<rfloor>)))" by (simp add: safe_attempt_def max_def)
  then show ?thesis using that(1) [of "nat (max 1 \<lfloor>x\<rfloor>)"] by (simp add: le_nat_iff)
next
  case NegInf
  then have "safe_attempt attempt = num (int 1)" by (simp add: safe_attempt_def num_max_def)
  then show ?thesis using that(1) [of 1] by simp
qed (use that assms in \<open>simp_all add: safe_attempt_def num_max_def\<close>)

lemma computeNextDelayMs_None:
  "computeNextDelayMs attempt p random = None \<longleftrightarrow>
     backoff p = backoff_wire FIBONACCI \<and> num_le (num (2 ^ 53)) attempt"
proof -
  have "num_le (num (2 ^ 53)) (safe_attempt attempt) \<longleftrightarrow> num_le (num (2 ^ 53)) attempt"
    by (cases attempt) (auto simp: safe_attempt_def num_max_def le_floor_iff max_def)
  then show ?thesis
    by (simp add: computeNextDelayMs_def raw_delay_def fibonacci_diverges_iff del: of_int_power)
qed

section \<open>Growth, bounds and monotonicity\<close>

definition growth :: "string \<Rightarrow> jsnum \<Rightarrow> jsnum option" where
  "growth strategy a =
     (if strategy = backoff_wire LINEAR then Some a
      else if strategy = backoff_wire FIBONACCI then fibonacci a
      else Some (num_pow2 (num_sub a (num 1))))"

lemma raw_delay_growth: "raw_delay strategy base a = map_option (num_mul base) (growth strategy a)"
  by (simp add: raw_delay_def growth_def)

lemma num_sub_mono: "num_le a a' \<Longrightarrow> num_le (num_sub a (num k)) (num_sub a' (num k))"
  by (cases a; cases a') (auto simp: num_sub_def intro: dround_mono)

lemma fibonacci_mono:
  assumes "num_le (num 1) a" and "num_le a a'" and "fibonacci a' = Some g'"
  shows "\<exists>g. fibonacci a = Some g \<and> num_le g g'"
proof -
  have "\<not> num_le (num (2 ^ 53)) a'" using assms(3) fibonacci_diverges_iff [of a'] by simp
  then obtain x x' where x: "a = Fin x" "a' = Fin x'" "1 \<le> x" "x \<le> x'" "x' < 2 ^ 53"
    using assms(1,2) by (cases a; cases a') auto
  then have "nat \<lfloor>x\<rfloor> \<le> nat \<lfloor>x'\<rfloor>" by (intro nat_mono floor_mono)
  then show ?thesis using x assms(3) fibonacci_fibd [of x] fibonacci_fibd [of x'] fibd_mono by auto
qed

lemma growth_mono:
  assumes "num_le (num 1) a" and "num_le a a'" and "growth strategy a' = Some g'"
  shows "\<exists>g. growth strategy a = Some g \<and> num_le g g'"
  using assms fibonacci_mono [of a a' g'] num_pow2_mono [OF num_sub_mono [of a a' 1]]
  by (auto simp: growth_def)

lemma growth_nonneg: "num_le (num 1) a \<Longrightarrow> growth strategy a = Some g \<Longrightarrow> num_le (num 1) g"
proof -
  assume a: "num_le (num 1) a" and g: "growth strategy a = Some g"
  have "num_add (num 0) (num 1) = num 1" using num_add_int [of 0 1] by simp
  then have f: "fibonacci (num 1) = Some (num 1)" by (simp add: fibonacci_def)
  have "num_sub (num 1) (num 1) = num 0" using num_sub_int [of 1 1] by simp
  then have "num_pow2 (num_sub (num 1) (num 1)) = num 1" using dround_int [of 1] by simp
  then have "growth strategy (num 1) = Some (num 1)" using f by (simp add: growth_def)
  then show ?thesis using growth_mono [of "num 1" a strategy g] a g by auto
qed

lemma safe_attempt_ge: "attempt \<noteq> NaN \<Longrightarrow> num_le (num 1) (safe_attempt attempt)"
  by (cases attempt) (simp_all add: safe_attempt_def num_max_def)

lemma safe_attempt_mono: "num_le a a' \<Longrightarrow> num_le (safe_attempt a) (safe_attempt a')"
  unfolding safe_attempt_def by (intro num_max_mono num_floor_mono) auto

lemma num_mul_ge_1: "0 < b \<Longrightarrow> num_le (num 1) g \<Longrightarrow> num_le (Fin 0) (num_mul (Fin b) g)"
  using num_mul_mono_right [of b "Fin 0" g] num_le_trans [of "Fin 0" "num 1" g] by simp

lemma raw_delay_pos:
  assumes "0 < b" and "attempt \<noteq> NaN" and "raw_delay s (Fin b) (safe_attempt attempt) = Some raw"
  shows "num_le (Fin 0) raw"
  using assms growth_nonneg [OF safe_attempt_ge] num_mul_ge_1 by (auto simp: raw_delay_growth)

lemma dround_pow2_frac: "dround (of_int k / 2 ^ j) = Fin (of_int k / 2 ^ j)"
  if "\<bar>k\<bar> \<le> 2 ^ 53" "j \<le> 1074"
proof (rule dround_exact [where m = k and e = "- int j"])
  show "of_int k / 2 ^ j = (of_int k :: rat) * 2 powi - int j"
    by (simp add: power_int_minus field_simps)
  have "\<bar>(of_int k :: rat) / 2 ^ j\<bar> \<le> \<bar>of_int k\<bar>" by (simp add: divide_le_eq mult_le_cancel_left1)
  also have "\<dots> \<le> of_int (2 ^ 53)" using that(1) by (simp only: of_int_abs [symmetric] of_int_le_iff)
  also have "\<dots> < 2 ^ 1024" using big_2_1024 by simp
  finally show "\<bar>(of_int k :: rat) / 2 ^ j\<bar> < 2 ^ 1024" .
qed (use that in simp_all)

lemma jitter_factor_range:
  assumes "0 \<le> r" and "r < 1"
  obtains f where "jitter_factor (Fin r) = Fin f" and "3 / 4 \<le> f" and "f \<le> 5 / 4"
proof -
  have h: "dround (1 / 2) = Fin (1 / 2)" "dround (3 / 4) = Fin (3 / 4)" "dround (5 / 4) = Fin (5 / 4)"
    using dround_pow2_frac [of 1 1] dround_pow2_frac [of 3 2] dround_pow2_frac [of 5 2] by simp_all
  have "num_le (Fin 0) (dround (r * (1 / 2)))" using assms dround_mono [of 0 "r * (1 / 2)"] by simp
  moreover have "num_le (dround (r * (1 / 2))) (Fin (1 / 2))"
    using assms dround_mono [of "r * (1 / 2)" "1 / 2"] h by simp
  ultimately obtain y where y: "dround (r * (1 / 2)) = Fin y" "0 \<le> y" "y \<le> 1 / 2"
    by (cases "dround (r * (1 / 2))") auto
  have "num_le (Fin (3 / 4)) (dround (3 / 4 + y))" using y dround_mono [of "3 / 4" "3 / 4 + y"] h by simp
  moreover have "num_le (dround (3 / 4 + y)) (Fin (5 / 4))" using y dround_mono [of "3 / 4 + y" "5 / 4"] h by simp
  ultimately show ?thesis
    using that y by (cases "dround (3 / 4 + y)") (auto simp: jitter_factor_def)
qed

lemma num_mul_pos_mono:
  assumes "num_le (Fin 0) raw" and "0 < f" and "f \<le> f'"
  shows "num_le (num_mul raw (Fin f)) (num_mul raw (Fin f'))"
  using assms by (cases raw) (auto simp: inf_of_sign_def intro!: dround_mono mult_left_mono)

lemma num_mul_pos_nonneg: "num_le (Fin 0) raw \<Longrightarrow> 0 < f \<Longrightarrow> num_le (Fin 0) (num_mul raw (Fin f))"
  by (cases raw) (auto simp: inf_of_sign_def intro!: dround_nonneg)

lemma num_mul_left_mono:
  "num_le raw raw' \<Longrightarrow> 0 < f \<Longrightarrow> num_le (num_mul raw (Fin f)) (num_mul raw' (Fin f))"
  by (cases raw; cases raw') (auto simp: inf_of_sign_def intro!: dround_mono mult_right_mono)

lemma clamp_delay_mono: "0 < m \<Longrightarrow> num_le x y \<Longrightarrow> num_le (clamp_delay (Fin m) x) (clamp_delay (Fin m) y)"
  by (auto simp: clamp_delay_def Let_def intro!: num_round_mono num_min_mono num_max_mono)

lemma clamp_delay_bounds:
  assumes "0 < m" and "num_le (Fin 0) raw"
  obtains d where "clamp_delay (num m) raw = num d" and "0 \<le> d" and "d \<le> m"
proof -
  from assms(2) consider y where "raw = Fin y" "0 \<le> y" | "raw = PosInf" by (cases raw) auto
  then show ?thesis
  proof cases
    case 1
    let ?d = "\<lfloor>min y (of_int m) + 1 / 2\<rfloor>"
    have "clamp_delay (num m) raw = num ?d" using 1 assms(1) by (simp add: clamp_delay_def)
    moreover have "0 \<le> ?d" using 1 assms(1) by (simp add: le_floor_iff)
    moreover have "?d \<le> m" by (simp add: floor_le_iff min_def)
    ultimately show ?thesis by (rule that)
  next
    case 2
    have "\<lfloor>(of_int m :: rat) + 1 / 2\<rfloor> = m" by (rule floor_unique) simp_all
    then have "clamp_delay (num m) raw = num m" using 2 assms(1)
      by (simp add: clamp_delay_def num_max_def num_min_def)
    then show ?thesis using that assms(1) by simp
  qed
qed

lemma apply_jitter_nonneg:
  "num_le (Fin 0) raw \<Longrightarrow> 0 \<le> r \<Longrightarrow> r < 1 \<Longrightarrow> num_le (Fin 0) (apply_jitter j (Fin r) raw)"
  by (elim jitter_factor_range) (auto simp: apply_jitter_def intro: num_mul_pos_nonneg)

text \<open>With a positive base, a positive integral cap and an attempt that is a number below
  \<open>2^53\<close>, the result is an integral number of milliseconds between 0 and the cap.\<close>

lemma computeNextDelayMs_range:
  assumes base: "baseDelayMs p = Fin b" "0 < b" and cap: "maxDelayMs p = num m" "0 < m"
    and a: "attempt \<noteq> NaN" "\<not> num_le (num (2 ^ 53)) attempt" and r: "0 \<le> r" "r < 1"
  shows "\<exists>d. computeNextDelayMs attempt p (Fin r) = Some (num d) \<and> 0 \<le> d \<and> d \<le> m"
proof -
  have mx: "num_max (num 0) (Fin b) = Fin b" using base by simp
  have "computeNextDelayMs attempt p (Fin r) \<noteq> None" using a(2) computeNextDelayMs_None by blast
  then obtain raw where raw: "raw_delay (backoff p) (Fin b) (safe_attempt attempt) = Some raw"
    using base(1) mx by (auto simp: computeNextDelayMs_def)
  then have "num_le (Fin 0) (apply_jitter (jitter p) (Fin r) raw)"
    using raw_delay_pos [OF base(2) a(1)] apply_jitter_nonneg r by blast
  then obtain d where "clamp_delay (num m) (apply_jitter (jitter p) (Fin r) raw) = num d" "0 \<le> d" "d \<le> m"
    using clamp_delay_bounds [OF cap(2)] by blast
  then show ?thesis using raw base(1) mx cap(1) by (auto simp: computeNextDelayMs_def)
qed

lemma computeNextDelayMs_range_witness:
  "\<exists>d. computeNextDelayMs (num 2000) (example_policy\<lparr>jitter := True\<rparr>) (Fin (1 / 3)) = Some (num d) \<and> 0 \<le> d \<and> d \<le> 60000"
  by (rule computeNextDelayMs_range [where b = 1000]) (simp_all add: example_policy_def)

section \<open>The range for every policy and attempt\<close>

lemma base_cases: "num_max (num 0) x = NaN \<longleftrightarrow> x = NaN" "num_max (num 0) x = num 0 \<longleftrightarrow> num_le x (num 0)"
  "x \<noteq> NaN \<Longrightarrow> num_le (num 0) (num_max (num 0) x)"
  by (cases x; simp add: num_max_def)+

lemma num_mul_NaN_iff:
  assumes "num_le (num 0) b" and "num_le (num 1) g"
  shows "num_mul b g = NaN \<longleftrightarrow> b = num 0 \<and> g = PosInf"
  using assms by (cases b; cases g) (auto simp: inf_of_sign_def dround_def Let_def)

lemma num_mul_nonneg_or_NaN:
  assumes "num_le (num 0) b" and "num_le (num 1) g" and "num_mul b g \<noteq> NaN"
  shows "num_le (num 0) (num_mul b g)"
  using assms by (cases b; cases g) (auto simp: inf_of_sign_def intro!: dround_nonneg split: if_splits)

lemma growth_NaN: "growth s (safe_attempt NaN) = Some (if s = backoff_wire FIBONACCI then num 1 else NaN)"
  by (simp add: growth_def safe_attempt_def num_max_def num_sub_def fibonacci_def fib_loop.simps)

lemma raw_delay_NaN_iff:
  assumes "raw_delay s (num_max (num 0) b) (safe_attempt a) = Some raw"
  shows "raw = NaN \<longleftrightarrow> b = NaN \<or> (a = NaN \<and> s \<noteq> backoff_wire FIBONACCI) \<or>
      (num_le b (num 0) \<and> growth s (safe_attempt a) = Some PosInf)"
    and "raw \<noteq> NaN \<Longrightarrow> num_le (num 0) raw"
proof -
  from assms obtain g where g: "growth s (safe_attempt a) = Some g" "raw = num_mul (num_max (num 0) b) g"
    by (auto simp: raw_delay_growth)
  have ge: "num_le (num 1) g \<or> a = NaN \<and> s \<noteq> backoff_wire FIBONACCI \<and> g = NaN"
  proof (cases "a = NaN")
    case True
    then have "g = (if s = backoff_wire FIBONACCI then num 1 else NaN)"
      using g(1) growth_NaN [of s] by (simp del: backoff_wire.simps)
    then show ?thesis using True by (simp del: backoff_wire.simps)
  next
    case False
    then show ?thesis using growth_nonneg [OF safe_attempt_ge] g(1) by blast
  qed
  have nan: "num_mul v NaN = NaN" "num_mul NaN v = NaN" for v by (cases v; simp)+
  show "raw = NaN \<longleftrightarrow> b = NaN \<or> (a = NaN \<and> s \<noteq> backoff_wire FIBONACCI) \<or>
      (num_le b (num 0) \<and> growth s (safe_attempt a) = Some PosInf)"
  proof (cases "b = NaN \<or> g = NaN")
    case True
    then show ?thesis using g ge base_cases(1) [of b] nan by auto
  next
    case False
    then have pos: "num_le (num 1) g" and b0: "num_le (num 0) (num_max (num 0) b)"
      using ge base_cases(3) by auto
    have "\<not> (a = NaN \<and> s \<noteq> backoff_wire FIBONACCI)" using False g(1) growth_NaN [of s] by (auto split: if_splits)
    then show ?thesis using num_mul_NaN_iff [OF b0 pos] g False base_cases(2) [of b] by auto
  qed
  show "num_le (num 0) raw" if "raw \<noteq> NaN"
    using that g ge nan base_cases(1,3) [of b] num_mul_nonneg_or_NaN [of "num_max (num 0) b" g] by auto
qed

lemma apply_jitter_NaN:
  assumes "0 \<le> r" and "r < 1" and "raw = NaN \<or> num_le (num 0) raw"
  shows "apply_jitter j (Fin r) raw = NaN \<longleftrightarrow> raw = NaN"
proof -
  have "num_mul NaN v = NaN" for v by (cases v) simp_all
  then show ?thesis
    using assms apply_jitter_nonneg [of raw r j] by (auto simp: apply_jitter_def dest: num_le_not_NaN)
qed

lemma clamp_delay_range:
  assumes "num_le (num 0) raw"
  shows "num_le (num 0) (clamp_delay m raw) \<and> (clamp_delay m raw = PosInf \<or> (\<exists>k. clamp_delay m raw = num k)) \<and>
    (num_lt (num 0) m \<longrightarrow> num_le (clamp_delay m raw) (num_round m))"
  using assms
  by (cases raw; cases m) (auto simp: clamp_delay_def Let_def num_max_def num_min_def le_floor_iff
    intro!: floor_mono order_trans [OF of_int_floor_le])

text \<open>C27: the range of the delay, for every policy, every attempt and every value of
  \<open>Math.random()\<close> in \<open>[0, 1)\<close>. A delay that is returned is a number unless the base is NaN,
  the attempt is NaN (under any strategy but \<open>FIBONACCI\<close>), or a base of at most 0 meets a curve
  value that overflows to infinity. A number is never negative, a whole number of milliseconds or
  infinity, and at most the rounded \<open>maxDelayMs\<close> when that is positive; a \<open>maxDelayMs\<close> of at
  most 0 or NaN caps nothing.\<close>

theorem computeNextDelayMs_bounds:
  assumes "computeNextDelayMs attempt p (Fin r) = Some d" and "0 \<le> r" and "r < 1"
  shows "if baseDelayMs p = NaN \<or> (attempt = NaN \<and> backoff p \<noteq> backoff_wire FIBONACCI) \<or>
         (num_le (baseDelayMs p) (num 0) \<and> growth (backoff p) (safe_attempt attempt) = Some PosInf)
     then d = NaN
     else num_le (num 0) d \<and> (d = PosInf \<or> (\<exists>k. d = num k)) \<and>
       (num_lt (num 0) (maxDelayMs p) \<longrightarrow> num_le d (num_round (maxDelayMs p)))"
proof -
  obtain raw where raw: "raw_delay (backoff p) (num_max (num 0) (baseDelayMs p)) (safe_attempt attempt) = Some raw"
    and d: "d = clamp_delay (maxDelayMs p) (apply_jitter (jitter p) (Fin r) raw)"
    using assms(1) by (auto simp: computeNextDelayMs_def)
  note nan = raw_delay_NaN_iff [OF raw]
  show ?thesis
  proof (cases "raw = NaN")
    case True
    have "apply_jitter (jitter p) (Fin r) raw = NaN" using apply_jitter_NaN [OF assms(2,3)] True by simp
    then have "d = NaN" using d by (simp add: clamp_delay_def num_max_def num_min_def)
    then show ?thesis using nan(1) True by simp
  next
    case False
    have "num_le (num 0) (apply_jitter (jitter p) (Fin r) raw)"
      using apply_jitter_nonneg [OF _ assms(2,3)] nan(2) [OF False] by simp
    note clamp_delay_range [OF this, of "maxDelayMs p", folded d]
    then show ?thesis unfolding nan(1) [symmetric] using False by simp
  qed
qed

lemma computeNextDelayMs_bounds_witness:
  "\<exists>d. computeNextDelayMs (num 5) (example_policy\<lparr>jitter := True, baseDelayMs := num (- 7), maxDelayMs := num (- 1)\<rparr>) (Fin (1 / 3)) = Some d \<and>
     num_le (num 0) d \<and> (d = PosInf \<or> (\<exists>k. d = num k))"
proof -
  let ?p = "example_policy\<lparr>jitter := True, baseDelayMs := num (- 7), maxDelayMs := num (- 1)\<rparr>"
  have s: "safe_attempt (num 5) = num (int 5)" by (simp add: safe_attempt_def)
  have "num_pow2 (num (int 4)) = num (2 ^ 4)" by (rule num_pow2_nat) simp
  then have g: "growth (backoff ?p) (safe_attempt (num 5)) = Some (num 16)"
    using num_sub_one [of 5] s by (simp add: growth_def example_policy_def)
  obtain d where "computeNextDelayMs (num 5) ?p (Fin (1 / 3)) = Some d"
    using computeNextDelayMs_None [of "num 5" ?p "Fin (1 / 3)"]
    by (cases "computeNextDelayMs (num 5) ?p (Fin (1 / 3))") (simp_all add: example_policy_def)
  then show ?thesis using computeNextDelayMs_bounds [of "num 5" ?p "1 / 3" d] g
    by (auto simp: example_policy_def)
qed

text \<open>delays never shrink as attempts grow: for a positive base and cap and the
  same random draw, a later attempt waits at least as long, in every strategy and with every
  rounding of the arithmetic.\<close>

theorem computeNextDelayMs_mono:
  assumes base: "baseDelayMs p = Fin b" "0 < b" and cap: "maxDelayMs p = Fin m" "0 < m"
    and r: "0 \<le> r" "r < 1"
    and le: "num_le a a'" and d': "computeNextDelayMs a' p (Fin r) = Some d'"
  shows "\<exists>d. computeNextDelayMs a p (Fin r) = Some d \<and> num_le d d'"
proof -
  have mx: "num_max (num 0) (Fin b) = Fin b" using base by simp
  obtain g' where g': "growth (backoff p) (safe_attempt a') = Some g'"
    using d' by (auto simp: computeNextDelayMs_def raw_delay_growth)
  obtain g where g: "growth (backoff p) (safe_attempt a) = Some g" "num_le g g'"
    using growth_mono [OF safe_attempt_ge safe_attempt_mono [OF le] g'] num_le_not_NaN [OF le] by blast
  have raw: "num_le (num_mul (Fin b) g) (num_mul (Fin b) g')" using base(2) g(2) by (rule num_mul_mono_right)
  obtain f where "jitter_factor (Fin r) = Fin f" "3 / 4 \<le> f" using jitter_factor_range [OF r] by blast
  then have "num_le (apply_jitter (jitter p) (Fin r) (num_mul (Fin b) g)) (apply_jitter (jitter p) (Fin r) (num_mul (Fin b) g'))"
    using raw by (auto simp: apply_jitter_def intro: num_mul_left_mono)
  then show ?thesis using d' g g' base(1) mx cap clamp_delay_mono [OF cap(2)]
    by (auto simp: computeNextDelayMs_def raw_delay_growth)
qed

lemma computeNextDelayMs_mono_witness:
  "\<exists>d. computeNextDelayMs (num 3) example_policy (Fin 0) = Some d \<and> num_le d (num 32000)"
proof -
  have "curve ''EXPONENTIAL'' 6 = 32" by code_simp
  then have "computeNextDelayMs (num (int 6)) example_policy (Fin 0) = Some (num 32000)"
    using computeNextDelayMs_at [of 6 example_policy 1000 60000 "Fin 0"] by (simp add: example_policy_def)
  then show ?thesis
    using computeNextDelayMs_mono [of example_policy 1000 60000 0 "num 3" "num 6"]
    by (simp add: example_policy_def)
qed

text \<open>jitter only spreads the delay within a quarter around the curve: the result
  lies between the clamped \<open>0.75 * raw\<close> and the clamped \<open>1.25 * raw\<close>, for every value of
  \<open>Math.random()\<close> in \<open>[0, 1)\<close>.\<close>

theorem computeNextDelayMs_spread:
  assumes j: "jitter p" and base: "baseDelayMs p = Fin b" "0 < b" and cap: "maxDelayMs p = Fin m" "0 < m"
    and a: "attempt \<noteq> NaN" and r: "0 \<le> r" "r < 1"
    and raw: "raw_delay (backoff p) (Fin b) (safe_attempt attempt) = Some raw"
  shows "\<exists>d. computeNextDelayMs attempt p (Fin r) = Some d \<and>
      num_le (clamp_delay (Fin m) (num_mul raw (Fin (3 / 4)))) d \<and>
      num_le d (clamp_delay (Fin m) (num_mul raw (Fin (5 / 4))))"
proof -
  have mx: "num_max (num 0) (Fin b) = Fin b" using base by simp
  obtain f where f: "jitter_factor (Fin r) = Fin f" "3 / 4 \<le> f" "f \<le> 5 / 4"
    using jitter_factor_range [OF r] by blast
  have "num_le (Fin 0) raw" using raw_delay_pos [OF base(2) a raw] .
  then show ?thesis using f j raw base(1) mx cap
    by (auto simp: computeNextDelayMs_def apply_jitter_def intro!: clamp_delay_mono num_mul_pos_mono)
qed

lemma computeNextDelayMs_spread_witness:
  "\<exists>d. computeNextDelayMs (num 1) (example_policy\<lparr>jitter := True, backoff := ''LINEAR''\<rparr>) (Fin (1 / 3)) = Some d \<and>
     num_le (clamp_delay (Fin 60000) (num_mul (num 1000) (Fin (3 / 4)))) d \<and>
     num_le d (clamp_delay (Fin 60000) (num_mul (num 1000) (Fin (5 / 4))))"
proof -
  have "raw_delay ''LINEAR'' (Fin 1000) (safe_attempt (num 1)) = Some (num 1000)"
    using raw_delay_curve [of 1 "''LINEAR''" 1000] safe_attempt_nat [of 1] by (simp add: curve_def)
  then show ?thesis
    using computeNextDelayMs_spread [of "example_policy\<lparr>jitter := True, backoff := ''LINEAR''\<rparr>" 1000 60000 "num 1" "1 / 3" "num 1000"]
    by (simp add: example_policy_def)
qed

text \<open>a zero or negative base is clamped to 0, yet under the exponential curve an
  attempt of 1025 or more multiplies 0 by infinity and the delay is \<open>NaN\<close>, outside the
  documented range.\<close>

theorem computeNextDelayMs_zero_base:
  assumes "backoff p \<notin> {backoff_wire LINEAR, backoff_wire FIBONACCI}"
    and "baseDelayMs p = Fin b" "b \<le> 0" and "1025 \<le> n" "n \<le> 2 ^ 53"
  shows "computeNextDelayMs (num (int n)) p (Fin r) = Some NaN"
proof -
  have "num_pow2 (num_sub (num (int n)) (num 1)) = PosInf"
  proof -
    have "num_pow2 (num (int (n - 1))) = PosInf" using dround_pow2_overflow [of "int (n - 1)"] assms(4) by simp
    then show ?thesis using num_sub_one [of n] assms(4,5) by simp
  qed
  then have "raw_delay (backoff p) (num 0) (num (int n)) = Some NaN"
    using assms(1) by (auto simp: raw_delay_def inf_of_sign_def)
  moreover have "num_max (num 0) (Fin b) = num 0" using assms(3) by simp
  ultimately show ?thesis
    using assms(2) safe_attempt_nat [of n] assms(4)
    by (simp add: computeNextDelayMs_def apply_jitter_def clamp_delay_def num_max_def num_min_def)
qed

lemma computeNextDelayMs_zero_base_witness:
  "computeNextDelayMs (num 1025) (example_policy\<lparr>baseDelayMs := Fin 0\<rparr>) (Fin 0) = Some NaN"
  using computeNextDelayMs_zero_base [of "example_policy\<lparr>baseDelayMs := Fin 0\<rparr>" 0 1025 0]
  by (simp add: example_policy_def)

text \<open>C28: the delay computation returns exactly unless the strategy is
  \<open>FIBONACCI\<close> and the attempt is at least \<open>2^53\<close> (infinity included): there the loop counter
  stops growing and the loop never ends. Every other call returns, \<open>NaN\<close> attempts included.\<close>

theorem computeNextDelayMs_returns_iff:
  "computeNextDelayMs attempt p random = None \<longleftrightarrow>
     backoff p = backoff_wire FIBONACCI \<and> num_le (num (2 ^ 53)) attempt"
  by (rule computeNextDelayMs_None)

end
