(* ===== verification/Validation.thy ===== *)
theory Validation
  imports Sync_Types
begin

text \<open>
  The payload check that runs before the bridge (\<open>src/utils/validateSyncItem.ts\<close>). The input
  is an arbitrary JavaScript value: the TypeScript type is not enforced at run time. One
  definition per block of \<open>collectIssuesWithCode\<close>, in the order of the code.
\<close>

section \<open>The URL pattern\<close>

definition to_lower :: "char \<Rightarrow> char" where
  "to_lower c = (if of_char c \<in> {65..90::nat} then char_of (of_char c + 32 :: nat) else c)"

fun strip_prefix_ci :: "string \<Rightarrow> string \<Rightarrow> string option" where
  "strip_prefix_ci [] s = Some s"
| "strip_prefix_ci (p # ps) [] = None"
| "strip_prefix_ci (p # ps) (c # cs) = (if to_lower c = p then strip_prefix_ci ps cs else None)"

definition url_rest :: "string \<Rightarrow> bool" where
  "url_rest r \<longleftrightarrow> r \<noteq> [] \<and> list_all (\<lambda>c. \<not> is_space c) r"

text \<open>\<open>/^https?:\/\/[^\s]+$/i\<close>.\<close>

definition is_http_url :: "string \<Rightarrow> bool" where
  "is_http_url s =
     (case strip_prefix_ci ''https://'' s of
        Some r \<Rightarrow> url_rest r
      | None \<Rightarrow> (case strip_prefix_ci ''http://'' s of Some r \<Rightarrow> url_rest r | None \<Rightarrow> False))"

lemma strip_prefix_ci_iff: "strip_prefix_ci p s = Some r \<longleftrightarrow> (\<exists>q. s = q @ r \<and> map to_lower q = p)"
  by (induction p s rule: strip_prefix_ci.induct) (auto simp: Cons_eq_append_conv)

text \<open>The grammar the pattern stands for.\<close>

definition absolute_http_url :: "string \<Rightarrow> bool" where
  "absolute_http_url s \<longleftrightarrow>
     (\<exists>scheme rest. s = scheme @ rest \<and> map to_lower scheme \<in> {''http://'', ''https://''} \<and>
        rest \<noteq> [] \<and> (\<forall>c \<in> set rest. \<not> is_space c))"

lemma strip_prefix_ci_lower: "strip_prefix_ci p s = Some r \<Longrightarrow> map to_lower s = p @ map to_lower r"
  by (auto simp: strip_prefix_ci_iff)

lemma strip_both: "strip_prefix_ci ''https://'' s = Some r \<Longrightarrow> strip_prefix_ci ''http://'' s = None"
  by (cases "strip_prefix_ci ''http://'' s") (auto dest!: strip_prefix_ci_lower)

lemma strip_grammar:
  "(\<exists>r. strip_prefix_ci p s = Some r \<and> url_rest r) \<longleftrightarrow>
     (\<exists>scheme rest. s = scheme @ rest \<and> map to_lower scheme = p \<and> rest \<noteq> [] \<and> (\<forall>c \<in> set rest. \<not> is_space c))"
  by (auto simp: strip_prefix_ci_iff url_rest_def list_all_iff)

lemma strip_grammar2:
  "(\<exists>r. strip_prefix_ci p' s = Some r \<and> url_rest r) \<or> (\<exists>r. strip_prefix_ci p s = Some r \<and> url_rest r) \<longleftrightarrow>
     (\<exists>scheme rest. s = scheme @ rest \<and> map to_lower scheme \<in> {p, p'} \<and> rest \<noteq> [] \<and> (\<forall>c \<in> set rest. \<not> is_space c))"
  unfolding strip_grammar by blast

lemma first_match:
  "(\<And>r. a = Some r \<Longrightarrow> b = None) \<Longrightarrow>
     (case a of Some r \<Rightarrow> P r | None \<Rightarrow> (case b of Some r \<Rightarrow> P r | None \<Rightarrow> False)) \<longleftrightarrow>
       (\<exists>r. a = Some r \<and> P r) \<or> (\<exists>r. b = Some r \<and> P r)"
  by (cases a; cases b) auto

lemma is_http_url_iff: "is_http_url s \<longleftrightarrow> absolute_http_url s"
proof -
  have "is_http_url s \<longleftrightarrow>
      (\<exists>r. strip_prefix_ci ''https://'' s = Some r \<and> url_rest r) \<or> (\<exists>r. strip_prefix_ci ''http://'' s = Some r \<and> url_rest r)"
    unfolding is_http_url_def
    by (rule first_match) (rule strip_both)
  also have "\<dots> \<longleftrightarrow> absolute_http_url s" unfolding absolute_http_url_def by (rule strip_grammar2)
  finally show ?thesis .
qed

section \<open>Allowed values\<close>

definition allowed_methods :: "string list" where
  "allowed_methods = map method_wire method_values"

definition allowed_priorities :: "string list" where
  "allowed_priorities = map priority_wire priority_values"

fun set_has :: "string list \<Rightarrow> jsval \<Rightarrow> bool" where
  "set_has names (JStr s) = (s \<in> set names)"
| "set_has names _ = False"

fun join_with :: "string \<Rightarrow> string list \<Rightarrow> string" where
  "join_with sep [] = []"
| "join_with sep [s] = s"
| "join_with sep (s # t # ts) = s @ sep @ join_with sep (t # ts)"

lemma set_has_method: "set_has allowed_methods v \<longleftrightarrow> (\<exists>m. v = JStr (method_wire m))"
  using method_enum.all_values by (cases v) (auto simp: allowed_methods_def)

lemma set_has_priority: "set_has allowed_priorities v \<longleftrightarrow> (\<exists>p. v = JStr (priority_wire p))"
  using priority_enum.all_values by (cases v) (auto simp: allowed_priorities_def)

section \<open>Collected issues\<close>

text \<open>
  A public issue with the code and message of the single throw. A missing \<open>value\<close> and one
  that is \<open>undefined\<close> read the same.
\<close>

record collected_issue =
  ci_code :: sync_error_code
  ci_field :: string
  ci_reason :: string
  ci_value :: jsval
  ci_message :: "string option"

definition toPublicIssue :: "collected_issue \<Rightarrow> validation_issue" where
  "toPublicIssue i =
     \<lparr>vi_field = ci_field i, vi_reason = ci_reason i,
      vi_value = (if ci_value i \<noteq> JUndef then Some (ci_value i) else None), vi_itemIndex = None\<rparr>"

definition payload_issue :: "string \<Rightarrow> string \<Rightarrow> jsval \<Rightarrow> collected_issue" where
  "payload_issue field reason v =
     \<lparr>ci_code = INVALID_PAYLOAD, ci_field = field, ci_reason = reason, ci_value = v, ci_message = None\<rparr>"

definition method_issues :: "jsval \<Rightarrow> collected_issue list" where
  "method_issues input =
     (let m = get_prop input ''method''
      in if \<not> is_string m \<or> \<not> set_has allowed_methods m
         then [payload_issue ''method''
                 (''SyncItemInput.method must be one of '' @ join_with '', '' allowed_methods @ ''.'') m]
         else [])"

definition url_message :: "string \<Rightarrow> string" where
  "url_message u = ''SyncItemInput.url must be an absolute http(s) URL (got: \"'' @ u @ ''\").''"

definition url_issues :: "jsval \<Rightarrow> collected_issue list" where
  "url_issues input =
     (let empty =
        [\<lparr>ci_code = INVALID_URL, ci_field = ''url'',
          ci_reason = ''SyncItemInput.url must be a non-empty string.'',
          ci_value = JUndef, ci_message = None\<rparr>]
      in case get_prop input ''url'' of
           JStr u \<Rightarrow>
             if length u = 0 then empty
             else if \<not> is_http_url u then
               [\<lparr>ci_code = INVALID_URL, ci_field = ''url'',
                 ci_reason = ''SyncItemInput.url must be an absolute http(s) URL.'',
                 ci_value = JUndef, ci_message = Some (url_message u)\<rparr>]
             else []
         | _ \<Rightarrow> empty)"

definition body_issues :: "jsval \<Rightarrow> collected_issue list" where
  "body_issues input =
     (let b = get_prop input ''body''
      in if b \<noteq> JUndef \<and> \<not> is_string b
         then [payload_issue ''body''
                 ''SyncItemInput.body must be a string when supplied. Stringify objects on the JS side first.''
                 JUndef]
         else [])"

definition contentType_issues :: "jsval \<Rightarrow> collected_issue list" where
  "contentType_issues input =
     (let c = get_prop input ''contentType''
      in if c \<noteq> JUndef \<and> \<not> is_string c
         then [payload_issue ''contentType'' ''SyncItemInput.contentType must be a string when supplied.'' c]
         else [])"

definition priority_issues :: "jsval \<Rightarrow> collected_issue list" where
  "priority_issues input =
     (let p = get_prop input ''priority''
      in if p \<noteq> JUndef \<and> \<not> set_has allowed_priorities p
         then [payload_issue ''priority''
                 (''SyncItemInput.priority must be one of '' @ join_with '', '' allowed_priorities @ ''.'') p]
         else [])"

definition arrow :: string where
  "arrow = [CHR 0xE2, CHR 0x86, CHR 0x92]"

text \<open>The two blocks for \<open>headers\<close> and \<open>metadata\<close> differ in the field name only.\<close>

definition record_issues :: "string \<Rightarrow> jsval \<Rightarrow> collected_issue list" where
  "record_issues name input =
     (let h = get_prop input name
      in if h = JUndef then []
         else if \<not> is_object h then
           [payload_issue name
              (''SyncItemInput.'' @ name @ '' must be an object of string'' @ arrow @ ''string entries.'')
              JUndef]
         else concat (map (\<lambda>key.
           if \<not> is_string (get_prop h key)
           then [payload_issue (name @ ''.'' @ key)
                   (''SyncItemInput.'' @ name @ ''[\"'' @ key @ ''\"] must be a string.'') JUndef]
           else []) (object_keys h)))"

definition headers_issues :: "jsval \<Rightarrow> collected_issue list" where
  "headers_issues = record_issues ''headers''"

definition metadata_issues :: "jsval \<Rightarrow> collected_issue list" where
  "metadata_issues = record_issues ''metadata''"

definition collectIssuesWithCode :: "jsval \<Rightarrow> collected_issue list" where
  "collectIssuesWithCode input =
     (if \<not> is_object input
      then [payload_issue ''input'' ''SyncItemInput must be a non-null object.'' JUndef]
      else method_issues input @ url_issues input @ body_issues input @ contentType_issues input @
           priority_issues input @ headers_issues input @ metadata_issues input)"

definition collectSyncItemIssues :: "jsval \<Rightarrow> validation_issue list" where
  "collectSyncItemIssues input = map toPublicIssue (collectIssuesWithCode input)"

definition validateSyncItem :: "jsval \<Rightarrow> thrown + unit" where
  "validateSyncItem input =
     (let collected = collectIssuesWithCode input
      in case collected of
           first # _ \<Rightarrow>
             Inl (new_SyncError (ci_code first)
               (case ci_message first of Some m \<Rightarrow> m | None \<Rightarrow> ci_reason first)
               None (Some (map toPublicIssue collected)))
         | [] \<Rightarrow> Inr ())"

section \<open>The contract, stated declaratively\<close>

definition string_record :: "jsval \<Rightarrow> bool" where
  "string_record h \<longleftrightarrow> is_object h \<and> (\<forall>k \<in> set (object_keys h). is_string (get_prop h k))"

definition conforms :: "jsval \<Rightarrow> bool" where
  "conforms input \<longleftrightarrow>
     is_object input \<and>
     (\<exists>m. get_prop input ''method'' = JStr (method_wire m)) \<and>
     (\<exists>u. get_prop input ''url'' = JStr u \<and> absolute_http_url u) \<and>
     (get_prop input ''body'' = JUndef \<or> is_string (get_prop input ''body'')) \<and>
     (get_prop input ''contentType'' = JUndef \<or> is_string (get_prop input ''contentType'')) \<and>
     (get_prop input ''priority'' = JUndef \<or> (\<exists>p. get_prop input ''priority'' = JStr (priority_wire p))) \<and>
     (get_prop input ''headers'' = JUndef \<or> string_record (get_prop input ''headers'')) \<and>
     (get_prop input ''metadata'' = JUndef \<or> string_record (get_prop input ''metadata''))"

lemma method_issues_Nil: "method_issues input = [] \<longleftrightarrow> (\<exists>m. get_prop input ''method'' = JStr (method_wire m))"
  by (auto simp: method_issues_def Let_def set_has_method)

lemma url_issues_Nil: "url_issues input = [] \<longleftrightarrow> (\<exists>u. get_prop input ''url'' = JStr u \<and> absolute_http_url u)"
  by (cases "get_prop input ''url''") (auto simp: url_issues_def Let_def is_http_url_iff absolute_http_url_def)

lemma body_issues_Nil: "body_issues input = [] \<longleftrightarrow> get_prop input ''body'' = JUndef \<or> is_string (get_prop input ''body'')"
  by (auto simp: body_issues_def Let_def)

lemma contentType_issues_Nil:
  "contentType_issues input = [] \<longleftrightarrow> get_prop input ''contentType'' = JUndef \<or> is_string (get_prop input ''contentType'')"
  by (auto simp: contentType_issues_def Let_def)

lemma priority_issues_Nil:
  "priority_issues input = [] \<longleftrightarrow>
     get_prop input ''priority'' = JUndef \<or> (\<exists>p. get_prop input ''priority'' = JStr (priority_wire p))"
  by (simp add: priority_issues_def Let_def set_has_priority)

lemma record_issues_Nil:
  "record_issues name input = [] \<longleftrightarrow> get_prop input name = JUndef \<or> string_record (get_prop input name)"
  by (auto simp: record_issues_def Let_def string_record_def)

lemmas issues_Nil =
  method_issues_Nil url_issues_Nil body_issues_Nil contentType_issues_Nil priority_issues_Nil
  headers_issues_def metadata_issues_def record_issues_Nil

lemma collectIssuesWithCode_Nil: "collectIssuesWithCode input = [] \<longleftrightarrow> conforms input"
  by (simp add: collectIssuesWithCode_def conforms_def issues_Nil)

lemma validateSyncItem_ok: "validateSyncItem input = Inr () \<longleftrightarrow> conforms input"
  by (simp add: validateSyncItem_def Let_def collectIssuesWithCode_Nil [symmetric] split: list.split)

lemma validateSyncItem_error:
  assumes "validateSyncItem input = Inl e"
  obtains i rest where "collectIssuesWithCode input = i # rest"
    and "e = SyncError (ci_code i) (case ci_message i of Some m \<Rightarrow> m | None \<Rightarrow> ci_reason i) None
      (Some (collectSyncItemIssues input))"
  using assms that
  by (auto simp: validateSyncItem_def Let_def collectSyncItemIssues_def new_SyncError_def split: list.splits)

lemma url_issues_hd: "i \<in> set (url_issues input) \<Longrightarrow> ci_code i = INVALID_URL \<and> ci_field i = ''url'' \<and> ci_value i = JUndef"
  by (cases "get_prop input ''url''") (auto simp: url_issues_def Let_def split: if_splits)

lemma payload_issue_simps [simp]:
  "ci_code (payload_issue f r v) = INVALID_PAYLOAD" "ci_field (payload_issue f r v) = f"
  "ci_reason (payload_issue f r v) = r" "ci_value (payload_issue f r v) = v" "ci_message (payload_issue f r v) = None"
  by (simp_all add: payload_issue_def)

lemma method_issues_code: "i \<in> set (method_issues input) \<Longrightarrow> ci_code i = INVALID_PAYLOAD \<and> ci_field i = ''method''"
  by (auto simp: method_issues_def Let_def split: if_splits)

lemma rest_issues_code:
  "i \<in> set (body_issues input @ contentType_issues input @ priority_issues input @ headers_issues input @ metadata_issues input) \<Longrightarrow>
     ci_code i = INVALID_PAYLOAD"
  by (auto simp: body_issues_def contentType_issues_def priority_issues_def headers_issues_def metadata_issues_def
      record_issues_def Let_def split: if_splits)

section \<open>Acceptance\<close>

text \<open>C23: validation accepts exactly the values that conform to the declarative contract: an
  object with an allowed method and an absolute http(s) URL, and string or absent body and content
  type, an allowed or absent priority, and absent or string-to-string headers and metadata. The
  collecting form reports no issue on exactly the same values.\<close>

theorem validateSyncItem_iff_conforms:
  "(validateSyncItem input = Inr () \<longleftrightarrow> conforms input) \<and> (collectSyncItemIssues input = [] \<longleftrightarrow> conforms input)"
  by (simp add: validateSyncItem_ok collectSyncItemIssues_def collectIssuesWithCode_Nil)

definition example_bad_input :: jsval where
  "example_bad_input = JObj [(''method'', JStr ''GET''), (''url'', JStr ''ftp://x?token=s'')]"

lemma example_bad_input_facts:
  "is_object example_bad_input" "\<exists>m. get_prop example_bad_input ''method'' = JStr (method_wire m)"
  "get_prop example_bad_input ''url'' = JStr ''ftp://x?token=s''" "\<not> is_http_url ''ftp://x?token=s''"
  "\<not> conforms example_bad_input"
proof -
  show url: "get_prop example_bad_input ''url'' = JStr ''ftp://x?token=s''" by code_simp
  show bad: "\<not> is_http_url ''ftp://x?token=s''" by code_simp
  show "is_object example_bad_input" by code_simp
  have "get_prop example_bad_input ''method'' = JStr (method_wire GET)" by code_simp
  then show "\<exists>m. get_prop example_bad_input ''method'' = JStr (method_wire m)" by (rule exI)
  show "\<not> conforms example_bad_input" using url bad by (auto simp: conforms_def is_http_url_iff)
qed

section \<open>What the error carries\<close>

lemma first_issue_code:
  assumes "collectIssuesWithCode input = i # rest"
  shows "ci_code i =
      (if is_object input \<and> method_issues input = [] \<and> url_issues input \<noteq> [] then INVALID_URL else INVALID_PAYLOAD)"
proof (cases "is_object input \<and> method_issues input = []")
  case True
  then show ?thesis
    using assms url_issues_hd [of i input] rest_issues_code [of i input]
    by (cases "url_issues input") (auto simp: collectIssuesWithCode_def)
next
  case False
  then show ?thesis using assms method_issues_code [of i input]
    by (cases "method_issues input") (auto simp: collectIssuesWithCode_def split: if_splits)
qed

lemma validateSyncItem_code:
  "validateSyncItem input = Inl e \<Longrightarrow>
     error_code e =
       Some (if is_object input \<and> (\<exists>m. get_prop input ''method'' = JStr (method_wire m)) \<and>
                \<not> (\<exists>u. get_prop input ''url'' = JStr u \<and> absolute_http_url u)
             then INVALID_URL else INVALID_PAYLOAD)"
  by (erule validateSyncItem_error) (simp add: first_issue_code method_issues_Nil url_issues_Nil)

lemma rest_issues_message:
  "i \<in> set (body_issues input @ contentType_issues input @ priority_issues input @ headers_issues input @ metadata_issues input) \<Longrightarrow>
     ci_message i = None"
  by (auto simp: body_issues_def contentType_issues_def priority_issues_def headers_issues_def metadata_issues_def
      record_issues_def Let_def split: if_splits)

lemma first_issue_message:
  assumes "collectIssuesWithCode input = i # rest"
  shows "ci_message i =
      (if is_object input \<and> method_issues input = [] then
         (case get_prop input ''url'' of
            JStr u \<Rightarrow> if u \<noteq> [] \<and> \<not> is_http_url u then Some (url_message u) else None
          | _ \<Rightarrow> None)
       else None)"
proof (cases "is_object input \<and> method_issues input = []")
  case True
  then have i: "url_issues input @ body_issues input @ contentType_issues input @ priority_issues input @
      headers_issues input @ metadata_issues input = i # rest"
    using assms by (simp add: collectIssuesWithCode_def)
  show ?thesis
  proof (cases "url_issues input")
    case Nil
    then have "i \<in> set (body_issues input @ contentType_issues input @ priority_issues input @
        headers_issues input @ metadata_issues input)" using i by simp
    then have "ci_message i = None" by (rule rest_issues_message)
    then show ?thesis using True Nil
      by (cases "get_prop input ''url''") (auto simp: url_issues_def Let_def split: if_splits)
  next
    case (Cons j js)
    then have "j = i" using i by simp
    then show ?thesis using True Cons
      by (cases "get_prop input ''url''") (auto simp: url_issues_def Let_def split: if_splits)
  qed
next
  case False
  then show ?thesis using assms
    by (auto simp: collectIssuesWithCode_def method_issues_def Let_def split: if_splits)
qed

text \<open>C24: an input that breaks the contract is rejected with one \<open>SyncError\<close> that carries
  the whole, non-empty list of issues; its code is \<open>INVALID_URL\<close> exactly when the first broken
  rule is the URL's, that is when the input is an object with a good method and a bad URL, and
  \<open>INVALID_PAYLOAD\<close> otherwise (also for a bad URL behind a bad method).\<close>

theorem validateSyncItem_first_violation:
  assumes "\<not> conforms input"
  shows "\<exists>e. validateSyncItem input = Inl e \<and> error_cause e = None \<and>
      validation_errors e = Some (collectSyncItemIssues input) \<and> collectSyncItemIssues input \<noteq> [] \<and>
      error_code e =
        Some (if is_object input \<and> (\<exists>m. get_prop input ''method'' = JStr (method_wire m)) \<and>
                 \<not> (\<exists>u. get_prop input ''url'' = JStr u \<and> absolute_http_url u)
              then INVALID_URL else INVALID_PAYLOAD)"
proof -
  obtain i rest where i: "collectIssuesWithCode input = i # rest"
    using assms collectIssuesWithCode_Nil by (cases "collectIssuesWithCode input") blast+
  then show ?thesis using first_issue_code [OF i]
    by (simp add: validateSyncItem_def collectSyncItemIssues_def new_SyncError_def method_issues_Nil url_issues_Nil)
qed

lemma validateSyncItem_first_violation_witness:
  "\<exists>e. validateSyncItem example_bad_input = Inl e \<and> error_code e = Some INVALID_URL"
  using validateSyncItem_first_violation [of example_bad_input] example_bad_input_facts
  by (auto simp: is_http_url_iff [symmetric])

text \<open>the thrown message is the first issue's reason, except that a non-empty string that
  is no absolute http(s) URL is quoted in the message, and only there.\<close>

theorem validateSyncItem_message:
  assumes "validateSyncItem input = Inl e"
  shows "error_message e =
      Some (case get_prop input ''url'' of
              JStr u \<Rightarrow>
                if is_object input \<and> (\<exists>m. get_prop input ''method'' = JStr (method_wire m)) \<and> u \<noteq> [] \<and> \<not> absolute_http_url u
                then url_message u else vi_reason (hd (collectSyncItemIssues input))
            | _ \<Rightarrow> vi_reason (hd (collectSyncItemIssues input)))"
proof -
  from validateSyncItem_error [OF assms] obtain i rest where i: "collectIssuesWithCode input = i # rest"
    and e: "e = SyncError (ci_code i) (case ci_message i of Some m \<Rightarrow> m | None \<Rightarrow> ci_reason i) None
      (Some (collectSyncItemIssues input))" .
  have "vi_reason (hd (collectSyncItemIssues input)) = ci_reason i"
    using i by (simp add: collectSyncItemIssues_def toPublicIssue_def)
  then show ?thesis using first_issue_message [OF i] e
    by (auto simp: method_issues_Nil is_http_url_iff split: jsval.split)
qed

lemma validateSyncItem_message_witness:
  "\<exists>e. validateSyncItem example_bad_input = Inl e \<and>
     error_message e = Some ''SyncItemInput.url must be an absolute http(s) URL (got: \"ftp://x?token=s\").''"
proof -
  obtain e where e: "validateSyncItem example_bad_input = Inl e"
    using example_bad_input_facts validateSyncItem_ok [of example_bad_input]
    by (cases "validateSyncItem example_bad_input") auto
  then show ?thesis
    using validateSyncItem_message [OF e] example_bad_input_facts
    by (auto simp: is_http_url_iff [symmetric] url_message_def)
qed

section \<open>Confidentiality of the issues\<close>

fun url_class :: "jsval \<Rightarrow> nat" where
  "url_class (JStr u) = (if u = [] then 0 else if is_http_url u then 2 else 1)"
| "url_class _ = 0"

definition record_shape :: "jsval \<Rightarrow> bool \<times> bool \<times> (string \<times> bool) list" where
  "record_shape h = (h = JUndef, is_object h, map (\<lambda>k. (k, is_string (get_prop h k))) (object_keys h))"

text \<open>What two inputs must share for their issues to agree: no URL, body or record value is in it.\<close>

definition same_shape :: "jsval \<Rightarrow> jsval \<Rightarrow> bool" where
  "same_shape v w \<longleftrightarrow>
     is_object v = is_object w \<and>
     get_prop v ''method'' = get_prop w ''method'' \<and>
     get_prop v ''contentType'' = get_prop w ''contentType'' \<and>
     get_prop v ''priority'' = get_prop w ''priority'' \<and>
     url_class (get_prop v ''url'') = url_class (get_prop w ''url'') \<and>
     (get_prop v ''body'' = JUndef) = (get_prop w ''body'' = JUndef) \<and>
     is_string (get_prop v ''body'') = is_string (get_prop w ''body'') \<and>
     record_shape (get_prop v ''headers'') = record_shape (get_prop w ''headers'') \<and>
     record_shape (get_prop v ''metadata'') = record_shape (get_prop w ''metadata'')"

definition shape_issues :: "string \<Rightarrow> bool \<times> bool \<times> (string \<times> bool) list \<Rightarrow> collected_issue list" where
  "shape_issues name = (\<lambda>(u, ob, ks).
     if u then []
     else if \<not> ob then
       [payload_issue name
          (''SyncItemInput.'' @ name @ '' must be an object of string'' @ arrow @ ''string entries.'') JUndef]
     else concat (map (\<lambda>(key, ok).
       if \<not> ok
       then [payload_issue (name @ ''.'' @ key)
               (''SyncItemInput.'' @ name @ ''[\"'' @ key @ ''\"] must be a string.'') JUndef]
       else []) ks))"

lemma record_issues_shape: "record_issues name input = shape_issues name (record_shape (get_prop input name))"
  by (simp add: record_issues_def shape_issues_def record_shape_def Let_def comp_def)

lemma url_issues_class:
  "map toPublicIssue (url_issues input) =
     (case url_class (get_prop input ''url'') of
        0 \<Rightarrow> [\<lparr>vi_field = ''url'', vi_reason = ''SyncItemInput.url must be a non-empty string.'', vi_value = None, vi_itemIndex = None\<rparr>]
      | Suc 0 \<Rightarrow> [\<lparr>vi_field = ''url'', vi_reason = ''SyncItemInput.url must be an absolute http(s) URL.'', vi_value = None, vi_itemIndex = None\<rparr>]
      | _ \<Rightarrow> [])"
  by (cases "get_prop input ''url''") (simp_all add: url_issues_def toPublicIssue_def numeral_2_eq_2)

text \<open>C25: the public issues reveal nothing of the URL, the body and the header and metadata
  values: two inputs that agree on method, content type and priority, on the class of their URL,
  on whether the body is absent or a string, and on the record keys with the validity of each
  entry, have the same issues, whatever those secret values are.\<close>

theorem collectSyncItemIssues_confidential:
  assumes "same_shape v w"
  shows "collectSyncItemIssues v = collectSyncItemIssues w"
proof -
  have "map toPublicIssue (url_issues v) = map toPublicIssue (url_issues w)"
    using assms unfolding url_issues_class same_shape_def by simp
  moreover have "method_issues v = method_issues w" "body_issues v = body_issues w"
      "contentType_issues v = contentType_issues w" "priority_issues v = priority_issues w"
    using assms
    by (simp_all add: same_shape_def method_issues_def body_issues_def contentType_issues_def priority_issues_def Let_def)
  moreover have "headers_issues v = headers_issues w" "metadata_issues v = metadata_issues w"
    using assms by (simp_all add: same_shape_def headers_issues_def metadata_issues_def record_issues_shape)
  ultimately show ?thesis
    using assms by (simp add: same_shape_def collectSyncItemIssues_def collectIssuesWithCode_def)
qed

lemma collectSyncItemIssues_confidential_witness:
  "collectSyncItemIssues
     (JObj [(''method'', JStr ''GET''), (''url'', JStr ''http:/a?token=1''), (''body'', JNum (num 1))]) =
   collectSyncItemIssues
     (JObj [(''method'', JStr ''GET''), (''url'', JStr ''file://b?token=2''), (''body'', JBool True)])"
  by (rule collectSyncItemIssues_confidential) code_simp

section \<open>Typed inputs\<close>

definition opt_str :: "string \<Rightarrow> string option \<Rightarrow> (string \<times> jsval) list" where
  "opt_str k v = (case v of None \<Rightarrow> [] | Some s \<Rightarrow> [(k, JStr s)])"

definition record_js :: "string_record \<Rightarrow> jsval" where
  "record_js r = JObj (map (\<lambda>(k, v). (k, JStr v)) r)"

definition opt_record :: "string \<Rightarrow> string_record option \<Rightarrow> (string \<times> jsval) list" where
  "opt_record k v = (case v of None \<Rightarrow> [] | Some r \<Rightarrow> [(k, record_js r)])"

text \<open>The object a caller writes for a \<open>SyncItemInput\<close>.\<close>

definition input_js :: "sync_item_input \<Rightarrow> jsval" where
  "input_js i = JObj
     ([(''method'', JStr (method_wire (in_method i))), (''url'', JStr (in_url i))] @
      opt_record ''headers'' (in_headers i) @ opt_str ''body'' (in_body i) @
      opt_str ''contentType'' (in_contentType i) @
      opt_str ''priority'' (map_option priority_wire (in_priority i)) @
      opt_record ''metadata'' (in_metadata i))"

lemma record_js_string_record: "string_record (record_js r)"
proof -
  have "is_string (get_prop (record_js r) k)" if "k \<in> set (object_keys (record_js r))" for k
  proof -
    have "k \<in> fst ` set r" using that by (force simp: record_js_def object_keys_def)
    then obtain v where "map_of r k = Some v" by (cases "map_of r k") (auto simp: map_of_eq_None_iff)
    then show ?thesis by (simp add: record_js_def get_prop_def map_of_map)
  qed
  then show ?thesis by (simp add: string_record_def record_js_def)
qed

lemma input_js_props:
  "get_prop (input_js i) ''method'' = JStr (method_wire (in_method i))"
  "get_prop (input_js i) ''url'' = JStr (in_url i)"
  "get_prop (input_js i) ''body'' = (case in_body i of None \<Rightarrow> JUndef | Some s \<Rightarrow> JStr s)"
  "get_prop (input_js i) ''contentType'' = (case in_contentType i of None \<Rightarrow> JUndef | Some s \<Rightarrow> JStr s)"
  "get_prop (input_js i) ''priority'' = (case in_priority i of None \<Rightarrow> JUndef | Some p \<Rightarrow> JStr (priority_wire p))"
  "get_prop (input_js i) ''headers'' = (case in_headers i of None \<Rightarrow> JUndef | Some r \<Rightarrow> record_js r)"
  "get_prop (input_js i) ''metadata'' = (case in_metadata i of None \<Rightarrow> JUndef | Some r \<Rightarrow> record_js r)"
  by (simp_all add: input_js_def get_prop_def opt_str_def opt_record_def split: option.split)

lemma is_object_input_js: "is_object (input_js i)"
  by (simp add: input_js_def)

lemma conforms_input_js: "conforms (input_js i) \<longleftrightarrow> is_http_url (in_url i)"
  unfolding conforms_def input_js_props is_http_url_iff
  by (simp add: is_object_input_js record_js_string_record split: option.split) blast

text \<open>an input that has its TypeScript type can only fail on its URL: the object of a
  \<open>SyncItemInput\<close> validates exactly when its \<open>url\<close> matches the http(s) pattern.\<close>

theorem typed_input_valid_iff:
  "validateSyncItem (input_js i) = Inr () \<longleftrightarrow> is_http_url (in_url i)"
  by (simp add: validateSyncItem_ok conforms_input_js)

section \<open>Every field is reported once\<close>

lemma concat_issue_fields:
  "map ci_field (concat (map (\<lambda>key. if \<not> P key then [payload_issue (f key) (g key) JUndef] else []) ks)) =
     map f (filter (\<lambda>k. \<not> P k) ks)"
  by (induction ks) auto

lemma record_fields:
  "map ci_field (record_issues name input) =
     (let h = get_prop input name
      in if h = JUndef then [] else if \<not> is_object h then [name]
         else map (\<lambda>k. name @ ''.'' @ k) (filter (\<lambda>k. \<not> is_string (get_prop h k)) (object_keys h)))"
  by (simp add: record_issues_def Let_def concat_issue_fields)

lemma wf_props: "wf_jsval v \<Longrightarrow> (k, x) \<in> set (props v) \<Longrightarrow> wf_jsval x"
proof (cases v)
  case (JArr vs)
  moreover assume "(k, x) \<in> set (props v)"
  ultimately have "Some x \<in> set vs"
    by (clarsimp simp: in_set_enumerate_eq split: option.splits) (metis nth_mem)
  moreover assume "wf_jsval v"
  ultimately show ?thesis using JArr by fastforce
qed force+

lemma wf_get_prop: "wf_jsval v \<Longrightarrow> wf_jsval (get_prop v k)"
  using wf_props [of v k] by (auto simp: get_prop_def dest!: map_of_SomeD split: option.split)

lemma record_fields_distinct: "wf_jsval input \<Longrightarrow> distinct (map ci_field (record_issues name input))"
  using distinct_object_keys [OF wf_get_prop [of input name]]
  by (auto simp: record_fields Let_def distinct_map inj_on_def)

lemma record_fields_prefix: "f \<in> set (map ci_field (record_issues name input)) \<Longrightarrow> \<exists>s. f = name @ s"
  unfolding record_fields by (auto simp: Let_def split: if_splits)

lemma distinct_optional:
  fixes a b c d e :: 'a
  assumes "distinct [a, b, c, d, e]"
    and "A \<in> {[], [a]}" "B \<in> {[], [b]}" "C \<in> {[], [c]}" "D \<in> {[], [d]}" "E \<in> {[], [e]}"
  shows "distinct (A @ B @ C @ D @ E)" and "set (A @ B @ C @ D @ E) \<subseteq> {a, b, c, d, e}"
proof -
  have "X = [] \<or> X = [x]" if "X \<in> {[], [x]}" for X :: "'a list" and x using that by simp
  note c = this [OF assms(2)] this [OF assms(3)] this [OF assms(4)] this [OF assms(5)] this [OF assms(6)]
  show "distinct (A @ B @ C @ D @ E)"
    using c by (elim disjE) (use assms(1) in simp_all)
  show "set (A @ B @ C @ D @ E) \<subseteq> {a, b, c, d, e}"
    using c by (elim disjE) simp_all
qed

lemma distinct_sections:
  assumes "distinct xs" "distinct hs" "distinct ms" "set xs \<subseteq> A"
    and "\<And>f. f \<in> set hs \<Longrightarrow> \<exists>s. f = h @ s" "\<And>f. f \<in> set ms \<Longrightarrow> \<exists>s. f = m @ s"
    and "\<And>s t. h @ s \<noteq> m @ t" "\<And>a s. a \<in> A \<Longrightarrow> a \<noteq> h @ s \<and> a \<noteq> m @ s"
  shows "distinct (xs @ hs @ ms)"
proof -
  have "f \<notin> set hs \<and> f \<notin> set ms" if "f \<in> set xs" for f
    using subsetD [OF assms(4) that] assms(5,6) assms(8) [of f] by metis
  moreover have "f \<notin> set ms" if "f \<in> set hs" for f
    using assms(5) [OF that] assms(6) [of f] assms(7) by metis
  ultimately show ?thesis using assms(1-3) by (simp add: disjoint_iff)
qed

lemma section_fields:
  "map ci_field (method_issues input) \<in> {[], [''method'']}"
  "map ci_field (url_issues input) \<in> {[], [''url'']}"
  "map ci_field (body_issues input) \<in> {[], [''body'']}"
  "map ci_field (contentType_issues input) \<in> {[], [''contentType'']}"
  "map ci_field (priority_issues input) \<in> {[], [''priority'']}"
  by (simp_all add: method_issues_def url_issues_def body_issues_def contentType_issues_def priority_issues_def Let_def
      split: jsval.split)

lemma all_fields:
  "map vi_field (collectSyncItemIssues input) =
     (if \<not> is_object input then [''input'']
      else (map ci_field (method_issues input) @ map ci_field (url_issues input) @ map ci_field (body_issues input) @
            map ci_field (contentType_issues input) @ map ci_field (priority_issues input)) @
           map ci_field (record_issues ''headers'' input) @ map ci_field (record_issues ''metadata'' input))"
  by (simp add: collectSyncItemIssues_def toPublicIssue_def comp_def collectIssuesWithCode_def headers_issues_def metadata_issues_def)

text \<open>no field is reported twice: the issues of a well-formed value name pairwise
  different fields, the keys of \<open>headers\<close> and \<open>metadata\<close> included.\<close>

theorem issue_fields_distinct:
  assumes "wf_jsval input"
  shows "distinct (map vi_field (collectSyncItemIssues input))"
proof -
  have names: "distinct [''method'', ''url'', ''body'', ''contentType'', ''priority'']" by simp
  have pre: "h @ s \<noteq> m @ t" if "h = ''headers''" "m = ''metadata''" for h m s t :: string using that by simp
  have out: "a \<noteq> ''headers'' @ s \<and> a \<noteq> ''metadata'' @ s"
    if "a \<in> {''method'', ''url'', ''body'', ''contentType'', ''priority''}" for a s :: string
    using that by auto
  have "distinct ((map ci_field (method_issues input) @ map ci_field (url_issues input) @ map ci_field (body_issues input) @
            map ci_field (contentType_issues input) @ map ci_field (priority_issues input)) @
           map ci_field (record_issues ''headers'' input) @ map ci_field (record_issues ''metadata'' input))"
    by (rule distinct_sections [OF distinct_optional(1) [OF names section_fields]
        record_fields_distinct [OF assms] record_fields_distinct [OF assms]
        distinct_optional(2) [OF names section_fields] record_fields_prefix record_fields_prefix
        pre [OF refl refl] out])
  then show ?thesis unfolding all_fields by simp
qed



lemma issue_fields_distinct_witness:
  "distinct (map vi_field (collectSyncItemIssues
     (JObj [(''headers'', JObj [(''a'', JNull), (''b'', JNull)]), (''metadata'', JObj [(''a'', JNull)])])))"
  by (rule issue_fields_distinct) code_simp

end
