(* ===== verification/Id_Generator.thy ===== *)
theory Id_Generator
  imports Sync_Prelude "HOL-Library.Word"
begin

unbundle bit_operations_syntax

text \<open>
  The identifier generator (\<open>src/utils/idGenerator.ts\<close>). The \<open>k\<close>-th call of
  \<open>Math.random()\<close> is the argument \<open>rnd k\<close>; the bitwise operators work on 32-bit words.
\<close>

section \<open>Bitwise operands and hexadecimal numerals\<close>

text \<open>\<open>ToInt32\<close>: truncation towards zero, modulo \<open>2^32\<close>; 0 when not finite.\<close>

fun to_int32 :: "jsnum \<Rightarrow> 32 word" where
  "to_int32 (Fin x) = word_of_int (if 0 \<le> x then \<lfloor>x\<rfloor> else \<lceil>x\<rceil>)"
| "to_int32 _ = 0"

definition hex_digit :: "nat \<Rightarrow> char" where
  "hex_digit d = ''0123456789abcdef'' ! d"

fun to_hex :: "nat \<Rightarrow> string" where
  "to_hex n = (if n < 16 then [hex_digit n] else to_hex (n div 16) @ [hex_digit (n mod 16)])"

declare to_hex.simps [simp del]

text \<open>\<open>v.toString(16)\<close> of a signed 32-bit integer.\<close>

definition word_to_string16 :: "32 word \<Rightarrow> string" where
  "word_to_string16 v =
     (if sint v < 0 then CHR ''-'' # to_hex (nat (- sint v)) else to_hex (nat (sint v)))"

section \<open>The generator\<close>

definition random_nibble :: "jsnum \<Rightarrow> 32 word" where
  "random_nibble random = to_int32 (num_mul random (num 16)) OR 0"

definition replace_char :: "char \<Rightarrow> jsnum \<Rightarrow> string" where
  "replace_char c random =
     (let r = random_nibble random;
          v = (if c = CHR ''x'' then r else (r AND 3) OR 8)
      in word_to_string16 v)"

text \<open>\<open>replace(/[xy]/g, \<dots>)\<close>: the callback runs at each match, left to right.\<close>

fun replace_xy :: "(nat \<Rightarrow> jsnum) \<Rightarrow> nat \<Rightarrow> string \<Rightarrow> string" where
  "replace_xy rnd k [] = []"
| "replace_xy rnd k (c # cs) =
     (if c = CHR ''x'' \<or> c = CHR ''y'' then replace_char c (rnd k) @ replace_xy rnd (Suc k) cs
      else c # replace_xy rnd k cs)"

definition generateId :: "(nat \<Rightarrow> jsnum) \<Rightarrow> string" where
  "generateId rnd = replace_xy rnd 0 ''xxxxxxxx-xxxx-4xxx-yxxx-xxxxxxxxxxxx''"

section \<open>What a draw gives\<close>

text \<open>\<open>Math.random()\<close>: a double in \<open>[0, 1)\<close>.\<close>

definition random_value :: "jsnum \<Rightarrow> bool" where
  "random_value v \<longleftrightarrow> is_double v \<and> num_le (Fin 0) v \<and> num_lt v (Fin 1)"

definition nibble :: "jsnum \<Rightarrow> nat" where
  "nibble v = unat (random_nibble v)"

lemma double_times_16:
  assumes "is_double (Fin r)" and "0 \<le> r" and "r < 1"
  shows "num_mul (Fin r) (num 16) = Fin (r * 16)"
proof -
  have d: "dround r = Fin r" using assms(1) by (simp add: is_double_def)
  then have "round_grid r = r" by (auto simp: dround_def Let_def split: if_splits)
  then obtain m e where me: "r = of_int m * 2 powi e" "\<bar>m\<bar> \<le> 2 ^ 53" "- 1074 \<le> e"
    using round_grid_form [of r] by auto
  have "dround (r * 16) = Fin (r * 16)"
  proof (rule dround_exact [where m = m and e = "e + 4"])
    show "r * 16 = of_int m * 2 powi (e + 4)" using me(1) by (simp add: powi2_add)
    have "(16 :: rat) < 2 ^ 1024" using big_2_1024 by simp
    then show "\<bar>r * 16\<bar> < 2 ^ 1024" using assms(2,3) by simp
  qed (use me in simp_all)
  then show ?thesis by simp
qed

lemma random_nibble_floor:
  assumes "random_value v"
  obtains n where "random_nibble v = word_of_nat n" and "n < 16" and "nibble v = n"
proof -
  from assms obtain r where r: "v = Fin r" "0 \<le> r" "r < 1" "is_double (Fin r)"
    by (cases v) (auto simp: random_value_def)
  have n: "0 \<le> \<lfloor>r * 16\<rfloor>" "\<lfloor>r * 16\<rfloor> < 16" using r(2,3) by (simp_all add: floor_less_iff)
  then have w: "random_nibble v = word_of_nat (nat \<lfloor>r * 16\<rfloor>)"
    using r double_times_16 [of r] by (simp add: random_nibble_def)
  moreover have *: "unat (word_of_nat m :: 32 word) = m" if "m < 16" for m
    using that by (simp add: unat_of_nat)
  have "nat \<lfloor>r * 16\<rfloor> < 16" using n by linarith
  then have "unat (word_of_nat (nat \<lfloor>r * 16\<rfloor>) :: 32 word) = nat \<lfloor>r * 16\<rfloor>"
    by (rule *)
  ultimately show ?thesis using \<open>nat \<lfloor>r * 16\<rfloor> < 16\<close> by (intro that [of "nat \<lfloor>r * 16\<rfloor>"]) (simp_all only: nibble_def)
qed

lemma less_16: "n < 16 \<Longrightarrow> n \<in> {0, 1, 2, 3, 4, 5, 6, 7, 8, 9, 10, 11, 12, 13, 14, 15 :: nat}"
proof -
  assume "n < 16"
  moreover have "{..<16 :: nat} = {0, 1, 2, 3, 4, 5, 6, 7, 8, 9, 10, 11, 12, 13, 14, 15}" by code_simp
  ultimately show ?thesis by blast
qed

lemma replace_x: "random_value v \<Longrightarrow> replace_char (CHR ''x'') v = [hex_digit (nibble v)] \<and> nibble v < 16"
proof (elim random_nibble_floor)
  fix n assume n: "random_nibble v = word_of_nat n" "n < 16" "nibble v = n"
  have "sint (word_of_nat n :: 32 word) = int n"
    using n(2) by (simp add: signed_of_nat signed_take_bit_int_eq_self)
  then show ?thesis using n by (simp add: replace_char_def word_to_string16_def to_hex.simps)
qed

lemma variant_word: "n < 16 \<Longrightarrow> sint (((word_of_nat n :: 32 word) AND 3) OR 8) = int (8 + n mod 4)"
  by (drule less_16) (elim insertE emptyE; simp)

lemma replace_y: "random_value v \<Longrightarrow> replace_char (CHR ''y'') v = [hex_digit (8 + nibble v mod 4)]"
proof (elim random_nibble_floor)
  fix n assume n: "random_nibble v = word_of_nat n" "n < 16" "nibble v = n"
  have "8 + n mod 4 < 16" using mod_less_divisor [of 4 n] by linarith
  then show ?thesis using n variant_word [OF n(2)]
    by (simp add: replace_char_def word_to_string16_def to_hex.simps nat_add_distrib)
qed

section \<open>Properties\<close>

text \<open>The shape of the result: the positions of the pattern and the nibble each one shows.\<close>

definition uuid_of :: "(nat \<Rightarrow> nat) \<Rightarrow> string" where
  "uuid_of d =
     (let h = \<lambda>i. hex_digit (d i) in
      map h [0..<8] @ ''-'' @ map h [8..<12] @ ''-4'' @ map h [12..<15] @ ''-'' @
      [hex_digit (8 + d 15 mod 4)] @ map h [16..<19] @ ''-'' @ map h [19..<31])"

lemma replace_xy_x:
  assumes "\<And>k. random_value (rnd k)"
  shows "replace_xy rnd k (replicate n (CHR ''x'') @ cs) =
    map (\<lambda>i. hex_digit (nibble (rnd i))) [k..<k + n] @ replace_xy rnd (k + n) cs"
  using replace_x [OF assms] by (induction n arbitrary: k) (simp_all add: upt_conv_Cons del: upt_Suc)

lemma generateId_uuid:
  assumes "\<And>k. random_value (rnd k)"
  shows "generateId rnd = uuid_of (\<lambda>k. nibble (rnd k))"
proof -
  let ?x = "\<lambda>n cs. replicate n (CHR ''x'') @ cs"
  have pat: "''xxxxxxxx-xxxx-4xxx-yxxx-xxxxxxxxxxxx'' =
      ?x 8 (CHR ''-'' # ?x 4 (CHR ''-'' # CHR ''4'' # ?x 3 (CHR ''-'' # CHR ''y'' # ?x 3 (CHR ''-'' # ?x 12 []))))"
    by code_simp
  show ?thesis
    unfolding generateId_def pat
    by (simp add: replace_xy_x [OF assms] replace_y [OF assms] uuid_of_def Let_def del: upt_rec_numeral append_Nil2)
qed

lemma hex_digit_inj: "m < 16 \<Longrightarrow> n < 16 \<Longrightarrow> hex_digit m = hex_digit n \<Longrightarrow> m = n"
proof -
  have "distinct ''0123456789abcdef''" by simp
  then show "m < 16 \<Longrightarrow> n < 16 \<Longrightarrow> hex_digit m = hex_digit n \<Longrightarrow> m = n"
    by (simp add: hex_digit_def nth_eq_iff_index_eq)
qed

lemma hex_digit_in: "n < 16 \<Longrightarrow> hex_digit n \<in> set ''0123456789abcdef''"
  unfolding hex_digit_def by (rule nth_mem) simp

lemma uuid_of_eq:
  assumes "\<And>k. d k < 16" and "\<And>k. d' k < 16"
  shows "uuid_of d = uuid_of d' \<longleftrightarrow> (\<forall>k < 31. if k = 15 then d k mod 4 = d' k mod 4 else d k = d' k)"
proof -
  have h: "hex_digit (d i) = hex_digit (d' i) \<longleftrightarrow> d i = d' i" for i
    using hex_digit_inj [OF assms(1) assms(2), of i i] by auto
  have m: "8 + x mod 4 < 16" for x :: nat using mod_less_divisor [of 4 x] by linarith
  have y: "hex_digit (8 + d 15 mod 4) = hex_digit (8 + d' 15 mod 4) \<longleftrightarrow> d 15 mod 4 = d' 15 mod 4"
    using hex_digit_inj [OF m m, of "d 15" "d' 15"] by auto
  have "uuid_of d = uuid_of d' \<longleftrightarrow>
      (\<forall>k \<in> {0..<8} \<union> {8..<12} \<union> {12..<15} \<union> {16..<19} \<union> {19..<31}. d k = d' k) \<and> d 15 mod 4 = d' 15 mod 4"
    by (simp only: uuid_of_def Let_def append_eq_append_conv length_map append_Cons append_Nil list.inject
        y h map_eq_conv set_upt ball_Un conj_assoc simp_thms) blast
  also have "\<dots> \<longleftrightarrow> (\<forall>k < 31. if k = 15 then d k mod 4 = d' k mod 4 else d k = d' k)"
    (is "?l \<longleftrightarrow> ?r")
  proof
    assume ?l
    then show ?r by (auto simp: atLeastLessThan_iff)
  next
    assume r: ?r
    then have "d 15 mod 4 = d' 15 mod 4" by (drule_tac x = 15 in spec) simp
    moreover have "d k = d' k" if "k \<noteq> 15" "k < 31" for k using r [rule_format, of k] that by simp
    ultimately show ?l by auto
  qed
  finally show ?thesis .
qed

text \<open>The characters a position of the documented pattern allows.\<close>

fun uuid_char :: "char \<Rightarrow> char \<Rightarrow> bool" where
  "uuid_char p c =
     (if p = CHR ''x'' then c \<in> set ''0123456789abcdef'' else if p = CHR ''y'' then c \<in> set ''89ab'' else c = p)"

lemma replace_xy_pattern:
  assumes "\<And>k. random_value (rnd k)"
  shows "list_all2 uuid_char p (replace_xy rnd k p)"
proof (induction p arbitrary: k)
  case (Cons c cs)
  have "hex_digit (8 + n mod 4) \<in> set ''89ab''" for n
  proof -
    have "n mod 4 \<in> {0, 1, 2, 3}" using mod_less_divisor [of 4 n] by auto
    then show ?thesis by (elim insertE emptyE) (simp_all add: hex_digit_def)
  qed
  then show ?case
    using Cons.IH replace_x [OF assms, of k] replace_y [OF assms, of k] hex_digit_in [of "nibble (rnd k)"]
    by (cases "c = CHR ''x''"; cases "c = CHR ''y''") simp_all
qed simp

text \<open>C34: an identifier has the documented version 4 pattern, character by character, for every
  sequence of doubles in \<open>[0, 1)\<close>: 36 characters, the dashes and the version digit 4 in place,
  the variant digit one of 8, 9, a and b, and one lower-case hexadecimal digit at each other place.\<close>

theorem generateId_uuid_v4:
  assumes "\<forall>k. random_value (rnd k)"
  shows "list_all2 uuid_char ''xxxxxxxx-xxxx-4xxx-yxxx-xxxxxxxxxxxx'' (generateId rnd)"
  unfolding generateId_def using assms by (intro replace_xy_pattern) blast

lemma random_value_half: "random_value (Fin (1 / 2))"
proof -
  have "dround (1 / 2) = Fin (1 / 2)" using big_2_1024 by (intro dround_exact [of _ 1 "- 1"]) simp_all
  then have "is_double (Fin (1 / 2))" using is_double_dround [of "1 / 2"] by (simp only:)
  then show ?thesis by (simp add: random_value_def)
qed

lemma random_value_0: "random_value (Fin 0)"
  by (simp add: random_value_def is_double_def)

lemma generateId_uuid_v4_witness:
  "list_all2 uuid_char ''xxxxxxxx-xxxx-4xxx-yxxx-xxxxxxxxxxxx'' (generateId (\<lambda>_. Fin (1 / 2)))"
  by (rule generateId_uuid_v4) (simp add: random_value_half)

text \<open>the identifier determines every draw's nibble: two identifiers are equal exactly when
  the thirty hexadecimal nibbles agree and the variant nibble agrees modulo 4, so no entropy of the
  draws but the two overwritten bits is lost.\<close>

theorem generateId_eq_iff:
  assumes "\<forall>k. random_value (rnd k)" and "\<forall>k. random_value (rnd' k)"
  shows "generateId rnd = generateId rnd' \<longleftrightarrow>
    (\<forall>k < 31. if k = 15 then nibble (rnd k) mod 4 = nibble (rnd' k) mod 4 else nibble (rnd k) = nibble (rnd' k))"
  using generateId_uuid [of rnd] generateId_uuid [of rnd'] assms replace_x
  by (simp add: uuid_of_eq)

lemma generateId_eq_iff_witness:
  "generateId (\<lambda>_. Fin (1 / 2)) \<noteq> generateId (\<lambda>k. if k = 3 then Fin 0 else Fin (1 / 2))"
proof -
  have h: "nibble (Fin (1 / 2)) = 8" "nibble (Fin 0) = 0"
    using dround_int [of 8] by (simp_all add: nibble_def random_nibble_def)
  show ?thesis
    using generateId_eq_iff [of "\<lambda>_. Fin (1 / 2)" "\<lambda>k. if k = 3 then Fin 0 else Fin (1 / 2)"] h
    by (auto simp: random_value_half random_value_0)
qed

end
