(* ===== verification/Native_Probe.thy ===== *)
theory Native_Probe
  imports Sync_Types
begin

text \<open>
  The memoised probe for the native object (\<open>src/utils/isNativeModuleAvailable.ts\<close>) and its
  throwing variant (\<open>src/utils/assertNativeModuleAvailable.ts\<close>). The module variables are a
  record; \<open>NitroModules.createHybridObject\<close> is the third party's, so each operation takes the
  outcome it would have if it were called now, and the record counts the calls made.
\<close>

section \<open>State\<close>

text \<open>What constructing the hybrid object can do; \<open>'h\<close> is the type of the native object.\<close>

datatype 'h created = Throws | Null | Undefined | Created 'h

record 'h probe =
  cachedHybrid :: "'h created"
  resolved :: bool
  available :: bool
  constructed :: nat

definition initial_probe :: "'h probe" where
  "initial_probe = \<lparr>cachedHybrid = Null, resolved = False, available = False, constructed = 0\<rparr>"

section \<open>Operations\<close>

definition getNativeSyncProvider :: "'h created \<Rightarrow> 'h probe \<Rightarrow> 'h created \<times> 'h probe" where
  "getNativeSyncProvider outcome s =
     (if resolved s then (cachedHybrid s, s)
      else
        let s = s\<lparr>resolved := True, constructed := constructed s + 1\<rparr>;
            s = (case outcome of
                   Throws \<Rightarrow> s\<lparr>cachedHybrid := Null, available := False\<rparr>
                 | _ \<Rightarrow> s\<lparr>cachedHybrid := outcome, available := outcome \<noteq> Null \<and> outcome \<noteq> Undefined\<rparr>)
        in (cachedHybrid s, s))"

definition isNativeModuleAvailable :: "'h created \<Rightarrow> 'h probe \<Rightarrow> bool \<times> 'h probe" where
  "isNativeModuleAvailable outcome s =
     (let s = (if \<not> resolved s then snd (getNativeSyncProvider outcome s) else s)
      in (available s, s))"

definition unavailable_message :: string where
  "unavailable_message =
     ''react-native-sync-provider native module is not available. '' @
     ''Make sure the package is installed, autolinked, and the app was '' @
     ''rebuilt after install. On web/SSR this is expected.''"

definition unavailable_error :: thrown where
  "unavailable_error = new_SyncError NATIVE_MODULE_UNAVAILABLE unavailable_message None None"

definition assertNativeModuleAvailable :: "'h created \<Rightarrow> ('h probe, thrown, unit) act" where
  "assertNativeModuleAvailable outcome s =
     (let (a, s) = isNativeModuleAvailable outcome s
      in if \<not> a then throwA unavailable_error s else returnA () s)"

section \<open>Steps and invariant\<close>

text \<open>Any caller may run any of the operations, with any outcome of the construction.\<close>

datatype 'h probe_call = CallGet "'h created" | CallIs "'h created" | CallAssert "'h created"

fun probe_run :: "'h probe_call \<Rightarrow> 'h probe \<Rightarrow> 'h probe" where
  "probe_run (CallGet c) s = snd (getNativeSyncProvider c s)"
| "probe_run (CallIs c) s = snd (isNativeModuleAvailable c s)"
| "probe_run (CallAssert c) s = snd (assertNativeModuleAvailable c s)"

inductive probe_step :: "'h probe \<Rightarrow> 'h probe_call \<Rightarrow> 'h probe \<Rightarrow> bool" where
  probe_stepI: "t = probe_run c s \<Longrightarrow> probe_step s c t"

inductive_cases probe_stepE: "probe_step s c t"

definition probe_inv :: "'h probe \<Rightarrow> bool" where
  "probe_inv s \<longleftrightarrow>
     cachedHybrid s \<noteq> Throws \<and>
     (available s \<longleftrightarrow> (\<exists>h. cachedHybrid s = Created h)) \<and>
     constructed s = (if resolved s then 1 else 0) \<and> (\<not> resolved s \<longrightarrow> s = initial_probe)"

lemma snd_isNativeModuleAvailable:
  "snd (isNativeModuleAvailable c s) = snd (getNativeSyncProvider c s)"
  by (simp add: isNativeModuleAvailable_def getNativeSyncProvider_def Let_def)

lemma snd_assertNativeModuleAvailable:
  "snd (assertNativeModuleAvailable c s) = snd (getNativeSyncProvider c s)"
  by (simp add: assertNativeModuleAvailable_def throwA_def returnA_def case_prod_unfold Let_def
      snd_isNativeModuleAvailable)

lemma probe_run_get: "\<exists>outcome. probe_run c s = snd (getNativeSyncProvider outcome s)"
  by (cases c) (auto simp: snd_isNativeModuleAvailable snd_assertNativeModuleAvailable)

lemma getNativeSyncProvider_inv: "probe_inv s \<Longrightarrow> probe_inv (snd (getNativeSyncProvider c s))"
  by (cases c) (auto simp: getNativeSyncProvider_def probe_inv_def initial_probe_def Let_def)

interpretation probe: invariant_system "\<lambda>s. s = initial_probe" probe_step probe_inv
proof unfold_locales
  fix s t :: "'h probe" and c
  assume "probe_inv s" and "probe_step s c t"
  then show "probe_inv t"
    using probe_run_get [of c s] getNativeSyncProvider_inv by (auto elim!: probe_stepE)
qed (simp add: probe_inv_def initial_probe_def)

lemma resolved_get: "resolved s \<Longrightarrow> getNativeSyncProvider c s = (cachedHybrid s, s)"
  by (simp add: getNativeSyncProvider_def)

lemma get_resolved: "resolved (snd (getNativeSyncProvider c s))"
  by (cases c) (simp_all add: getNativeSyncProvider_def Let_def)

section \<open>Properties\<close>

text \<open>C33: whatever calls the program makes, the native object is constructed at most once, and the
  module is available exactly when an object is cached; nothing is constructed before the first
  call, so importing the library has no effect.\<close>

theorem probe_constructs_once:
  assumes "reachable (\<lambda>s. s = initial_probe) probe_step s"
  shows "constructed s \<le> 1 \<and> (available s \<longleftrightarrow> (\<exists>h. cachedHybrid s = Created h)) \<and>
    (\<not> resolved s \<longrightarrow> constructed s = 0)"
  using probe.reachable_inv [OF assms] by (auto simp: probe_inv_def)

lemma probe_constructs_once_witness:
  "constructed (probe_run (CallIs Null) (probe_run (CallGet (Created (7 :: nat))) initial_probe)) \<le> 1"
  by (rule probe_constructs_once [THEN conjunct1]) (blast intro: reachable.intros probe_stepI)

text \<open>the first outcome is final. After any first call, later calls return the same object, the
  same availability and the same assertion result, whatever the construction would do by then, and
  change nothing.\<close>

theorem probe_first_outcome_is_final:
  assumes "t = probe_run c s"
  shows "getNativeSyncProvider o1 t = (cachedHybrid t, t) \<and> isNativeModuleAvailable o2 t = (available t, t) \<and>
    assertNativeModuleAvailable o3 t = (if available t then returnA () t else throwA unavailable_error t)"
proof -
  have "resolved t" using probe_run_get [of c s] get_resolved assms by auto
  then show ?thesis
    by (simp add: getNativeSyncProvider_def isNativeModuleAvailable_def assertNativeModuleAvailable_def)
qed

lemma probe_first_outcome_is_final_witness:
  "assertNativeModuleAvailable (Created 3) (probe_run (CallIs Throws) (initial_probe :: nat probe)) =
     throwA unavailable_error (probe_run (CallIs Throws) initial_probe)"
  using probe_first_outcome_is_final [of "probe_run (CallIs Throws) (initial_probe :: nat probe)" "CallIs Throws" initial_probe Null Null "Created 3"]
  by (simp add: isNativeModuleAvailable_def getNativeSyncProvider_def initial_probe_def)

end
