(* ===== verification/Serialization.thy ===== *)
theory Serialization
  imports Validation
begin

text \<open>
  The JSON round trip of an item (\<open>src/utils/serializeSyncItem.ts\<close>,
  \<open>src/utils/deserializeSyncItem.ts\<close>). A JSON text is modelled by its syntax tree, or is
  malformed; \<open>JSON.stringify\<close> and \<open>JSON.parse\<close> are the maps between trees and values.
  A big integer makes \<open>stringify\<close> throw; values with a \<open>toJSON\<close> method, cyclic values and
  the reordering of integer-like keys are outside the value model.
\<close>

section \<open>JSON\<close>

datatype json =
    JsonNull
  | JsonBool bool
  | JsonNum rat
  | JsonStr string
  | JsonArr "json list"
  | JsonObj "(string \<times> json) list"

definition bigint_error :: thrown where
  "bigint_error = ErrorObject (JStr ''Do not know how to serialize a BigInt'')"

text \<open>\<open>JSON.stringify\<close>: \<open>None\<close> is its \<open>undefined\<close> result.\<close>

fun json_of :: "jsval \<Rightarrow> thrown + json option"
  and json_members :: "(string \<times> jsval) list \<Rightarrow> thrown + (string \<times> json) list"
  and json_elems :: "jsval option list \<Rightarrow> thrown + json list" where
  "json_of JUndef = Inr None"
| "json_of JNull = Inr (Some JsonNull)"
| "json_of (JBool b) = Inr (Some (JsonBool b))"
| "json_of (JNum n) = Inr (Some (case n of Fin x \<Rightarrow> JsonNum x | _ \<Rightarrow> JsonNull))"
| "json_of (JBigInt _) = Inl bigint_error"
| "json_of (JStr s) = Inr (Some (JsonStr s))"
| "json_of (JSymbol _) = Inr None"
| "json_of (JFun _) = Inr None"
| "json_of (JObj ps) = map_sum id (\<lambda>ms. Some (JsonObj ms)) (json_members ps)"
| "json_of (JArr vs) = map_sum id (\<lambda>js. Some (JsonArr js)) (json_elems vs)"
| "json_members [] = Inr []"
| "json_members ((k, v) # ps) =
     (case json_of v of
        Inl e \<Rightarrow> Inl e
      | Inr None \<Rightarrow> json_members ps
      | Inr (Some j) \<Rightarrow> map_sum id (\<lambda>ms. (k, j) # ms) (json_members ps))"
| "json_elems [] = Inr []"
| "json_elems (None # vs) = map_sum id (\<lambda>js. JsonNull # js) (json_elems vs)"
| "json_elems (Some v # vs) =
     (case json_of v of
        Inl e \<Rightarrow> Inl e
      | Inr r \<Rightarrow> map_sum id (\<lambda>js. (case r of None \<Rightarrow> JsonNull | Some j \<Rightarrow> j) # js) (json_elems vs))"

text \<open>Defining a property: in place when it exists, at the end otherwise.\<close>

fun set_prop :: "(string \<times> 'v) list \<Rightarrow> string \<Rightarrow> 'v \<Rightarrow> (string \<times> 'v) list" where
  "set_prop [] k v = [(k, v)]"
| "set_prop ((l, w) # ps) k v = (if l = k then (l, v) # ps else (l, w) # set_prop ps k v)"

text \<open>\<open>JSON.parse\<close>: numerals round to doubles and the last duplicate of a key wins.\<close>

fun js_of :: "json \<Rightarrow> jsval"
  and js_members :: "(string \<times> jsval) list \<Rightarrow> (string \<times> json) list \<Rightarrow> (string \<times> jsval) list"
  and js_elems :: "json list \<Rightarrow> jsval option list" where
  "js_of JsonNull = JNull"
| "js_of (JsonBool b) = JBool b"
| "js_of (JsonNum x) = JNum (dround x)"
| "js_of (JsonStr s) = JStr s"
| "js_of (JsonArr js) = JArr (js_elems js)"
| "js_of (JsonObj ms) = JObj (js_members [] ms)"
| "js_members ps [] = ps"
| "js_members ps ((k, j) # ms) = js_members (set_prop ps k (js_of j)) ms"
| "js_elems [] = []"
| "js_elems (j # js) = Some (js_of j) # js_elems js"

text \<open>A text is a tree, or malformed with the error that \<open>JSON.parse\<close> throws.\<close>

datatype json_text = Text json | Malformed thrown

section \<open>serializeSyncItem and deserializeSyncItem\<close>

definition serializeSyncItem :: "jsval \<Rightarrow> thrown + json option" where
  "serializeSyncItem item =
     (case json_of item of
        Inr r \<Rightarrow> Inr r
      | Inl err \<Rightarrow> Inl (new_SyncError INVALID_PAYLOAD ''Failed to serialize SyncItem to JSON.'' (Some err) None))"

definition payload_error :: "string \<Rightarrow> thrown" where
  "payload_error message = new_SyncError INVALID_PAYLOAD message None None"

fun is_number :: "jsval \<Rightarrow> bool" where
  "is_number (JNum _) = True"
| "is_number _ = False"

definition or_zero :: "jsval \<Rightarrow> jsval" where
  "or_zero v = (if v = JUndef \<or> v = JNull then JNum (num 0) else v)"

definition check_bookkeeping :: "jsval \<Rightarrow> thrown + unit" where
  "check_bookkeeping candidate =
     (if (case get_prop candidate ''id'' of JStr s \<Rightarrow> length s = 0 | _ \<Rightarrow> True)
      then Inl (payload_error ''Deserialized SyncItem is missing a non-empty `id`.'')
      else if \<not> is_number (get_prop candidate ''createdAt'')
      then Inl (payload_error ''Deserialized SyncItem is missing a numeric `createdAt`.'')
      else if get_prop candidate ''attempts'' \<noteq> JUndef \<and> \<not> is_number (get_prop candidate ''attempts'')
      then Inl (payload_error ''Deserialized SyncItem `attempts` must be a number when present.'')
      else if get_prop candidate ''nextRetryAt'' \<noteq> JUndef \<and> \<not> is_number (get_prop candidate ''nextRetryAt'')
      then Inl (payload_error ''Deserialized SyncItem `nextRetryAt` must be a number when present.'')
      else Inr ())"

definition fill_bookkeeping :: "jsval \<Rightarrow> jsval" where
  "fill_bookkeeping candidate =
     JObj (set_prop
       (set_prop (props candidate) ''attempts'' (or_zero (get_prop candidate ''attempts'')))
       ''nextRetryAt'' (or_zero (get_prop candidate ''nextRetryAt'')))"

definition deserializeSyncItem :: "json_text \<Rightarrow> thrown + jsval" where
  "deserializeSyncItem json =
     (case json of
        Malformed err \<Rightarrow> Inl (new_SyncError INVALID_PAYLOAD ''Failed to parse SyncItem JSON.'' (Some err) None)
      | Text j \<Rightarrow>
          (let parsed = js_of j
           in if \<not> is_object parsed then Inl (payload_error ''Parsed SyncItem must be a non-null object.'')
              else case check_bookkeeping parsed of
                Inl e \<Rightarrow> Inl e
              | Inr _ \<Rightarrow>
                  (case validateSyncItem parsed of
                     Inl e \<Rightarrow> Inl e
                   | Inr _ \<Rightarrow> Inr (fill_bookkeeping parsed))))"

section \<open>Plain values survive JSON\<close>

text \<open>The values JSON represents exactly.\<close>

fun plain :: "jsval \<Rightarrow> bool" where
  "plain JNull = True"
| "plain (JBool _) = True"
| "plain (JNum n) = (\<exists>x. n = Fin x \<and> dround x = Fin x)"
| "plain (JStr _) = True"
| "plain (JObj ps) = (distinct (map fst ps) \<and> (\<forall>v \<in> snd ` set ps. plain v))"
| "plain (JArr vs) = (\<forall>x \<in> set vs. x \<noteq> None \<and> (\<forall>v \<in> set_option x. plain v))"
| "plain _ = False"

lemma set_prop_new: "k \<notin> fst ` set ps \<Longrightarrow> set_prop ps k v = ps @ [(k, v)]"
  by (induction ps k v rule: set_prop.induct) auto

lemma map_of_set_prop: "map_of (set_prop ps k v) l = (if l = k then Some v else map_of ps l)"
  by (induction ps k v rule: set_prop.induct) auto

lemma set_prop_id: "map_of ps k = Some v \<Longrightarrow> set_prop ps k v = ps"
  by (induction ps k v rule: set_prop.induct) (auto split: if_splits)

lemma json_roundtrip:
  "plain v \<Longrightarrow> \<exists>j. json_of v = Inr (Some j) \<and> js_of j = v"
  "(\<forall>v \<in> snd ` set ps. plain v) \<Longrightarrow> distinct (map fst ps) \<Longrightarrow>
     \<exists>ms. json_members ps = Inr ms \<and>
       (\<forall>qs. fst ` set qs \<inter> fst ` set ps = {} \<longrightarrow> js_members qs ms = qs @ ps)"
  "(\<forall>x \<in> set vs. x \<noteq> None \<and> (\<forall>v \<in> set_option x. plain v)) \<Longrightarrow>
     \<exists>js. json_elems vs = Inr js \<and> js_elems js = vs"
proof (induction v and ps and vs rule: json_of_json_members_json_elems.induct)
  case (12 k v ps)
  then obtain j ms where j: "json_of v = Inr (Some j)" "js_of j = v"
    and ms: "json_members ps = Inr ms"
      "\<And>qs. fst ` set qs \<inter> fst ` set ps = {} \<Longrightarrow> js_members qs ms = qs @ ps"
    by auto
  have "js_members qs ((k, j) # ms) = qs @ (k, v) # ps"
    if "fst ` set qs \<inter> fst ` set ((k, v) # ps) = {}" for qs
    using that "12.prems"(2) ms(2) [of "qs @ [(k, v)]"] j(2) by (auto simp: set_prop_new)
  then show ?case using j ms(1) by simp
qed (auto split: jsnum.splits)

section \<open>Items\<close>

text \<open>The object of a \<open>SyncItem\<close>, optional fields absent when \<open>None\<close>.\<close>

definition item_js :: "sync_item \<Rightarrow> jsval" where
  "item_js i = JObj
     ([(''id'', JStr (item_id i)), (''method'', JStr (method_wire (item_method i))), (''url'', JStr (item_url i))] @
      opt_record ''headers'' (item_headers i) @ opt_str ''body'' (item_body i) @
      opt_str ''contentType'' (item_contentType i) @
      opt_str ''priority'' (map_option priority_wire (item_priority i)) @
      [(''createdAt'', JNum (item_createdAt i)), (''attempts'', JNum (item_attempts i)),
       (''nextRetryAt'', JNum (item_nextRetryAt i))] @
      opt_record ''metadata'' (item_metadata i))"

definition finite_double :: "jsnum \<Rightarrow> bool" where
  "finite_double n \<longleftrightarrow> num_is_finite n \<and> is_double n"

definition wf_record :: "string_record option \<Rightarrow> bool" where
  "wf_record r = (case r of None \<Rightarrow> True | Some ps \<Rightarrow> distinct (map fst ps))"

definition wf_item :: "sync_item \<Rightarrow> bool" where
  "wf_item i \<longleftrightarrow>
     item_id i \<noteq> [] \<and> is_http_url (item_url i) \<and>
     finite_double (item_createdAt i) \<and> finite_double (item_attempts i) \<and> finite_double (item_nextRetryAt i) \<and>
     wf_record (item_headers i) \<and> wf_record (item_metadata i)"

lemma plain_num: "finite_double n \<Longrightarrow> plain (JNum n)"
  by (cases n) (simp_all add: finite_double_def is_double_def)

lemma plain_record: "wf_record (Some ps) \<Longrightarrow> plain (record_js ps)"
  by (auto simp: record_js_def wf_record_def comp_def case_prod_unfold)

lemma opt_keys: "map fst (opt_str k v) = (if v = None then [] else [k])" "map fst (opt_record k r) = (if r = None then [] else [k])"
  by (simp_all add: opt_str_def opt_record_def split: option.split)

lemma opt_plain:
  "\<forall>v \<in> snd ` set (opt_str k s). plain v" "wf_record r \<Longrightarrow> \<forall>v \<in> snd ` set (opt_record k r). plain v"
  using plain_record by (auto simp: opt_str_def opt_record_def split: option.splits)

lemma item_keys_distinct: "distinct (map fst (props (item_js i)))"
  by (simp add: item_js_def opt_keys)

lemma plain_item: "wf_item i \<Longrightarrow> plain (item_js i)"
proof -
  assume w: "wf_item i"
  then have nums: "plain (JNum (item_createdAt i))" "plain (JNum (item_attempts i))" "plain (JNum (item_nextRetryAt i))"
    using plain_num by (auto simp: wf_item_def)
  have recs: "wf_record (item_headers i)" "wf_record (item_metadata i)" using w by (simp_all add: wf_item_def)
  have "\<forall>v \<in> snd ` set (props (item_js i)). plain v"
    unfolding item_js_def props.simps set_append image_Un ball_Un
    using nums opt_plain(1) opt_plain(2) [OF recs(1)] opt_plain(2) [OF recs(2)]
    by (simp del: plain.simps(3))
  moreover have "item_js i = JObj (props (item_js i))" by (simp add: item_js_def)
  ultimately show ?thesis using item_keys_distinct plain.simps(5) by metis
qed

lemma item_js_props:
  "get_prop (item_js i) ''id'' = JStr (item_id i)"
  "get_prop (item_js i) ''createdAt'' = JNum (item_createdAt i)"
  "get_prop (item_js i) ''attempts'' = JNum (item_attempts i)"
  "get_prop (item_js i) ''nextRetryAt'' = JNum (item_nextRetryAt i)"
  "get_prop (item_js i) ''method'' = JStr (method_wire (item_method i))"
  "get_prop (item_js i) ''url'' = JStr (item_url i)"
  "get_prop (item_js i) ''body'' = (case item_body i of None \<Rightarrow> JUndef | Some s \<Rightarrow> JStr s)"
  "get_prop (item_js i) ''contentType'' = (case item_contentType i of None \<Rightarrow> JUndef | Some s \<Rightarrow> JStr s)"
  "get_prop (item_js i) ''priority'' = (case item_priority i of None \<Rightarrow> JUndef | Some p \<Rightarrow> JStr (priority_wire p))"
  "get_prop (item_js i) ''headers'' = (case item_headers i of None \<Rightarrow> JUndef | Some r \<Rightarrow> record_js r)"
  "get_prop (item_js i) ''metadata'' = (case item_metadata i of None \<Rightarrow> JUndef | Some r \<Rightarrow> record_js r)"
  by (simp_all add: item_js_def get_prop_def opt_str_def opt_record_def split: option.split)

lemma is_object_item_js: "is_object (item_js i)"
  by (simp add: item_js_def)

lemma conforms_item_js: "is_http_url (item_url i) \<Longrightarrow> conforms (item_js i)"
  unfolding conforms_def item_js_props is_http_url_iff
  by (simp add: is_object_item_js record_js_string_record split: option.split) blast

lemma item_map_of:
  "map_of (props (item_js i)) ''attempts'' = Some (JNum (item_attempts i))"
  "map_of (props (item_js i)) ''nextRetryAt'' = Some (JNum (item_nextRetryAt i))"
  by (simp_all add: item_js_def opt_str_def opt_record_def split: option.split)

lemma fill_item_js: "fill_bookkeeping (item_js i) = item_js i"
  unfolding fill_bookkeeping_def item_js_props or_zero_def
  by (simp add: set_prop_id [OF item_map_of(1)] set_prop_id [OF item_map_of(2)]) (simp add: item_js_def)

lemma get_prop_fill:
  "get_prop (fill_bookkeeping v) k =
     (if k = ''nextRetryAt'' then or_zero (get_prop v ''nextRetryAt'')
      else if k = ''attempts'' then or_zero (get_prop v ''attempts'') else get_prop v k)"
  unfolding fill_bookkeeping_def get_prop_def props.simps map_of_set_prop by simp

lemma check_bookkeeping_ok:
  "check_bookkeeping v = Inr () \<Longrightarrow>
     (\<exists>s. get_prop v ''id'' = JStr s \<and> s \<noteq> []) \<and> is_number (get_prop v ''createdAt'') \<and>
     (get_prop v ''attempts'' = JUndef \<or> is_number (get_prop v ''attempts'')) \<and>
     (get_prop v ''nextRetryAt'' = JUndef \<or> is_number (get_prop v ''nextRetryAt''))"
  unfolding check_bookkeeping_def by (auto split: if_splits jsval.splits)

lemma check_bookkeeping_code: "check_bookkeeping v = Inl e \<Longrightarrow> error_code e = Some INVALID_PAYLOAD"
  unfolding check_bookkeeping_def payload_error_def by (simp split: if_splits) auto

text \<open>A small item and a text with a bad URL.\<close>

definition example_item :: sync_item where
  "example_item =
     \<lparr>item_id = ''01H'', item_method = POST, item_url = ''https://a.b/c'', item_headers = Some [(''k'', ''v'')],
      item_body = Some ''{}'', item_contentType = None, item_priority = Some HIGH, item_createdAt = Fin 0,
      item_attempts = Fin 0, item_nextRetryAt = Fin 0, item_metadata = None\<rparr>"

definition example_bad_json :: json where
  "example_bad_json = JsonObj
     [(''id'', JsonStr ''01H''), (''method'', JsonStr ''POST''), (''url'', JsonStr ''ftp://a.b/c''), (''createdAt'', JsonNum 0)]"

lemma item_roundtrip:
  assumes "wf_item i"
  shows "\<exists>j. serializeSyncItem (item_js i) = Inr (Some j) \<and> deserializeSyncItem (Text j) = Inr (item_js i)"
proof -
  obtain j where j: "json_of (item_js i) = Inr (Some j)" "js_of j = item_js i"
    using json_roundtrip(1) [OF plain_item [OF assms]] by blast
  have "check_bookkeeping (item_js i) = Inr ()"
    using assms unfolding check_bookkeeping_def item_js_props by (simp add: wf_item_def)
  moreover have "validateSyncItem (item_js i) = Inr ()"
    using assms conforms_item_js by (simp add: wf_item_def validateSyncItem_ok)
  ultimately show ?thesis using j
    by (simp add: serializeSyncItem_def deserializeSyncItem_def is_object_item_js fill_item_js)
qed

lemma wf_example_item: "wf_item example_item"
proof -
  have "is_http_url (item_url example_item)" by (simp add: example_item_def) code_simp
  then show ?thesis by (simp add: wf_item_def finite_double_def example_item_def wf_record_def is_double_def)
qed

text \<open>C31: serialising an item and reading it back gives the same item, for every item with a
  non-empty id, an http(s) URL, finite numbers and records without duplicate keys.\<close>

theorem item_json_roundtrip:
  assumes "wf_item i"
  shows "\<exists>j. serializeSyncItem (item_js i) = Inr (Some j) \<and> deserializeSyncItem (Text j) = Inr (item_js i)"
  using assms by (rule item_roundtrip)

lemma item_json_roundtrip_witness:
  "\<exists>j. serializeSyncItem (item_js example_item) = Inr (Some j) \<and> deserializeSyncItem (Text j) = Inr (item_js example_item)"
  by (rule item_json_roundtrip) (rule wf_example_item)

text \<open>C32: deserialisation is sound: what it returns always has a non-empty string id, a numeric
  creation time, conforms to the input contract, and its \<open>attempts\<close> and \<open>nextRetryAt\<close> are numbers,
  0 where the text had none; every other property is the text's.\<close>

theorem deserialize_sound:
  assumes "deserializeSyncItem (Text j) = Inr v"
  shows "(\<exists>s. get_prop v ''id'' = JStr s \<and> s \<noteq> []) \<and> is_number (get_prop v ''createdAt'') \<and>
    conforms (js_of j) \<and> is_number (get_prop v ''attempts'') \<and> is_number (get_prop v ''nextRetryAt'') \<and>
    (get_prop (js_of j) ''attempts'' = JUndef \<longrightarrow> get_prop v ''attempts'' = JNum (num 0)) \<and>
    (\<forall>k. k \<notin> {''attempts'', ''nextRetryAt''} \<longrightarrow> get_prop v k = get_prop (js_of j) k)"
proof -
  have c: "check_bookkeeping (js_of j) = Inr ()" "conforms (js_of j)" and v: "v = fill_bookkeeping (js_of j)"
    using assms by (auto simp: deserializeSyncItem_def Let_def validateSyncItem_ok split: if_splits sum.splits)
  note g = v [THEN arg_cong, of get_prop, THEN fun_cong, unfolded get_prop_fill]
  show ?thesis
    using check_bookkeeping_ok [OF c(1)] c(2) unfolding g
    by (simp add: or_zero_def) auto
qed

lemma deserialize_sound_witness:
  "\<exists>j. deserializeSyncItem (Text j) = Inr (item_js example_item) \<and> conforms (js_of j)"
proof -
  obtain j where j: "deserializeSyncItem (Text j) = Inr (item_js example_item)"
    using item_roundtrip [OF wf_example_item] by blast
  with deserialize_sound [OF j] show ?thesis by blast
qed

text \<open>every failure of deserialisation is a \<open>SyncError\<close>, and its code is
  \<open>INVALID_PAYLOAD\<close> except that an otherwise well-formed text whose method is allowed and whose
  URL breaks the contract gives \<open>INVALID_URL\<close>.\<close>

theorem deserialize_error_code:
  assumes "deserializeSyncItem t = Inl e"
  shows "error_code e =
    Some (if (\<exists>j. t = Text j \<and> is_object (js_of j) \<and> check_bookkeeping (js_of j) = Inr () \<and>
              (\<exists>m. get_prop (js_of j) ''method'' = JStr (method_wire m)) \<and>
              \<not> (\<exists>u. get_prop (js_of j) ''url'' = JStr u \<and> absolute_http_url u))
          then INVALID_URL else INVALID_PAYLOAD)"
proof (cases t)
  case (Text j)
  consider "\<not> is_object (js_of j)" | "is_object (js_of j)" "check_bookkeeping (js_of j) = Inl e"
    | "is_object (js_of j)" "check_bookkeeping (js_of j) = Inr ()" "validateSyncItem (js_of j) = Inl e"
    using assms Text by (auto simp: deserializeSyncItem_def Let_def split: if_splits sum.splits)
  then show ?thesis
  proof cases
    case 3
    then show ?thesis using Text validateSyncItem_code [of "js_of j" e] by simp
  qed (use assms Text check_bookkeeping_code in \<open>auto simp: deserializeSyncItem_def payload_error_def\<close>)
qed (use assms in \<open>auto simp: deserializeSyncItem_def\<close>)

lemma deserialize_error_code_witness:
  "\<exists>e. deserializeSyncItem (Text example_bad_json) = Inl e \<and> error_code e = Some INVALID_URL"
proof -
  have bad: "\<not> is_http_url ''ftp://a.b/c''" by code_simp
  have c: "is_object (js_of example_bad_json)" "check_bookkeeping (js_of example_bad_json) = Inr ()"
      "get_prop (js_of example_bad_json) ''method'' = JStr (method_wire POST)"
      "get_prop (js_of example_bad_json) ''url'' = JStr ''ftp://a.b/c''"
    by (simp_all add: example_bad_json_def check_bookkeeping_def get_prop_def)
  then have "\<not> conforms (js_of example_bad_json)" using bad by (auto simp: conforms_def is_http_url_iff)
  then obtain e where e: "deserializeSyncItem (Text example_bad_json) = Inl e"
    using c(1,2) validateSyncItem_ok [of "js_of example_bad_json"]
    by (cases "validateSyncItem (js_of example_bad_json)") (auto simp: deserializeSyncItem_def)
  have "\<exists>m. get_prop (js_of example_bad_json) ''method'' = JStr (method_wire m)" using c(3) by (rule exI)
  with c(1,2,4) bad deserialize_error_code [OF e] e show ?thesis by (auto simp: is_http_url_iff)
qed

end
