(* ===== verification/Facade.thy ===== *)
theory Facade
  imports Validation Native_Probe
begin

text \<open>
  The public functions of \<open>src/index.tsx\<close> over the native interface of
  \<open>src/SyncProvider.nitro.ts\<close>. The native side is not part of the library: its object is a
  record of operations over a world of type \<open>'w\<close>, and everything below holds for every such
  record. A function awaits one native promise and runs nothing between its checks and that call,
  so it is one action on the probe and the world.
\<close>

section \<open>The native interface\<close>

text \<open>One record per section of the interface, each extending the one before.\<close>

record 'w native_queue =
  native_enqueue :: "jsval \<Rightarrow> ('w, thrown, string) act"
  native_enqueueBatch :: "jsval \<Rightarrow> ('w, thrown, string list) act"
  native_removeItem :: "string \<Rightarrow> ('w, thrown, bool) act"
  native_clearQueue :: "('w, thrown, unit) act"
  native_getQueueSize :: "('w, thrown, jsnum) act"
  native_getPendingItems :: "('w, thrown, sync_item list) act"

record 'w native_sync = "'w native_queue" +
  native_flush :: "('w, thrown, sync_result) act"
  native_pauseSync :: "('w, thrown, unit) act"
  native_resumeSync :: "('w, thrown, unit) act"
  native_isSyncing :: "('w, thrown, bool) act"

record 'w native_config = "'w native_sync" +
  native_configureSync :: "sync_options \<Rightarrow> ('w, thrown, unit) act"
  native_getSyncConfig :: "('w, thrown, sync_options) act"

record 'w native_history = "'w native_config" +
  native_getLastSyncResult :: "('w, thrown, sync_result) act"
  native_getSyncHistory :: "jsnum \<Rightarrow> ('w, thrown, sync_result list) act"
  native_clearSyncHistory :: "('w, thrown, unit) act"

record 'w native_connection = "'w native_history" +
  native_getConnectionStatus :: "('w, thrown, connection_state) act"

record 'w native_background = "'w native_connection" +
  native_enableBackgroundSync :: "background_sync_options \<Rightarrow> ('w, thrown, unit) act"
  native_disableBackgroundSync :: "('w, thrown, unit) act"
  native_isBackgroundSyncEnabled :: "('w, thrown, bool) act"

text \<open>A callback is known by a number.\<close>

record 'w native = "'w native_background" +
  native_addListener :: "string \<Rightarrow> nat \<Rightarrow> ('w, thrown, string) act"
  native_removeListener :: "string \<Rightarrow> string \<Rightarrow> ('w, thrown, unit) act"

section \<open>The state of a process\<close>

record 'w app =
  probe :: "'w native probe"
  world :: 'w

definition on_probe :: "('w native probe, 'e, 'a) act \<Rightarrow> ('w app, 'e, 'a) act" where
  "on_probe m s = (let (r, p) = m (probe s) in (r, s\<lparr>probe := p\<rparr>))"

definition on_world :: "('w, 'e, 'a) act \<Rightarrow> ('w app, 'e, 'a) act" where
  "on_world m s = (let (r, w) = m (world s) in (r, s\<lparr>world := w\<rparr>))"

section \<open>Internal helpers\<close>

definition isLastSyncSentinel :: "sync_result \<Rightarrow> bool" where
  "isLastSyncSentinel result \<longleftrightarrow> startedAt result = num 0 \<and> finishedAt result = num 0"

definition nativeOrThrow :: "'w native created \<Rightarrow> ('w app, thrown, 'w native created) act" where
  "nativeOrThrow outcome =
     bindA (on_probe (assertNativeModuleAvailable outcome))
       (\<lambda>_. on_probe (\<lambda>p. let (h, p) = getNativeSyncProvider outcome p in (Inr h, p)))"

definition null_error :: thrown where
  "null_error = ErrorObject (JStr ''Cannot read properties of null'')"

text \<open>\<open>await native!.f(\<dots>)\<close>: reading a method of a missing object throws.\<close>

definition await_native :: "'w native created \<Rightarrow> ('w native \<Rightarrow> ('w, thrown, 'a) act) \<Rightarrow> ('w app, thrown, 'a) act" where
  "await_native h f = (case h of Created n \<Rightarrow> on_world (f n) | _ \<Rightarrow> throwA null_error)"

text \<open>
  The body every function has: get the native object, then \<open>try\<close> the call and what follows
  it, and rethrow a failure through \<open>wrapNativeError\<close>.
\<close>

definition native_call ::
  "'w native created \<Rightarrow> sync_error_code \<Rightarrow> ('w native \<Rightarrow> ('w, thrown, 'b) act) \<Rightarrow> ('b \<Rightarrow> 'a) \<Rightarrow>
     ('w app, thrown, 'a) act" where
  "native_call outcome fallback f post =
     bindA (nativeOrThrow outcome) (\<lambda>h.
       catchA (bindA (await_native h f) (\<lambda>x. returnA (post x)))
         (\<lambda>err. throwA (wrapNativeError err fallback)))"

section \<open>Queue operations\<close>

definition enqueue :: "'w native created \<Rightarrow> jsval \<Rightarrow> ('w app, thrown, string) act" where
  "enqueue outcome item =
     bindA (liftE (validateSyncItem item)) (\<lambda>_. native_call outcome INVALID_PAYLOAD (\<lambda>n. native_enqueue n item) id)"

text \<open>\<open>items.entries()\<close> visits holes as \<open>undefined\<close>; every issue gets its index.\<close>

definition batch_issues :: "jsval option list \<Rightarrow> validation_issue list" where
  "batch_issues vs =
     concat (map (\<lambda>(index, slot).
       map (\<lambda>issue. issue\<lparr>vi_itemIndex := Some index\<rparr>)
         (collectSyncItemIssues (case slot of None \<Rightarrow> JUndef | Some v \<Rightarrow> v))) (enumerate 0 vs))"

definition batch_error :: "validation_issue list \<Rightarrow> thrown" where
  "batch_error allIssues =
     (let itemCount = card (set (map vi_itemIndex allIssues))
      in new_SyncError INVALID_PAYLOAD
           (''enqueueBatch validation failed: '' @ show_nat (length allIssues) @ '' issue(s) across '' @
            show_nat itemCount @ '' item(s).'')
           None (Some allIssues))"

definition check_batch :: "jsval \<Rightarrow> thrown + unit" where
  "check_batch items =
     (case items of
        JArr vs \<Rightarrow> if length (batch_issues vs) > 0 then Inl (batch_error (batch_issues vs)) else Inr ()
      | _ \<Rightarrow> Inl (new_SyncError INVALID_PAYLOAD
                     ''enqueueBatch(items) requires an array of SyncItemInput.'' None None))"

definition enqueueBatch :: "'w native created \<Rightarrow> jsval \<Rightarrow> ('w app, thrown, string list) act" where
  "enqueueBatch outcome items =
     bindA (liftE (check_batch items))
       (\<lambda>_. native_call outcome INVALID_PAYLOAD (\<lambda>n. native_enqueueBatch n items) id)"

definition removeItem :: "'w native created \<Rightarrow> string \<Rightarrow> ('w app, thrown, bool) act" where
  "removeItem outcome i = native_call outcome INVALID_PAYLOAD (\<lambda>n. native_removeItem n i) id"

definition clearQueue :: "'w native created \<Rightarrow> ('w app, thrown, unit) act" where
  "clearQueue outcome = native_call outcome INVALID_PAYLOAD native_clearQueue id"

definition getQueueSize :: "'w native created \<Rightarrow> ('w app, thrown, jsnum) act" where
  "getQueueSize outcome = native_call outcome INVALID_PAYLOAD native_getQueueSize id"

definition getPendingItems :: "'w native created \<Rightarrow> ('w app, thrown, sync_item list) act" where
  "getPendingItems outcome = native_call outcome INVALID_PAYLOAD native_getPendingItems id"

section \<open>Sync operations\<close>

definition flush :: "'w native created \<Rightarrow> ('w app, thrown, sync_result) act" where
  "flush outcome = native_call outcome NETWORK_ERROR native_flush id"

definition pauseSync :: "'w native created \<Rightarrow> ('w app, thrown, unit) act" where
  "pauseSync outcome = native_call outcome INVALID_PAYLOAD native_pauseSync id"

definition resumeSync :: "'w native created \<Rightarrow> ('w app, thrown, unit) act" where
  "resumeSync outcome = native_call outcome INVALID_PAYLOAD native_resumeSync id"

definition isSyncing :: "'w native created \<Rightarrow> ('w app, thrown, bool) act" where
  "isSyncing outcome = native_call outcome INVALID_PAYLOAD native_isSyncing id"

section \<open>Configuration and history\<close>

definition configureSync :: "'w native created \<Rightarrow> sync_options \<Rightarrow> ('w app, thrown, unit) act" where
  "configureSync outcome options = native_call outcome INVALID_PAYLOAD (\<lambda>n. native_configureSync n options) id"

definition getSyncConfig :: "'w native created \<Rightarrow> ('w app, thrown, sync_options) act" where
  "getSyncConfig outcome = native_call outcome INVALID_PAYLOAD native_getSyncConfig id"

definition getLastSyncResult :: "'w native created \<Rightarrow> ('w app, thrown, sync_result option) act" where
  "getLastSyncResult outcome =
     native_call outcome INVALID_PAYLOAD native_getLastSyncResult
       (\<lambda>result. if isLastSyncSentinel result then None else Some result)"

definition getSyncHistory :: "'w native created \<Rightarrow> jsnum option \<Rightarrow> ('w app, thrown, sync_result list) act" where
  "getSyncHistory outcome limit =
     native_call outcome INVALID_PAYLOAD
       (\<lambda>n. native_getSyncHistory n (case limit of None \<Rightarrow> num 0 | Some l \<Rightarrow> l)) id"

definition clearSyncHistory :: "'w native created \<Rightarrow> ('w app, thrown, unit) act" where
  "clearSyncHistory outcome = native_call outcome INVALID_PAYLOAD native_clearSyncHistory id"

section \<open>Connection and background\<close>

definition getConnectionStatus :: "'w native created \<Rightarrow> ('w app, thrown, connection_state) act" where
  "getConnectionStatus outcome = native_call outcome INVALID_PAYLOAD native_getConnectionStatus id"

definition enableBackgroundSync ::
  "'w native created \<Rightarrow> background_sync_options \<Rightarrow> ('w app, thrown, unit) act" where
  "enableBackgroundSync outcome options =
     native_call outcome BACKGROUND_TASK_REGISTRATION_FAILED (\<lambda>n. native_enableBackgroundSync n options) id"

definition disableBackgroundSync :: "'w native created \<Rightarrow> ('w app, thrown, unit) act" where
  "disableBackgroundSync outcome =
     native_call outcome BACKGROUND_TASK_REGISTRATION_FAILED native_disableBackgroundSync id"

definition isBackgroundSyncEnabled :: "'w native created \<Rightarrow> ('w app, thrown, bool) act" where
  "isBackgroundSyncEnabled outcome =
     native_call outcome BACKGROUND_TASK_REGISTRATION_FAILED native_isBackgroundSyncEnabled id"

section \<open>Listeners\<close>

definition SYNC_EVENT_CHANNEL :: string where
  "SYNC_EVENT_CHANNEL = ''sync-event''"

definition addSyncEventListener :: "'w native created \<Rightarrow> nat \<Rightarrow> ('w app, thrown, string) act" where
  "addSyncEventListener outcome callback =
     native_call outcome INVALID_PAYLOAD (\<lambda>n. native_addListener n SYNC_EVENT_CHANNEL callback) id"

definition removeSyncEventListener :: "'w native created \<Rightarrow> string \<Rightarrow> ('w app, thrown, unit) act" where
  "removeSyncEventListener outcome subscriptionId =
     native_call outcome INVALID_PAYLOAD (\<lambda>n. native_removeListener n SYNC_EVENT_CHANNEL subscriptionId) id"

section \<open>All calls as one type\<close>

text \<open>
  The functions above as one datatype of calls and one of replies, so that what they share is
  stated once. \<open>guard_of\<close>, \<open>fallback_of\<close> and \<open>native_step\<close> are the documented contract of
  each: the check before the bridge, the code of an untyped native failure, and the one native
  call with the translation of its reply.
\<close>

datatype facade_call =
    Enqueue jsval
  | EnqueueBatch jsval
  | RemoveItem string
  | ClearQueue
  | GetQueueSize
  | GetPendingItems
  | Flush
  | PauseSync
  | ResumeSync
  | IsSyncing
  | ConfigureSync sync_options
  | GetSyncConfig
  | GetLastSyncResult
  | GetSyncHistory "jsnum option"
  | ClearSyncHistory
  | GetConnectionStatus
  | EnableBackgroundSync background_sync_options
  | DisableBackgroundSync
  | IsBackgroundSyncEnabled
  | AddSyncEventListener nat
  | RemoveSyncEventListener string

datatype facade_reply =
    RString string
  | RStrings "string list"
  | RBool bool
  | RUnit unit
  | RNum jsnum
  | RItems "sync_item list"
  | RResult sync_result
  | RLast "sync_result option"
  | RResults "sync_result list"
  | ROptions sync_options
  | RConnection connection_state

definition replyA :: "('a \<Rightarrow> 'b) \<Rightarrow> ('s, 'e, 'a) act \<Rightarrow> ('s, 'e, 'b) act" where
  "replyA f m s = (let (r, t) = m s in (map_sum id f r, t))"

fun run_facade :: "'w native created \<Rightarrow> facade_call \<Rightarrow> ('w app, thrown, facade_reply) act" where
  "run_facade outcome (Enqueue v) = replyA RString (enqueue outcome v)"
| "run_facade outcome (EnqueueBatch v) = replyA RStrings (enqueueBatch outcome v)"
| "run_facade outcome (RemoveItem i) = replyA RBool (removeItem outcome i)"
| "run_facade outcome ClearQueue = replyA RUnit (clearQueue outcome)"
| "run_facade outcome GetQueueSize = replyA RNum (getQueueSize outcome)"
| "run_facade outcome GetPendingItems = replyA RItems (getPendingItems outcome)"
| "run_facade outcome Flush = replyA RResult (flush outcome)"
| "run_facade outcome PauseSync = replyA RUnit (pauseSync outcome)"
| "run_facade outcome ResumeSync = replyA RUnit (resumeSync outcome)"
| "run_facade outcome IsSyncing = replyA RBool (isSyncing outcome)"
| "run_facade outcome (ConfigureSync cfg) = replyA RUnit (configureSync outcome cfg)"
| "run_facade outcome GetSyncConfig = replyA ROptions (getSyncConfig outcome)"
| "run_facade outcome GetLastSyncResult = replyA RLast (getLastSyncResult outcome)"
| "run_facade outcome (GetSyncHistory l) = replyA RResults (getSyncHistory outcome l)"
| "run_facade outcome ClearSyncHistory = replyA RUnit (clearSyncHistory outcome)"
| "run_facade outcome GetConnectionStatus = replyA RConnection (getConnectionStatus outcome)"
| "run_facade outcome (EnableBackgroundSync b) = replyA RUnit (enableBackgroundSync outcome b)"
| "run_facade outcome DisableBackgroundSync = replyA RUnit (disableBackgroundSync outcome)"
| "run_facade outcome IsBackgroundSyncEnabled = replyA RBool (isBackgroundSyncEnabled outcome)"
| "run_facade outcome (AddSyncEventListener cb) = replyA RString (addSyncEventListener outcome cb)"
| "run_facade outcome (RemoveSyncEventListener i) = replyA RUnit (removeSyncEventListener outcome i)"

fun guard_of :: "facade_call \<Rightarrow> thrown + unit" where
  "guard_of (Enqueue v) = validateSyncItem v"
| "guard_of (EnqueueBatch v) = check_batch v"
| "guard_of _ = Inr ()"

fun fallback_of :: "facade_call \<Rightarrow> sync_error_code" where
  "fallback_of Flush = NETWORK_ERROR"
| "fallback_of (EnableBackgroundSync b) = BACKGROUND_TASK_REGISTRATION_FAILED"
| "fallback_of DisableBackgroundSync = BACKGROUND_TASK_REGISTRATION_FAILED"
| "fallback_of IsBackgroundSyncEnabled = BACKGROUND_TASK_REGISTRATION_FAILED"
| "fallback_of _ = INVALID_PAYLOAD"

fun native_step :: "facade_call \<Rightarrow> 'w native \<Rightarrow> ('w, thrown, facade_reply) act" where
  "native_step (Enqueue v) n = replyA RString (native_enqueue n v)"
| "native_step (EnqueueBatch v) n = replyA RStrings (native_enqueueBatch n v)"
| "native_step (RemoveItem i) n = replyA RBool (native_removeItem n i)"
| "native_step ClearQueue n = replyA RUnit (native_clearQueue n)"
| "native_step GetQueueSize n = replyA RNum (native_getQueueSize n)"
| "native_step GetPendingItems n = replyA RItems (native_getPendingItems n)"
| "native_step Flush n = replyA RResult (native_flush n)"
| "native_step PauseSync n = replyA RUnit (native_pauseSync n)"
| "native_step ResumeSync n = replyA RUnit (native_resumeSync n)"
| "native_step IsSyncing n = replyA RBool (native_isSyncing n)"
| "native_step (ConfigureSync cfg) n = replyA RUnit (native_configureSync n cfg)"
| "native_step GetSyncConfig n = replyA ROptions (native_getSyncConfig n)"
| "native_step GetLastSyncResult n = replyA (\<lambda>r. RLast (if startedAt r = num 0 \<and> finishedAt r = num 0 then None else Some r)) (native_getLastSyncResult n)"
| "native_step (GetSyncHistory l) n = replyA RResults (native_getSyncHistory n (case l of None \<Rightarrow> num 0 | Some k \<Rightarrow> k))"
| "native_step ClearSyncHistory n = replyA RUnit (native_clearSyncHistory n)"
| "native_step GetConnectionStatus n = replyA RConnection (native_getConnectionStatus n)"
| "native_step (EnableBackgroundSync b) n = replyA RUnit (native_enableBackgroundSync n b)"
| "native_step DisableBackgroundSync n = replyA RUnit (native_disableBackgroundSync n)"
| "native_step IsBackgroundSyncEnabled n = replyA RBool (native_isBackgroundSyncEnabled n)"
| "native_step (AddSyncEventListener cb) n = replyA RString (native_addListener n SYNC_EVENT_CHANNEL cb)"
| "native_step (RemoveSyncEventListener i) n = replyA RUnit (native_removeListener n SYNC_EVENT_CHANNEL i)"

section \<open>The contract of a facade call\<close>

definition native_of :: "'w native created \<Rightarrow> 'w app \<Rightarrow> 'w native option" where
  "native_of outcome s =
     (case cachedHybrid (snd (getNativeSyncProvider outcome (probe s))) of Created n \<Rightarrow> Some n | _ \<Rightarrow> None)"

definition resolve :: "'w native created \<Rightarrow> 'w app \<Rightarrow> 'w app" where
  "resolve outcome s = s\<lparr>probe := snd (getNativeSyncProvider outcome (probe s))\<rparr>"

definition wrap_reply :: "sync_error_code \<Rightarrow> thrown + 'a \<Rightarrow> thrown + 'a" where
  "wrap_reply fallback r = map_sum (\<lambda>e. wrapNativeError e fallback) id r"

locale facade_op =
  fixes run :: "'w native created \<Rightarrow> ('w app, thrown, 'a) act"
    and guard :: "thrown + unit" and fallback :: sync_error_code
    and call :: "'w native \<Rightarrow> ('w, thrown, 'a) act"
  assumes guard_SyncError: "guard = Inl e \<Longrightarrow> is_SyncError e"
    and guard_first: "guard = Inl e \<Longrightarrow> run outcome s = (Inl e, s)"
    and run_unavailable:
      "probe_inv (probe s) \<Longrightarrow> guard = Inr () \<Longrightarrow> native_of outcome s = None \<Longrightarrow>
         run outcome s = (Inl unavailable_error, resolve outcome s)"
    and run_available:
      "probe_inv (probe s) \<Longrightarrow> guard = Inr () \<Longrightarrow> native_of outcome s = Some n \<Longrightarrow>
         run outcome s =
           (wrap_reply fallback (fst (call n (world s))), (resolve outcome s)\<lparr>world := snd (call n (world s))\<rparr>)"
begin

lemma run_cases:
  assumes "probe_inv (probe s)"
  shows "run outcome s =
    (case guard of
       Inl e \<Rightarrow> (Inl e, s)
     | Inr _ \<Rightarrow>
         (case native_of outcome s of
            None \<Rightarrow> (Inl unavailable_error, resolve outcome s)
          | Some n \<Rightarrow>
              (wrap_reply fallback (fst (call n (world s))),
               (resolve outcome s)\<lparr>world := snd (call n (world s))\<rparr>)))"
  using assms guard_first run_unavailable run_available by (simp split: sum.split option.split)

lemma run_SyncError: "probe_inv (probe s) \<Longrightarrow> fst (run outcome s) = Inl e \<Longrightarrow> is_SyncError e"
  by (auto simp: run_cases wrap_reply_def unavailable_error_def guard_SyncError map_sum_def
      split: sum.splits option.splits)

lemma run_world:
  "probe_inv (probe s) \<Longrightarrow>
     world (snd (run outcome s)) =
       (if guard = Inr () then (case native_of outcome s of None \<Rightarrow> world s | Some n \<Rightarrow> snd (call n (world s)))
        else world s)"
  by (auto simp: run_cases resolve_def split: sum.splits option.splits)

lemma run_probe_inv: "probe_inv (probe s) \<Longrightarrow> probe_inv (probe (snd (run outcome s)))"
  using getNativeSyncProvider_inv by (auto simp: run_cases resolve_def split: sum.splits option.splits)

end

lemma assert_then_get:
  assumes "probe_inv p"
  shows "assertNativeModuleAvailable outcome p =
    (let q = snd (getNativeSyncProvider outcome p)
     in (if \<exists>n. cachedHybrid q = Created n then Inr () else Inl unavailable_error, q))"
proof -
  let ?q = "snd (getNativeSyncProvider outcome p)"
  have "isNativeModuleAvailable outcome p = (available ?q, ?q)"
    by (simp add: isNativeModuleAvailable_def Let_def getNativeSyncProvider_def)
  moreover have "available ?q \<longleftrightarrow> (\<exists>n. cachedHybrid ?q = Created n)"
    using getNativeSyncProvider_inv [OF assms] by (simp add: probe_inv_def)
  ultimately show ?thesis
    by (simp add: assertNativeModuleAvailable_def Let_def throwA_def returnA_def)
qed

lemma native_call_run:
  assumes "probe_inv (probe s)"
  shows "native_call outcome fallback f post s =
    (case native_of outcome s of
       None \<Rightarrow> (Inl unavailable_error, resolve outcome s)
     | Some n \<Rightarrow>
         (wrap_reply fallback (map_sum id post (fst (f n (world s)))),
          (resolve outcome s)\<lparr>world := snd (f n (world s))\<rparr>))"
proof -
  let ?q = "snd (getNativeSyncProvider outcome (probe s))"
  have again: "getNativeSyncProvider outcome ?q = (cachedHybrid ?q, ?q)"
    by (rule resolved_get) (rule get_resolved)
  show ?thesis
    using assert_then_get [OF assms, of outcome] again
    by (auto simp: native_call_def nativeOrThrow_def on_probe_def bindA_def catchA_def await_native_def on_world_def
        native_of_def resolve_def throwA_def returnA_def Let_def wrap_reply_def
        split: created.splits prod.splits sum.splits)
qed

lemma replyA_pair: "replyA f m s = (map_sum id f (fst (m s)), snd (m s))"
  by (simp add: replyA_def case_prod_unfold Let_def)

lemma validate_SyncError: "validateSyncItem v = Inl e \<Longrightarrow> is_SyncError e"
  by (erule validateSyncItem_error) simp

lemma check_batch_SyncError: "check_batch v = Inl e \<Longrightarrow> is_SyncError e"
  by (auto simp: check_batch_def batch_error_def Let_def split: jsval.splits if_splits)

lemma bind_guard: "bindA (liftE g) (\<lambda>_. m) s = (case g of Inl e \<Rightarrow> (Inl e, s) | Inr _ \<Rightarrow> m s)"
  by (simp add: bindA_def liftE_def split: sum.split)

lemmas facade_defs =
  enqueue_def enqueueBatch_def removeItem_def clearQueue_def getQueueSize_def getPendingItems_def
  flush_def pauseSync_def resumeSync_def isSyncing_def configureSync_def getSyncConfig_def
  getLastSyncResult_def getSyncHistory_def clearSyncHistory_def getConnectionStatus_def
  enableBackgroundSync_def disableBackgroundSync_def isBackgroundSyncEnabled_def
  addSyncEventListener_def removeSyncEventListener_def

lemma run_facade_guard: "guard_of c = Inl e \<Longrightarrow> run_facade outcome c s = (Inl e, s)"
  by (cases c) (simp_all add: facade_defs replyA_pair bind_guard)

lemma map_sum_comp: "map_sum id f (wrap_reply c (map_sum id g r)) = wrap_reply c (map_sum id (f \<circ> g) r)"
  by (cases r) (simp_all add: wrap_reply_def)

lemma run_facade_native:
  assumes "probe_inv (probe s)" and "guard_of c = Inr ()"
  shows "run_facade outcome c s =
    (case native_of outcome s of
       None \<Rightarrow> (Inl unavailable_error, resolve outcome s)
     | Some n \<Rightarrow>
         (wrap_reply (fallback_of c) (fst (native_step c n (world s))),
          (resolve outcome s)\<lparr>world := snd (native_step c n (world s))\<rparr>))"
  using assms
  by (cases c)
    (simp_all add: facade_defs replyA_pair bind_guard native_call_run map_sum_comp isLastSyncSentinel_def comp_def
      split: option.split)

interpretation facade: facade_op "\<lambda>outcome. run_facade outcome c" "guard_of c" "fallback_of c" "native_step c" for c
proof unfold_locales
  show "is_SyncError e" if "guard_of c = Inl e" for e
    using that validate_SyncError check_batch_SyncError by (cases c) auto
qed (simp_all add: run_facade_guard run_facade_native)

section \<open>The process as a step relation\<close>

text \<open>Calls interleave with the native side, which may change its world at any moment.\<close>

datatype 'w app_event = FacadeCall "'w native created" facade_call | NativeChange 'w

inductive app_step :: "'w app \<Rightarrow> 'w app_event \<Rightarrow> 'w app \<Rightarrow> bool" where
  step_call: "app_step s (FacadeCall outcome c) (snd (run_facade outcome c s))"
| step_native: "app_step s (NativeChange w) (s\<lparr>world := w\<rparr>)"

inductive_cases app_stepE: "app_step s e t"

definition app_init :: "'w app \<Rightarrow> bool" where
  "app_init s \<longleftrightarrow> probe s = initial_probe"

interpretation app: invariant_system app_init app_step "\<lambda>s. probe_inv (probe s)"
proof unfold_locales
  show "probe_inv (probe s)" if "app_init s" for s :: "'w app"
    using that by (simp add: app_init_def probe_inv_def initial_probe_def)
  show "probe_inv (probe t)" if "probe_inv (probe s)" and "app_step s e t" for s t :: "'w app" and e
    using that facade.run_probe_inv by (auto elim!: app_stepE)
qed

section \<open>Batches\<close>

definition slot_value :: "jsval option \<Rightarrow> jsval" where
  "slot_value slot = (case slot of None \<Rightarrow> JUndef | Some v \<Rightarrow> v)"

definition tag_issues :: "nat \<Rightarrow> validation_issue list \<Rightarrow> validation_issue list" where
  "tag_issues k = map (\<lambda>issue. issue\<lparr>vi_itemIndex := Some k\<rparr>)"

lemma tag_issues_Nil [simp]: "tag_issues k is' = [] \<longleftrightarrow> is' = []"
  by (simp add: tag_issues_def)

definition issues_from :: "nat \<Rightarrow> jsval option list \<Rightarrow> validation_issue list" where
  "issues_from n vs =
     concat (map (\<lambda>(k, slot). tag_issues k (collectSyncItemIssues (slot_value slot))) (enumerate n vs))"

lemma issues_from_simps [simp]:
  "issues_from n [] = []"
  "issues_from n (x # vs) = tag_issues n (collectSyncItemIssues (slot_value x)) @ issues_from (Suc n) vs"
  by (simp_all add: issues_from_def)

lemma batch_issues_from: "batch_issues vs = issues_from 0 vs"
  by (simp add: batch_issues_def issues_from_def tag_issues_def slot_value_def)

lemma issues_Nil_iff: "collectSyncItemIssues v = [] \<longleftrightarrow> conforms v"
  by (simp add: collectSyncItemIssues_def collectIssuesWithCode_Nil)

lemma issues_from_Nil: "issues_from n vs = [] \<longleftrightarrow> (\<forall>x \<in> set vs. conforms (slot_value x))"
  by (induction vs arbitrary: n) (simp_all add: issues_Nil_iff)

lemma filter_tag: "filter (\<lambda>i. vi_itemIndex i = Some k) (tag_issues n is') = (if n = k then tag_issues n is' else [])"
  by (induction is') (simp_all add: tag_issues_def)

lemma issues_from_index: "i \<in> set (issues_from n vs) \<Longrightarrow> \<exists>k \<ge> n. vi_itemIndex i = Some k"
  by (induction vs arbitrary: n) (auto simp: tag_issues_def dest: Suc_leD)

lemma issues_from_filter:
  "k < length vs \<Longrightarrow>
     filter (\<lambda>i. vi_itemIndex i = Some (n + k)) (issues_from n vs) =
       tag_issues (n + k) (collectSyncItemIssues (slot_value (vs ! k)))"
proof (induction vs arbitrary: n k)
  case (Cons x vs)
  show ?case
  proof (cases k)
    case 0
    have "filter (\<lambda>i. vi_itemIndex i = Some n) (issues_from (Suc n) vs) = []"
      using issues_from_index [of _ "Suc n" vs] by (fastforce simp: filter_empty_conv)
    then show ?thesis using 0 by (simp add: filter_tag)
  next
    case (Suc m)
    then show ?thesis using Cons.IH [of m "Suc n"] Cons.prems by (simp add: filter_tag)
  qed
qed simp

lemma issues_from_indices:
  "set (map vi_itemIndex (issues_from n vs)) = (\<lambda>k. Some (n + k)) ` {k. k < length vs \<and> \<not> conforms (slot_value (vs ! k))}"
proof (induction vs arbitrary: n)
  case (Cons x vs)
  have split: "{k. k < length (x # vs) \<and> \<not> conforms (slot_value ((x # vs) ! k))} =
      (if conforms (slot_value x) then {} else {0}) \<union> Suc ` {k. k < length vs \<and> \<not> conforms (slot_value (vs ! k))}"
  proof (rule set_eqI)
    fix k
    show "k \<in> {k. k < length (x # vs) \<and> \<not> conforms (slot_value ((x # vs) ! k))} \<longleftrightarrow>
      k \<in> (if conforms (slot_value x) then {} else {0}) \<union> Suc ` {k. k < length vs \<and> \<not> conforms (slot_value (vs ! k))}"
      by (cases k) (auto simp: image_iff)
  qed
  have "set (map vi_itemIndex (tag_issues n (collectSyncItemIssues (slot_value x)))) =
      (if conforms (slot_value x) then {} else {Some n})"
    using issues_Nil_iff [of "slot_value x"] by (cases "collectSyncItemIssues (slot_value x)") (auto simp: tag_issues_def)
  then show ?case
    unfolding split issues_from_simps map_append set_append Cons.IH image_Un
    by (simp add: image_image)
qed simp

definition bad_slots :: "jsval option list \<Rightarrow> nat set" where
  "bad_slots vs = {k. k < length vs \<and> \<not> conforms (slot_value (vs ! k))}"

lemma batch_item_count: "card (set (map vi_itemIndex (batch_issues vs))) = card (bad_slots vs)"
proof -
  have "inj_on (\<lambda>k. Some (0 + k)) (bad_slots vs)" by (simp add: inj_on_def)
  then show ?thesis unfolding batch_issues_from issues_from_indices bad_slots_def by (rule card_image)
qed

lemma bad_slots_empty: "batch_issues vs = [] \<longleftrightarrow> bad_slots vs = {}"
  by (auto simp: batch_issues_from issues_from_Nil bad_slots_def all_set_conv_all_nth)

section \<open>An example native module\<close>

text \<open>Its world counts the calls; \<open>flush\<close> rejects and no flush has been recorded.\<close>

definition reply :: "'a \<Rightarrow> (nat, thrown, 'a) act" where
  "reply x w = (Inr x, Suc w)"

definition sentinel :: sync_result where
  "sentinel =
     \<lparr>startedAt = Fin 0, finishedAt = Fin 0, successCount = Fin 0, failureCount = Fin 0,
      succeededIds = [], failedIds = [], res_errors = []\<rparr>"

definition example_options :: sync_options where
  "example_options =
     \<lparr>opt_strategy = MANUAL,
      opt_retryPolicy =
        \<lparr>maxAttempts = Fin 1, backoff = ''LINEAR'', baseDelayMs = Fin 1, maxDelayMs = Fin 1, jitter = False,
         retryOnStatusCodes = []\<rparr>,
      opt_batchSize = None, opt_requestTimeoutMs = None, opt_maxQueueSize = None, opt_persistQueue = None,
      opt_defaultHeaders = None\<rparr>"

definition example_native :: "nat native" where
  "example_native =
     \<lparr>native_enqueue = (\<lambda>_. reply ''id''), native_enqueueBatch = (\<lambda>_. reply []),
      native_removeItem = (\<lambda>_. reply False), native_clearQueue = reply (), native_getQueueSize = reply (Fin 0),
      native_getPendingItems = reply [],
      native_flush = (\<lambda>w. (Inl (OtherValue JNull), Suc w)), native_pauseSync = reply (),
      native_resumeSync = reply (), native_isSyncing = reply False,
      native_configureSync = (\<lambda>_. reply ()), native_getSyncConfig = reply example_options,
      native_getLastSyncResult = reply sentinel, native_getSyncHistory = (\<lambda>_. reply []),
      native_clearSyncHistory = reply (),
      native_getConnectionStatus =
        reply \<lparr>conn_status = CONNECTED, conn_type = WIFI, conn_isInternetReachable = None, conn_isExpensive = None\<rparr>,
      native_enableBackgroundSync = (\<lambda>_. reply ()), native_disableBackgroundSync = reply (),
      native_isBackgroundSyncEnabled = reply False,
      native_addListener = (\<lambda>_ _. reply ''sub''), native_removeListener = (\<lambda>_ _. reply ())\<rparr>"

definition fresh_app :: "nat app" where
  "fresh_app = \<lparr>probe = initial_probe, world = 0\<rparr>"

definition missing_app :: "nat app" where
  "missing_app = snd (run_facade Null Flush fresh_app)"

lemma reachable_fresh: "reachable app_init app_step fresh_app"
  by (rule reach_init) (simp add: app_init_def fresh_app_def)

lemma reachable_missing: "reachable app_init app_step missing_app"
  unfolding missing_app_def by (rule reach_step [OF reachable_fresh step_call])

lemma missing_app_probe: "resolved (probe missing_app)" "\<not> available (probe missing_app)"
proof -
  have "probe_inv (probe fresh_app)" by (rule app.reachable_inv [OF reachable_fresh])
  moreover have "native_of Null fresh_app = None"
    by (simp add: native_of_def fresh_app_def initial_probe_def getNativeSyncProvider_def)
  ultimately have eq: "missing_app = resolve Null fresh_app"
    unfolding missing_app_def by (subst facade.run_cases) simp_all
  have p: "probe missing_app = snd (getNativeSyncProvider Null initial_probe)"
    unfolding eq by (simp add: resolve_def fresh_app_def)
  show "resolved (probe missing_app)" "\<not> available (probe missing_app)"
    unfolding p by (simp_all add: initial_probe_def getNativeSyncProvider_def)
qed

lemma example_native_fields:
  "native_clearQueue example_native = reply ()" "native_flush example_native = (\<lambda>w. (Inl (OtherValue JNull), Suc w))"
  "native_getLastSyncResult example_native = reply sentinel"
  by (simp_all add: example_native_def)

lemma native_of_fresh: "native_of (Created example_native) fresh_app = Some example_native"
  by (simp add: native_of_def fresh_app_def initial_probe_def getNativeSyncProvider_def)

section \<open>Properties\<close>

text \<open>C14: every function of the facade implements its contract, in every state the process can
  reach and for every native module: a failed check returns its error and touches nothing; without
  the native object the answer is \<open>NATIVE_MODULE_UNAVAILABLE\<close> and the world is unchanged;
  otherwise exactly one native call is made, with the caller's arguments, its reply is returned
  (translated for \<open>getLastSyncResult\<close>) and its failure is rethrown under the documented code.\<close>

theorem facade_contract:
  assumes "reachable app_init app_step s"
  shows "run_facade outcome c s =
    (case guard_of c of
       Inl e \<Rightarrow> (Inl e, s)
     | Inr _ \<Rightarrow>
         (case native_of outcome s of
            None \<Rightarrow> (Inl unavailable_error, resolve outcome s)
          | Some n \<Rightarrow>
              (wrap_reply (fallback_of c) (fst (native_step c n (world s))),
               (resolve outcome s)\<lparr>world := snd (native_step c n (world s))\<rparr>)))"
  by (rule facade.run_cases) (rule app.reachable_inv [OF assms])

lemma facade_contract_witness:
  "fst (run_facade (Created example_native) ClearQueue fresh_app) = Inr (RUnit ())"
  unfolding facade_contract [OF reachable_fresh]
  by (simp add: native_of_fresh replyA_pair wrap_reply_def example_native_fields reply_def)

text \<open>whatever a facade call throws is a \<open>SyncError\<close>, even when the native side rejects
  with an arbitrary value, so callers can always switch on \<open>code\<close>.\<close>

theorem facade_errors_are_SyncErrors:
  assumes "reachable app_init app_step s" and "run_facade outcome c s = (Inl e, t)"
  shows "is_SyncError e"
  using facade.run_SyncError [OF app.reachable_inv [OF assms(1)]] assms(2) by (metis fst_conv)

lemma facade_errors_are_SyncErrors_witness:
  "\<exists>e t. run_facade (Created example_native) Flush fresh_app = (Inl e, t) \<and> is_SyncError e"
proof -
  obtain e t where "run_facade (Created example_native) Flush fresh_app = (Inl e, t)"
    unfolding facade.run_cases [OF app.reachable_inv [OF reachable_fresh]]
    by (simp add: native_of_fresh replyA_pair wrap_reply_def example_native_fields)
  with facade_errors_are_SyncErrors [OF reachable_fresh this] show ?thesis by blast
qed

text \<open>an untyped native failure surfaces under the call's fallback code with the native error
  as its cause, and a \<open>SyncError\<close> thrown by the native side passes through unchanged.\<close>

theorem facade_native_failure:
  assumes "reachable app_init app_step s" and "guard_of c = Inr ()" and "native_of outcome s = Some n"
    and "fst (native_step c n (world s)) = Inl err"
  shows "\<exists>e. fst (run_facade outcome c s) = Inl e \<and>
      (if is_SyncError err then e = err
       else error_code e = Some (fallback_of c) \<and> (err \<noteq> OtherValue JUndef \<longrightarrow> error_cause e = Some err))"
  using facade.run_available [OF app.reachable_inv [OF assms(1)] assms(2,3)] assms(4)
  by (simp add: wrap_reply_def wrapNativeError_def new_SyncError_def)

lemma facade_native_failure_witness:
  "\<exists>e. fst (run_facade (Created example_native) Flush fresh_app) = Inl e \<and> error_code e = Some NETWORK_ERROR \<and>
     error_cause e = Some (OtherValue JNull)"
  using facade_native_failure [OF reachable_fresh _ native_of_fresh, where c = Flush and err = "OtherValue JNull"]
  by (simp add: replyA_pair example_native_fields del: run_facade.simps)

text \<open>The checks of \<open>enqueue\<close> and \<open>enqueueBatch\<close> fail with the codes of bad input.\<close>

lemma guard_of_code: "guard_of c = Inl e \<Longrightarrow> error_code e = Some INVALID_URL \<or> error_code e = Some INVALID_PAYLOAD"
  using validateSyncItem_code by (cases c) (auto simp: check_batch_def batch_error_def Let_def split: jsval.splits if_splits)

lemma guard_calls: "guard_of c = Inl e \<Longrightarrow> (\<exists>v. c = Enqueue v \<or> c = EnqueueBatch v)"
  by (cases c) simp_all

lemma unavailable_run:
  assumes "reachable app_init app_step s" and "resolved (probe s)" and "\<not> available (probe s)"
  shows "run_facade outcome c s = (case guard_of c of Inl e \<Rightarrow> (Inl e, s) | Inr _ \<Rightarrow> (Inl unavailable_error, s))"
proof -
  have inv: "probe_inv (probe s)" by (rule app.reachable_inv [OF assms(1)])
  have get: "getNativeSyncProvider outcome (probe s) = (cachedHybrid (probe s), probe s)"
    using assms(2) by (rule resolved_get)
  then have "native_of outcome s = None" "resolve outcome s = s"
    using inv assms(3) by (auto simp: native_of_def resolve_def probe_inv_def split: created.split)
  then show ?thesis by (simp add: facade.run_cases [OF inv] split: sum.split)
qed

text \<open>C16: once the native module is known to be missing, every facade call of any later state fails and
  changes nothing. It fails with \<open>NATIVE_MODULE_UNAVAILABLE\<close>, unless it is an \<open>enqueue\<close> or an
  \<open>enqueueBatch\<close> whose argument does not pass its check: these fail with the error of the check,
  \<open>INVALID_URL\<close> or \<open>INVALID_PAYLOAD\<close>.\<close>

theorem facade_unavailable:
  assumes "reachable app_init app_step s" and "resolved (probe s)" and "\<not> available (probe s)"
  shows "\<exists>e. run_facade outcome c s = (Inl e, s) \<and>
      (case guard_of c of
         Inr _ \<Rightarrow> error_code e = Some NATIVE_MODULE_UNAVAILABLE
       | Inl g \<Rightarrow> e = g \<and> (\<exists>v. c = Enqueue v \<or> c = EnqueueBatch v) \<and>
           (error_code e = Some INVALID_URL \<or> error_code e = Some INVALID_PAYLOAD))"
  using guard_of_code [of c] guard_calls [of c]
  by (auto simp: unavailable_run [OF assms] unavailable_error_def split: sum.split)

lemma facade_unavailable_witness:
  "\<exists>e. run_facade (Created example_native) GetQueueSize missing_app = (Inl e, missing_app) \<and>
     error_code e = Some NATIVE_MODULE_UNAVAILABLE"
  using facade_unavailable [OF reachable_missing missing_app_probe, of "Created example_native" GetQueueSize] by (simp del: run_facade.simps)

text \<open>\<open>enqueue\<close> validates before it looks for the native module: a value that breaks the
  contract never reaches the native side nor the probe, and a conforming one is handed over
  unchanged.\<close>

theorem enqueue_validates_first:
  "(if conforms v
    then enqueue outcome v s = native_call outcome INVALID_PAYLOAD (\<lambda>n. native_enqueue n v) id s
    else \<exists>e. enqueue outcome v s = (Inl e, s) \<and> validation_errors e = Some (collectSyncItemIssues v))"
proof (cases "validateSyncItem v")
  case (Inl e)
  then have "\<not> conforms v" using validateSyncItem_ok by force
  with Inl show ?thesis
    by (auto simp: enqueue_def bind_guard elim: validateSyncItem_error [of v e])
next
  case (Inr u)
  then have "conforms v" using validateSyncItem_ok by simp
  with Inr show ?thesis by (simp add: enqueue_def bind_guard)
qed

text \<open>C17: a batch is rejected as a whole when any slot, holes included, breaks the contract: nothing
  is enqueued, and the error lists the issues of every item under the item's index, in order.\<close>

theorem enqueueBatch_rejects_whole:
  assumes "k < length vs" and "\<not> conforms (slot_value (vs ! k))"
  shows "\<exists>e issues. enqueueBatch outcome (JArr vs) s = (Inl e, s) \<and> error_code e = Some INVALID_PAYLOAD \<and>
      validation_errors e = Some issues \<and>
      (\<forall>i < length vs. filter (\<lambda>x. vi_itemIndex x = Some i) issues =
         map (\<lambda>x. x\<lparr>vi_itemIndex := Some i\<rparr>) (collectSyncItemIssues (slot_value (vs ! i))))"
proof -
  have "bad_slots vs \<noteq> {}" using assms by (auto simp: bad_slots_def)
  then have "batch_issues vs \<noteq> []" by (simp add: bad_slots_empty)
  moreover have "filter (\<lambda>x. vi_itemIndex x = Some i) (batch_issues vs) =
      map (\<lambda>x. x\<lparr>vi_itemIndex := Some i\<rparr>) (collectSyncItemIssues (slot_value (vs ! i)))" if "i < length vs" for i
    using issues_from_filter [OF that, of 0] by (simp add: batch_issues_from tag_issues_def)
  ultimately show ?thesis
    by (simp add: enqueueBatch_def bind_guard check_batch_def batch_error_def Let_def)
qed

lemma enqueueBatch_rejects_whole_witness:
  "\<exists>e. enqueueBatch (Created example_native) (JArr [None]) fresh_app = (Inl e, fresh_app) \<and> error_code e = Some INVALID_PAYLOAD"
  using enqueueBatch_rejects_whole [of 0 "[None]" "Created example_native" fresh_app]
  by (auto simp: conforms_def slot_value_def)

text \<open>the batch error's message counts the issues and the items that break the contract, and a
  batch passes the check exactly when every slot conforms.\<close>

theorem check_batch_counts:
  "check_batch (JArr vs) =
     (if bad_slots vs = {} then Inr ()
      else Inl (new_SyncError INVALID_PAYLOAD
        (''enqueueBatch validation failed: '' @ show_nat (length (batch_issues vs)) @ '' issue(s) across '' @
         show_nat (card (bad_slots vs)) @ '' item(s).'')
        None (Some (batch_issues vs))))"
  using bad_slots_empty [of vs] by (simp add: check_batch_def batch_error_def batch_item_count del: set_map)

text \<open>\<open>getLastSyncResult\<close> returns \<open>undefined\<close> exactly for the native sentinel, whose two
  times are both 0, and any other result as it is.\<close>

theorem getLastSyncResult_sentinel:
  assumes "reachable app_init app_step s" and "native_of outcome s = Some n"
    and "native_getLastSyncResult n (world s) = (Inr result, w)"
  shows "fst (getLastSyncResult outcome s) =
    Inr (if startedAt result = num 0 \<and> finishedAt result = num 0 then None else Some result)"
  using assms(2,3)
  by (simp add: getLastSyncResult_def wrap_reply_def isLastSyncSentinel_def native_call_run [OF app.reachable_inv [OF assms(1)]])

lemma getLastSyncResult_sentinel_witness:
  "fst (getLastSyncResult (Created example_native) fresh_app) = Inr None"
  using getLastSyncResult_sentinel [OF reachable_fresh native_of_fresh, of sentinel]
  by (simp add: example_native_fields reply_def) (simp add: sentinel_def)

end
