(* ===== verification/Drain_Controller.thy ===== *)
theory Drain_Controller
  imports Sync_Types
begin

text \<open>
  The bounded drain loop (\<open>src/utils/drainController.ts\<close>). The loop is an asynchronous function
  that waits at seven places; between two waits it is a pure function of what it last saw. The
  model is that function, the race that guards each wait, and one handler per thing that can happen
  while it waits: a native reply or rejection (late ones included), a timer, a cancel, a second
  start, the passing of time, and the continuation of the loop after its promise settled. Sizes and
  counters are integers; times and options are JavaScript numbers.
\<close>

section \<open>Constants and small functions\<close>

definition DRAIN_DEFAULT_MAX_ITERATIONS :: jsnum where
  "DRAIN_DEFAULT_MAX_ITERATIONS = num 32"

definition DRAIN_DEFAULT_TIMEOUT_MS :: jsnum where
  "DRAIN_DEFAULT_TIMEOUT_MS = num 60000"

definition DRAIN_IDLE_WAIT_MS :: jsnum where
  "DRAIN_IDLE_WAIT_MS = num 250"

definition MAX_TIMER_DELAY_MS :: jsnum where
  "MAX_TIMER_DELAY_MS = num 2147483647"

definition finiteOr :: "jsnum option \<Rightarrow> jsnum \<Rightarrow> jsnum" where
  "finiteOr value fallback =
     (case value of Some v \<Rightarrow> if num_is_finite v then v else fallback | None \<Rightarrow> fallback)"

fun soonest_from :: "jsnum \<Rightarrow> jsnum option \<Rightarrow> sync_item list \<Rightarrow> jsnum option" where
  "soonest_from now soonest [] = soonest"
| "soonest_from now soonest (item # items) =
     (let nextRetryAt = item_nextRetryAt item
      in if num_lt now nextRetryAt \<and> (case soonest of None \<Rightarrow> True | Some s \<Rightarrow> num_lt nextRetryAt s)
         then soonest_from now (Some nextRetryAt) items
         else soonest_from now soonest items)"

definition soonestCooldownEnd :: "sync_item list \<Rightarrow> jsnum \<Rightarrow> jsnum option" where
  "soonestCooldownEnd items now = soonest_from now None items"

section \<open>State\<close>

text \<open>The places where the loop waits; \<open>AtRecheck\<close> is the second \<open>isSyncing\<close>.\<close>

datatype drain_pc = AtIsSyncing | AtSleep | AtQueueSize | AtRecheck | AtPending | AtConnection | AtFlush

text \<open>What a wait can be fulfilled with.\<close>

datatype drain_reply =
  GotBool bool | GotSize int | GotItems "sync_item list" | GotConnection connection_state | GotFlush | Slept

text \<open>How the promise of a wait settled; \<open>Stopped\<close> is a rejection with a \<open>DrainStop\<close>.\<close>

datatype settlement = Fulfilled drain_reply | Stopped drain_stopped_reason | Rejected thrown

text \<open>
  A wait in progress has an identity, the time at which its deadline timer is due and, for a sleep,
  the time at which the sleep is due.
\<close>

datatype drain_phase = Waiting nat int "int option" | Settled settlement

record drain_cfg =
  maxIterations :: jsnum
  delayBetweenCyclesMs :: jsnum
  deadlineAt :: jsnum

record drain_vars =
  iterations :: int
  itemsDispatched :: int
  lastSize :: "int option"
  cycleJustRan :: bool

text \<open>A history variable: the waits that began and what the loop saw, newest first.\<close>

datatype log_entry = Called drain_pc | Sleeping jsnum | Saw drain_reply

record drain_task =
  cfg :: drain_cfg
  vars :: drain_vars
  pc :: drain_pc
  phase :: drain_phase
  log :: "log_entry list"
  began :: int

text \<open>How a call of \<open>runDrain\<close> ended, with the history of its loop.\<close>

datatype drain_outcome =
    Finished drain_result drain_task
  | Failed thrown drain_task
  | Refused thrown

text \<open>The module state, the running loop if any, the clock, and the settled calls, newest first.\<close>

record drain_sys =
  clock :: int
  active :: bool
  cancelled :: bool
  cancelWaiters :: "nat list"
  nextId :: nat
  task :: "drain_task option"
  outcomes :: "drain_outcome list"

section \<open>The race that guards every wait\<close>

fun timer_ms :: "jsnum \<Rightarrow> int" where
  "timer_ms (Fin x) = \<lfloor>x\<rfloor>"
| "timer_ms _ = 0"

definition timer_due :: "int \<Rightarrow> jsnum \<Rightarrow> int" where
  "timer_due now ms = now + timer_ms (num_min ms MAX_TIMER_DELAY_MS)"

definition raceWithStop :: "bool \<Rightarrow> int \<Rightarrow> jsnum \<Rightarrow> nat \<Rightarrow> jsnum option \<Rightarrow> drain_phase" where
  "raceWithStop isCancelled now deadline i sleep =
     (let remainingMs = num_sub deadline (num now)
      in if isCancelled then Settled (Stopped CANCELLED)
         else if num_le remainingMs (num 0) then Settled (Stopped TIMEOUT)
         else Waiting i (timer_due now remainingMs) (map_option (timer_due now) sleep))"

text \<open>\<open>guarded(op)\<close> and, with a duration, \<open>sleepWithStop\<close>: begin a wait of the running loop.\<close>

definition begin_wait :: "drain_pc \<Rightarrow> jsnum option \<Rightarrow> drain_task \<Rightarrow> drain_sys \<Rightarrow> drain_sys" where
  "begin_wait p sleep t s =
     (case raceWithStop (cancelled s) (clock s) (deadlineAt (cfg t)) (nextId s) sleep of
        Waiting i due sl \<Rightarrow>
          s\<lparr>nextId := Suc (nextId s), cancelWaiters := cancelWaiters s @ [i],
            task := Some (t\<lparr>pc := p, phase := Waiting i due sl,
              log := (case sleep of None \<Rightarrow> Called p | Some ms \<Rightarrow> Sleeping ms) # log t\<rparr>)\<rparr>
      | Settled r \<Rightarrow> s\<lparr>task := Some (t\<lparr>pc := p, phase := Settled r\<rparr>)\<rparr>)"

text \<open>
  A race callback of wait \<open>i\<close>: it leaves the waiter set, and settles the promise the first time.
\<close>

definition settle :: "nat \<Rightarrow> settlement \<Rightarrow> drain_sys \<Rightarrow> drain_sys" where
  "settle i r s =
     (let s = s\<lparr>cancelWaiters := removeAll i (cancelWaiters s)\<rparr>
      in case task s of
           Some t \<Rightarrow>
             (case phase t of
                Waiting j due sl \<Rightarrow> if j = i then s\<lparr>task := Some (t\<lparr>phase := Settled r\<rparr>)\<rparr> else s
              | Settled _ \<Rightarrow> s)
         | None \<Rightarrow> s)"

section \<open>The loop between two waits\<close>

datatype drain_next =
  Await drain_pc drain_vars | SleepFor jsnum drain_vars | Return drain_stopped_reason drain_vars | Stuck

definition idleWaitMs :: "drain_cfg \<Rightarrow> jsnum" where
  "idleWaitMs c = num_max (delayBetweenCyclesMs c) DRAIN_IDLE_WAIT_MS"

definition sleep_or_connection :: "jsnum \<Rightarrow> drain_vars \<Rightarrow> drain_next" where
  "sleep_or_connection waitMs v = (if num_lt (num 0) waitMs then SleepFor waitMs v else Await AtConnection v)"

definition removed_count :: "drain_vars \<Rightarrow> int \<Rightarrow> int" where
  "removed_count v sz = (case lastSize v of None \<Rightarrow> 0 | Some l \<Rightarrow> l - sz)"

definition after_size :: "drain_cfg \<Rightarrow> drain_vars \<Rightarrow> int \<Rightarrow> drain_next" where
  "after_size c v sz =
     (let removed = removed_count v sz;
          v = (if removed > 0 then v\<lparr>itemsDispatched := itemsDispatched v + removed\<rparr> else v);
          v = v\<lparr>lastSize := Some sz\<rparr>
      in if sz = 0 then Await AtRecheck v
         else if num_le (maxIterations c) (num (iterations v)) then Return MAX_ITERATIONS v
         else if cycleJustRan v then
           (let v = v\<lparr>cycleJustRan := False\<rparr>
            in if removed > 0 then sleep_or_connection (delayBetweenCyclesMs c) v else Await AtPending v)
         else Await AtConnection v)"

text \<open>The rest of \<open>waitAfterNoProgress\<close>, then the \<open>if (waitMs > 0)\<close> of the loop.\<close>

definition after_pending :: "drain_cfg \<Rightarrow> int \<Rightarrow> drain_vars \<Rightarrow> sync_item list \<Rightarrow> drain_next" where
  "after_pending c now v pending =
     (case soonestCooldownEnd pending (num now) of
        None \<Rightarrow> sleep_or_connection (idleWaitMs c) v
      | Some cooldownEnd \<Rightarrow>
          if num_le (deadlineAt c) cooldownEnd then Return TIMEOUT v
          else sleep_or_connection (num_max (delayBetweenCyclesMs c) (num_sub cooldownEnd (num now))) v)"

definition after_connection :: "drain_cfg \<Rightarrow> drain_vars \<Rightarrow> connection_state \<Rightarrow> drain_next" where
  "after_connection c v connection =
     (if conn_status connection = DISCONNECTED then SleepFor (idleWaitMs c) v
      else Await AtFlush (v\<lparr>iterations := iterations v + 1, cycleJustRan := True\<rparr>))"

text \<open>From the wait at a place and what fulfilled it to the next wait or the end.\<close>

definition after :: "drain_cfg \<Rightarrow> int \<Rightarrow> drain_vars \<Rightarrow> drain_pc \<Rightarrow> drain_reply \<Rightarrow> drain_next" where
  "after c now v p r =
     (case p of
        AtIsSyncing \<Rightarrow>
          (case r of GotBool b \<Rightarrow> if b then SleepFor DRAIN_IDLE_WAIT_MS v else Await AtQueueSize v | _ \<Rightarrow> Stuck)
      | AtSleep \<Rightarrow> (case r of Slept \<Rightarrow> Await AtIsSyncing v | _ \<Rightarrow> Stuck)
      | AtQueueSize \<Rightarrow> (case r of GotSize n \<Rightarrow> after_size c v n | _ \<Rightarrow> Stuck)
      | AtRecheck \<Rightarrow>
          (case r of GotBool b \<Rightarrow> if b then SleepFor DRAIN_IDLE_WAIT_MS v else Return EMPTY v | _ \<Rightarrow> Stuck)
      | AtPending \<Rightarrow> (case r of GotItems items \<Rightarrow> after_pending c now v items | _ \<Rightarrow> Stuck)
      | AtConnection \<Rightarrow> (case r of GotConnection k \<Rightarrow> after_connection c v k | _ \<Rightarrow> Stuck)
      | AtFlush \<Rightarrow> (case r of GotFlush \<Rightarrow> Await AtIsSyncing v | _ \<Rightarrow> Stuck))"

definition drain_result_of :: "drain_vars \<Rightarrow> drain_stopped_reason \<Rightarrow> drain_result" where
  "drain_result_of v reason =
     \<lparr>dres_iterations = iterations v, dres_itemsDispatched = itemsDispatched v,
      dres_queueRemaining = (case lastSize v of None \<Rightarrow> 0 | Some n \<Rightarrow> n), dres_stoppedReason = reason\<rparr>"

text \<open>The \<open>finally\<close> block, and the settling of the promise of \<open>runDrain\<close>.\<close>

definition finish :: "drain_outcome \<Rightarrow> drain_sys \<Rightarrow> drain_sys" where
  "finish r s = s\<lparr>active := False, cancelled := False, task := None, outcomes := r # outcomes s\<rparr>"

section \<open>Handlers\<close>

definition already_active_error :: thrown where
  "already_active_error =
     new_SyncError DRAIN_ALREADY_ACTIVE
       (''A drainUntilEmpty() loop is already running. Await it before starting another. '' @
        ''After cancelDrain() it still has to settle first.'') None None"

definition drain_config :: "drain_options \<Rightarrow> int \<Rightarrow> drain_cfg" where
  "drain_config options now =
     \<lparr>maxIterations = finiteOr (dopt_maxIterations options) DRAIN_DEFAULT_MAX_ITERATIONS,
      delayBetweenCyclesMs = finiteOr (dopt_delayBetweenCyclesMs options) (num 0),
      deadlineAt = num_add (num now) (finiteOr (dopt_timeoutMs options) DRAIN_DEFAULT_TIMEOUT_MS)\<rparr>"

definition runDrain :: "drain_options \<Rightarrow> drain_sys \<Rightarrow> drain_sys" where
  "runDrain options s =
     (if active s then s\<lparr>outcomes := Refused already_active_error # outcomes s\<rparr>
      else
        let t = \<lparr>cfg = drain_config options (clock s),
                 vars = \<lparr>iterations = 0, itemsDispatched = 0, lastSize = None, cycleJustRan = False\<rparr>,
                 pc = AtIsSyncing, phase = Settled (Stopped CANCELLED), log = [], began = clock s\<rparr>
        in begin_wait AtIsSyncing None t (s\<lparr>active := True, cancelled := False\<rparr>))"

definition cancelActiveDrain :: "drain_sys \<Rightarrow> drain_sys" where
  "cancelActiveDrain s =
     (if \<not> active s then s
      else fold (\<lambda>i. settle i (Stopped CANCELLED)) (cancelWaiters s) (s\<lparr>cancelled := True\<rparr>))"

text \<open>The replies a native operation can give at a place (a sleep has its own timer).\<close>

fun fits :: "drain_pc \<Rightarrow> drain_reply \<Rightarrow> bool" where
  "fits AtIsSyncing (GotBool _) = True"
| "fits AtQueueSize (GotSize _) = True"
| "fits AtRecheck (GotBool _) = True"
| "fits AtPending (GotItems _) = True"
| "fits AtConnection (GotConnection _) = True"
| "fits AtFlush GotFlush = True"
| "fits _ _ = False"

text \<open>The continuation of the loop once its promise settled, the \<open>catch\<close> included.\<close>

definition resume :: "drain_task \<Rightarrow> settlement \<Rightarrow> drain_sys \<Rightarrow> drain_sys option" where
  "resume t r s =
     (case r of
        Stopped reason \<Rightarrow> Some (finish (Finished (drain_result_of (vars t) reason) t) s)
      | Rejected e \<Rightarrow> Some (finish (Failed e t) s)
      | Fulfilled x \<Rightarrow>
          (let t = t\<lparr>log := Saw x # log t\<rparr>
           in case after (cfg t) (clock s) (vars t) (pc t) x of
                Await p v \<Rightarrow> Some (begin_wait p None (t\<lparr>vars := v\<rparr>) s)
              | SleepFor ms v \<Rightarrow> Some (begin_wait AtSleep (Some ms) (t\<lparr>vars := v\<rparr>) s)
              | Return reason v \<Rightarrow> Some (finish (Finished (drain_result_of v reason) (t\<lparr>vars := v\<rparr>)) s)
              | Stuck \<Rightarrow> None))"

datatype drain_event =
    Start drain_options
  | Cancel
  | Reply nat drain_reply
  | Fail nat thrown
  | DeadlineTimer nat
  | SleepTimer nat
  | Resume
  | Tick nat

definition current_wait :: "drain_sys \<Rightarrow> (nat \<times> drain_pc \<times> int \<times> int option) option" where
  "current_wait s =
     (case task s of
        Some t \<Rightarrow> (case phase t of Waiting i due sl \<Rightarrow> Some (i, pc t, due, sl) | Settled _ \<Rightarrow> None)
      | None \<Rightarrow> None)"

text \<open>
  What happens at an event; \<open>None\<close> when it cannot happen. A native call may answer after its
  wait was abandoned; a timer is cleared with its wait.
\<close>

definition handle :: "drain_event \<Rightarrow> drain_sys \<Rightarrow> drain_sys option" where
  "handle e s =
     (case e of
        Start options \<Rightarrow> Some (runDrain options s)
      | Cancel \<Rightarrow> Some (cancelActiveDrain s)
      | Reply i x \<Rightarrow>
          (if i < nextId s \<and> (case current_wait s of Some (j, p, _) \<Rightarrow> j = i \<longrightarrow> fits p x | None \<Rightarrow> True)
           then Some (settle i (Fulfilled x) s) else None)
      | Fail i err \<Rightarrow>
          (if i < nextId s \<and> (case current_wait s of Some (j, p, _) \<Rightarrow> j = i \<longrightarrow> p \<noteq> AtSleep | None \<Rightarrow> True)
           then Some (settle i (Rejected err) s) else None)
      | DeadlineTimer i \<Rightarrow>
          (case current_wait s of
             Some (j, _, due, _) \<Rightarrow> if j = i \<and> due \<le> clock s then Some (settle i (Stopped TIMEOUT) s) else None
           | None \<Rightarrow> None)
      | SleepTimer i \<Rightarrow>
          (case current_wait s of
             Some (j, _, _, Some w) \<Rightarrow> if j = i \<and> w \<le> clock s then Some (settle i (Fulfilled Slept) s) else None
           | _ \<Rightarrow> None)
      | Resume \<Rightarrow>
          (case task s of
             Some t \<Rightarrow> (case phase t of Settled r \<Rightarrow> resume t r s | Waiting _ _ _ \<Rightarrow> None)
           | None \<Rightarrow> None)
      | Tick n \<Rightarrow> Some (s\<lparr>clock := clock s + int n\<rparr>))"

inductive drain_step :: "drain_sys \<Rightarrow> drain_event \<Rightarrow> drain_sys \<Rightarrow> bool" where
  drain_stepI: "handle e s = Some t \<Longrightarrow> drain_step s e t"

inductive_simps drain_step_iff: "drain_step s e t"

definition drain_init :: "drain_sys \<Rightarrow> bool" where
  "drain_init s \<longleftrightarrow>
     \<not> active s \<and> \<not> cancelled s \<and> cancelWaiters s = [] \<and> task s = None \<and> outcomes s = []"

fun run_events :: "drain_event list \<Rightarrow> drain_sys \<Rightarrow> drain_sys option" where
  "run_events [] s = Some s"
| "run_events (e # es) s = (case handle e s of None \<Rightarrow> None | Some t \<Rightarrow> run_events es t)"

lemma run_events_reachable:
  "reachable drain_init drain_step s \<Longrightarrow> run_events es s = Some t \<Longrightarrow> reachable drain_init drain_step t"
  by (induction es arbitrary: s) (auto split: option.splits intro: reach_step drain_stepI)

end
