(* ===== verification/Drain_Proofs.thy ===== *)
theory Drain_Proofs
  imports Drain_Controller
begin

text \<open>
  The proofs about the drain loop: how its history is read, the invariant of the running loop and
  of the module state, the table of its moves, and the properties.
\<close>

section \<open>Reading the history\<close>

fun sizes_of :: "log_entry list \<Rightarrow> int list" where
  "sizes_of [] = []"
| "sizes_of (e # l) = (case e of Saw (GotSize n) \<Rightarrow> n # sizes_of l | _ \<Rightarrow> sizes_of l)"

text \<open>The sum of the drops between successive sizes, newest first.\<close>

fun drops :: "int list \<Rightarrow> int" where
  "drops (n # m # l) = max 0 (m - n) + drops (m # l)"
| "drops _ = 0"

definition flush_calls :: "log_entry list \<Rightarrow> int" where
  "flush_calls l = int (count_list l (Called AtFlush))"

definition passes :: "log_entry list \<Rightarrow> int" where
  "passes l = int (count_list l (Called AtIsSyncing))"

definition is_sleep :: "log_entry \<Rightarrow> bool" where
  "is_sleep e = (case e of Sleeping _ \<Rightarrow> True | _ \<Rightarrow> False)"

definition is_full_sleep :: "log_entry \<Rightarrow> bool" where
  "is_full_sleep e = (case e of Sleeping ms \<Rightarrow> num_le DRAIN_IDLE_WAIT_MS ms | _ \<Rightarrow> False)"

definition sleeps :: "log_entry list \<Rightarrow> int" where
  "sleeps l = int (length (filter is_sleep l))"

definition full_sleeps :: "log_entry list \<Rightarrow> int" where
  "full_sleeps l = int (length (filter is_full_sleep l))"

fun online_entry :: "log_entry list \<Rightarrow> bool" where
  "online_entry (Saw (GotConnection k) # _) = (conn_status k \<noteq> DISCONNECTED)"
| "online_entry _ = False"

text \<open>Every flush directly follows a connection state that is not \<open>DISCONNECTED\<close>.\<close>

fun flush_online :: "log_entry list \<Rightarrow> bool" where
  "flush_online [] = True"
| "flush_online (e # l) = ((e = Called AtFlush \<longrightarrow> online_entry l) \<and> flush_online l)"

lemma log_simps [simp]:
  "flush_calls [] = 0" "flush_calls (e # l) = (if e = Called AtFlush then 1 else 0) + flush_calls l"
  "passes [] = 0" "passes (e # l) = (if e = Called AtIsSyncing then 1 else 0) + passes l"
  "sleeps [] = 0" "sleeps (e # l) = (if is_sleep e then 1 else 0) + sleeps l"
  "full_sleeps [] = 0" "full_sleeps (e # l) = (if is_full_sleep e then 1 else 0) + full_sleeps l"
  "is_sleep (Called p) = False" "is_sleep (Saw x) = False" "is_sleep (Sleeping ms) = True"
  "is_full_sleep (Called p) = False" "is_full_sleep (Saw x) = False"
  "is_full_sleep (Sleeping ms) = num_le DRAIN_IDLE_WAIT_MS ms"
  by (simp_all add: flush_calls_def passes_def sleeps_def full_sleeps_def is_sleep_def is_full_sleep_def)

lemma count_nonneg [simp]: "0 \<le> flush_calls l" "0 \<le> full_sleeps l"
  by (simp_all add: flush_calls_def full_sleeps_def)

section \<open>Invariant of the running loop\<close>

definition accounted :: "drain_task \<Rightarrow> bool" where
  "accounted t \<longleftrightarrow>
     itemsDispatched (vars t) = drops (sizes_of (log t)) \<and>
     lastSize (vars t) = (case sizes_of (log t) of [] \<Rightarrow> None | n # _ \<Rightarrow> Some n)"

definition below_max :: "drain_task \<Rightarrow> int \<Rightarrow> bool" where
  "below_max t k \<longleftrightarrow> \<not> num_le (maxIterations (cfg t)) (num k)"

definition cfg_ok :: "drain_task \<Rightarrow> bool" where
  "cfg_ok t \<longleftrightarrow> num_is_finite (maxIterations (cfg t)) \<and> num_is_finite (delayBetweenCyclesMs (cfg t))"

text \<open>The wait at \<open>pc\<close> did begin: it was not refused by the race.\<close>

definition started :: "drain_task \<Rightarrow> bool" where
  "started t \<longleftrightarrow> (case phase t of Settled (Stopped _) \<Rightarrow> False | _ \<Rightarrow> True)"

definition iterations_ok :: "drain_task \<Rightarrow> bool" where
  "iterations_ok t \<longleftrightarrow>
     0 \<le> iterations (vars t) \<and> (0 < iterations (vars t) \<longrightarrow> below_max t (iterations (vars t) - 1)) \<and>
     (pc t \<in> {AtPending, AtConnection} \<longrightarrow> below_max t (iterations (vars t)))"

definition flushes_ok :: "drain_task \<Rightarrow> bool" where
  "flushes_ok t \<longleftrightarrow>
     flush_online (log t) \<and>
     flush_calls (log t) \<le> iterations (vars t) \<and> iterations (vars t) \<le> flush_calls (log t) + 1 \<and>
     (started t \<or> pc t \<noteq> AtFlush \<longrightarrow> iterations (vars t) = flush_calls (log t))"

definition position_ok :: "drain_task \<Rightarrow> bool" where
  "position_ok t \<longleftrightarrow>
     (started t \<and> pc t = AtRecheck \<longrightarrow> (\<exists>l. log t = Called AtRecheck # Saw (GotSize 0) # l)) \<and>
     (case phase t of
        Waiting _ _ sl \<Rightarrow> (sl \<noteq> None \<longleftrightarrow> pc t = AtSleep)
      | Settled (Fulfilled x) \<Rightarrow> (if pc t = AtSleep then x = Slept else fits (pc t) x)
      | Settled (Stopped r) \<Rightarrow> r \<in> {CANCELLED, TIMEOUT}
      | Settled (Rejected _) \<Rightarrow> True)"

definition credit :: "drain_task \<Rightarrow> int" where
  "credit t = (if cycleJustRan (vars t) \<or> pc t = AtPending then 1 else 0)"

definition passes_ok :: "drain_task \<Rightarrow> bool" where
  "passes_ok t \<longleftrightarrow>
     sleeps (log t) - full_sleeps (log t) + credit t \<le> iterations (vars t) \<and>
     (pc t \<in> {AtPending, AtConnection} \<longrightarrow> \<not> cycleJustRan (vars t)) \<and>
     passes (log t) \<le> flush_calls (log t) + sleeps (log t) + 1 \<and>
     (started t \<and> pc t \<in> {AtSleep, AtFlush} \<longrightarrow> passes (log t) \<le> flush_calls (log t) + sleeps (log t))"

definition time_ok :: "int \<Rightarrow> drain_task \<Rightarrow> bool" where
  "time_ok now t \<longleftrightarrow>
     began t \<le> now \<and> began t + 250 * (full_sleeps (log t) - 1) \<le> now \<and>
     (pc t \<noteq> AtSleep \<longrightarrow> began t + 250 * full_sleeps (log t) \<le> now) \<and>
     (case phase t of
        Waiting _ _ (Some w) \<Rightarrow> began t + 250 * full_sleeps (log t) \<le> w
      | Settled (Fulfilled _) \<Rightarrow> began t + 250 * full_sleeps (log t) \<le> now
      | _ \<Rightarrow> True)"

definition task_inv :: "int \<Rightarrow> drain_task \<Rightarrow> bool" where
  "task_inv now t \<longleftrightarrow>
     cfg_ok t \<and> accounted t \<and> iterations_ok t \<and> flushes_ok t \<and> position_ok t \<and> passes_ok t \<and> time_ok now t"

text \<open>What remains true of a loop that ended, and what its reason means.\<close>

definition ended_ok :: "int \<Rightarrow> drain_task \<Rightarrow> bool" where
  "ended_ok now t \<longleftrightarrow>
     accounted t \<and> flush_online (log t) \<and>
     0 \<le> iterations (vars t) \<and> (0 < iterations (vars t) \<longrightarrow> below_max t (iterations (vars t) - 1)) \<and>
     flush_calls (log t) \<le> iterations (vars t) \<and> iterations (vars t) \<le> flush_calls (log t) + 1 \<and>
     250 * (passes (log t) - 2 * iterations (vars t) - 2) \<le> now - began t"

definition reason_ok :: "drain_task \<Rightarrow> drain_stopped_reason \<Rightarrow> bool" where
  "reason_ok t reason \<longleftrightarrow>
     (reason = EMPTY \<longrightarrow> (\<exists>l. log t = Saw (GotBool False) # Called AtRecheck # Saw (GotSize 0) # l)) \<and>
     (reason = MAX_ITERATIONS \<longrightarrow> num_le (maxIterations (cfg t)) (num (iterations (vars t))) \<and>
        (\<exists>n l. n \<noteq> 0 \<and> log t = Saw (GotSize n) # l))"

fun outcome_ok :: "int \<Rightarrow> drain_outcome \<Rightarrow> bool" where
  "outcome_ok now (Finished r t) =
     (ended_ok now t \<and> reason_ok t (dres_stoppedReason r) \<and> r = drain_result_of (vars t) (dres_stoppedReason r))"
| "outcome_ok now (Failed e t) = ended_ok now t"
| "outcome_ok now (Refused e) = (e = already_active_error)"

definition waiter_ids :: "drain_task option \<Rightarrow> nat list" where
  "waiter_ids k =
     (case k of Some t \<Rightarrow> (case phase t of Waiting i _ _ \<Rightarrow> [i] | Settled _ \<Rightarrow> []) | None \<Rightarrow> [])"

definition drain_inv :: "drain_sys \<Rightarrow> bool" where
  "drain_inv s \<longleftrightarrow>
     (active s \<longleftrightarrow> task s \<noteq> None) \<and> (\<not> active s \<longrightarrow> \<not> cancelled s) \<and>
     cancelWaiters s = waiter_ids (task s) \<and> (\<forall>i \<in> set (cancelWaiters s). i < nextId s) \<and>
     (cancelled s \<longrightarrow> cancelWaiters s = []) \<and>
     (\<forall>t. task s = Some t \<longrightarrow> task_inv (clock s) t) \<and>
     (\<forall>r \<in> set (outcomes s). outcome_ok (clock s) r)"

section \<open>The loop keeps its invariant\<close>

text \<open>A wait that the race started or refused.\<close>

definition begun :: "drain_pc \<Rightarrow> jsnum option \<Rightarrow> drain_phase \<Rightarrow> drain_task \<Rightarrow> drain_task" where
  "begun p sleep ph t =
     (case ph of
        Waiting _ _ _ \<Rightarrow>
          t\<lparr>pc := p, phase := ph, log := (case sleep of None \<Rightarrow> Called p | Some ms \<Rightarrow> Sleeping ms) # log t\<rparr>
      | Settled _ \<Rightarrow> t\<lparr>pc := p, phase := ph\<rparr>)"

lemma raceWithStop_cases:
  obtains due where "raceWithStop b now deadline i sleep = Waiting i due (map_option (timer_due now) sleep)" "\<not> b"
    "\<not> num_le (num_sub deadline (num now)) (num 0)"
  | r where "raceWithStop b now deadline i sleep = Settled (Stopped r)" "b \<Longrightarrow> r = CANCELLED" "\<not> b \<Longrightarrow> r = TIMEOUT"
  unfolding raceWithStop_def Let_def
  by (cases b; cases "num_le (num_sub deadline (num now)) (num 0)") auto

lemma begin_wait_cases:
  obtains due where "begin_wait p sleep t s =
      s\<lparr>nextId := Suc (nextId s), cancelWaiters := cancelWaiters s @ [nextId s],
        task := Some (begun p sleep (Waiting (nextId s) due (map_option (timer_due (clock s)) sleep)) t)\<rparr>" "\<not> cancelled s"
  | r where "begin_wait p sleep t s = s\<lparr>task := Some (begun p sleep (Settled (Stopped r)) t)\<rparr>" "r \<in> {CANCELLED, TIMEOUT}"
proof (cases rule: raceWithStop_cases [of "cancelled s" "clock s" "deadlineAt (cfg t)" "nextId s" sleep])
  case (1 due)
  then show ?thesis using that(1) by (simp add: begin_wait_def begun_def)
next
  case (2 r)
  then show ?thesis using that(2) [of r] by (cases "cancelled s") (simp_all add: begin_wait_def begun_def)
qed

lemma timer_ms_ge: "num_le (num k) ms \<Longrightarrow> k \<le> 2147483647 \<Longrightarrow> k \<le> timer_ms (num_min ms MAX_TIMER_DELAY_MS)"
  by (cases ms) (auto simp: MAX_TIMER_DELAY_MS_def num_min_def le_floor_iff)

lemma timer_due_ge: "num_le (num 0) ms \<Longrightarrow> now \<le> timer_due now ms"
  using timer_ms_ge [of 0 ms] by (simp add: timer_due_def)

lemma timer_due_full: "num_le DRAIN_IDLE_WAIT_MS ms \<Longrightarrow> now + 250 \<le> timer_due now ms"
  using timer_ms_ge [of 250 ms] by (simp add: timer_due_def DRAIN_IDLE_WAIT_MS_def)

lemma idleWaitMs_full: "num_is_finite (delayBetweenCyclesMs c) \<Longrightarrow> num_le DRAIN_IDLE_WAIT_MS (idleWaitMs c)"
  by (cases "delayBetweenCyclesMs c") (simp_all add: idleWaitMs_def DRAIN_IDLE_WAIT_MS_def)

definition settled_phase :: "drain_phase \<Rightarrow> bool" where
  "settled_phase ph = (case ph of Settled (Stopped _) \<Rightarrow> True | _ \<Rightarrow> False)"

text \<open>The phases the race can give to a wait without and with a sleep.\<close>

definition race_phase :: "int \<Rightarrow> jsnum option \<Rightarrow> drain_phase \<Rightarrow> bool" where
  "race_phase now sleep ph \<longleftrightarrow>
     (\<exists>i due. ph = Waiting i due (map_option (timer_due now) sleep)) \<or>
     (\<exists>r \<in> {CANCELLED, TIMEOUT}. ph = Settled (Stopped r))"

lemmas after_defs =
  after_def after_size_def after_pending_def after_connection_def sleep_or_connection_def Let_def removed_count_def

lemmas inv_defs =
  task_inv_def cfg_ok_def accounted_def iterations_ok_def flushes_ok_def position_ok_def passes_ok_def time_ok_def
  started_def below_max_def credit_def

text \<open>The results of \<open>after\<close> other than \<open>Stuck\<close> as rules, for case analysis in the proofs below.\<close>

definition counted :: "drain_vars \<Rightarrow> int \<Rightarrow> drain_vars" where
  "counted v n = v\<lparr>itemsDispatched := itemsDispatched v + max 0 (removed_count v n), lastSize := Some n\<rparr>"

inductive drain_move :: "drain_cfg \<Rightarrow> int \<Rightarrow> drain_vars \<Rightarrow> drain_pc \<Rightarrow> drain_reply \<Rightarrow> drain_next \<Rightarrow> bool"
  for c now v where
  move_busy: "p \<in> {AtIsSyncing, AtRecheck} \<Longrightarrow> drain_move c now v p (GotBool True) (SleepFor DRAIN_IDLE_WAIT_MS v)"
| move_idle: "drain_move c now v AtIsSyncing (GotBool False) (Await AtQueueSize v)"
| move_slept: "drain_move c now v AtSleep Slept (Await AtIsSyncing v)"
| move_zero: "drain_move c now v AtQueueSize (GotSize 0) (Await AtRecheck (counted v 0))"
| move_max: "n \<noteq> 0 \<Longrightarrow> num_le (maxIterations c) (num (iterations v)) \<Longrightarrow>
    drain_move c now v AtQueueSize (GotSize n) (Return MAX_ITERATIONS (counted v n))"
| move_fresh: "n \<noteq> 0 \<Longrightarrow> \<not> num_le (maxIterations c) (num (iterations v)) \<Longrightarrow> \<not> cycleJustRan v \<Longrightarrow>
    drain_move c now v AtQueueSize (GotSize n) (Await AtConnection (counted v n))"
| move_stalled: "n \<noteq> 0 \<Longrightarrow> \<not> num_le (maxIterations c) (num (iterations v)) \<Longrightarrow> cycleJustRan v \<Longrightarrow>
    removed_count v n \<le> 0 \<Longrightarrow>
    drain_move c now v AtQueueSize (GotSize n) (Await AtPending ((counted v n)\<lparr>cycleJustRan := False\<rparr>))"
| move_progress: "n \<noteq> 0 \<Longrightarrow> \<not> num_le (maxIterations c) (num (iterations v)) \<Longrightarrow> cycleJustRan v \<Longrightarrow>
    0 < removed_count v n \<Longrightarrow> \<not> num_lt (num 0) (delayBetweenCyclesMs c) \<Longrightarrow>
    drain_move c now v AtQueueSize (GotSize n) (Await AtConnection ((counted v n)\<lparr>cycleJustRan := False\<rparr>))"
| move_delay: "n \<noteq> 0 \<Longrightarrow> \<not> num_le (maxIterations c) (num (iterations v)) \<Longrightarrow> cycleJustRan v \<Longrightarrow>
    0 < removed_count v n \<Longrightarrow> num_lt (num 0) (delayBetweenCyclesMs c) \<Longrightarrow>
    drain_move c now v AtQueueSize (GotSize n) (SleepFor (delayBetweenCyclesMs c) ((counted v n)\<lparr>cycleJustRan := False\<rparr>))"
| move_empty: "drain_move c now v AtRecheck (GotBool False) (Return EMPTY v)"
| move_cooling: "soonestCooldownEnd items (num now) = Some e \<Longrightarrow> num_le (deadlineAt c) e \<Longrightarrow>
    drain_move c now v AtPending (GotItems items) (Return TIMEOUT v)"
| move_pause: "ms = (case soonestCooldownEnd items (num now) of None \<Rightarrow> idleWaitMs c
      | Some e \<Rightarrow> num_max (delayBetweenCyclesMs c) (num_sub e (num now))) \<Longrightarrow>
    (\<And>e. soonestCooldownEnd items (num now) = Some e \<Longrightarrow> \<not> num_le (deadlineAt c) e) \<Longrightarrow> num_lt (num 0) ms \<Longrightarrow>
    drain_move c now v AtPending (GotItems items) (SleepFor ms v)"
| move_no_pause: "ms = (case soonestCooldownEnd items (num now) of None \<Rightarrow> idleWaitMs c
      | Some e \<Rightarrow> num_max (delayBetweenCyclesMs c) (num_sub e (num now))) \<Longrightarrow>
    (\<And>e. soonestCooldownEnd items (num now) = Some e \<Longrightarrow> \<not> num_le (deadlineAt c) e) \<Longrightarrow> \<not> num_lt (num 0) ms \<Longrightarrow>
    drain_move c now v AtPending (GotItems items) (Await AtConnection v)"
| move_offline: "conn_status k = DISCONNECTED \<Longrightarrow>
    drain_move c now v AtConnection (GotConnection k) (SleepFor (idleWaitMs c) v)"
| move_flush: "conn_status k \<noteq> DISCONNECTED \<Longrightarrow>
    drain_move c now v AtConnection (GotConnection k)
      (Await AtFlush (v\<lparr>iterations := iterations v + 1, cycleJustRan := True\<rparr>))"
| move_flushed: "drain_move c now v AtFlush GotFlush (Await AtIsSyncing v)"

lemma move_after: "drain_move c now v p x nxt \<Longrightarrow> after c now v p x = nxt"
  by (induction rule: drain_move.induct) (auto simp: after_defs counted_def max_def split: option.splits)

lemma after_move:
  assumes "after c now v p x = nxt" and "nxt \<noteq> Stuck"
  shows "drain_move c now v p x nxt"
proof -
  have counted: "(if 0 < removed_count v n then v\<lparr>itemsDispatched := itemsDispatched v + removed_count v n\<rparr> else v)
      \<lparr>lastSize := Some n\<rparr> = counted v n" for n
    by (simp add: counted_def max_def)
  show ?thesis
  proof (cases p)
    case AtQueueSize
    then obtain n where x: "x = GotSize n" using assms by (cases x) (simp_all add: after_def)
    have "cycleJustRan (counted v n) = cycleJustRan v" "iterations (counted v n) = iterations v"
      by (simp_all add: counted_def)
    then have "nxt = (if n = 0 then Await AtRecheck (counted v n)
         else if num_le (maxIterations c) (num (iterations v)) then Return MAX_ITERATIONS (counted v n)
         else if cycleJustRan v then
           (if removed_count v n > 0 then sleep_or_connection (delayBetweenCyclesMs c) ((counted v n)\<lparr>cycleJustRan := False\<rparr>)
            else Await AtPending ((counted v n)\<lparr>cycleJustRan := False\<rparr>))
         else Await AtConnection (counted v n))"
      using assms(1) AtQueueSize x by (simp only: after_def after_size_def Let_def counted drain_pc.case drain_reply.case)
    then show ?thesis using AtQueueSize x
      by (auto simp: sleep_or_connection_def intro: drain_move.intros)
  next
    case AtPending
    then show ?thesis using assms
      by (cases x) (auto simp: after_def after_pending_def sleep_or_connection_def split: option.splits if_splits
        intro: drain_move.intros intro!: move_pause move_no_pause)
  qed (use assms in \<open>cases x; auto simp: after_def after_connection_def split: if_splits intro: drain_move.intros\<close>)+
qed

lemma after_total:
  assumes "position_ok t" and "phase t = Settled (Fulfilled x)"
  shows "after (cfg t) now (vars t) (pc t) x \<noteq> Stuck"
  using assms
  by (cases "pc t"; cases x) (auto simp: position_ok_def after_defs split: if_splits option.splits)

lemma counted_simps [simp]:
  "iterations (counted v n) = iterations v" "lastSize (counted v n) = Some n" "cycleJustRan (counted v n) = cycleJustRan v"
  "itemsDispatched (counted v n) = itemsDispatched v + max 0 (removed_count v n)"
  by (simp_all add: counted_def)

text \<open>The loop after it consumed \<open>x\<close> and moved to the variables \<open>v\<close>.\<close>

definition consumed :: "drain_task \<Rightarrow> drain_reply \<Rightarrow> drain_vars \<Rightarrow> drain_task" where
  "consumed t x v = t\<lparr>log := Saw x # log t, vars := v\<rparr>"

lemma begun_fields [simp]:
  "cfg (begun p sl ph t) = cfg t" "vars (begun p sl ph t) = vars t" "pc (begun p sl ph t) = p"
  "phase (begun p sl ph t) = ph" "began (begun p sl ph t) = began t"
  by (cases ph; simp add: begun_def)+

lemma begun_log:
  "log (begun p sl (Waiting i d w) t) = (case sl of None \<Rightarrow> Called p | Some ms \<Rightarrow> Sleeping ms) # log t"
  "log (begun p sl (Settled q) t) = log t"
  by (simp_all add: begun_def)

lemma consumed_fields [simp]:
  "cfg (consumed t x v) = cfg t" "vars (consumed t x v) = v" "pc (consumed t x v) = pc t" "began (consumed t x v) = began t"
  "phase (consumed t x v) = phase t" "log (consumed t x v) = Saw x # log t"
  by (simp_all add: consumed_def)

fun next_vars :: "drain_next \<Rightarrow> drain_vars" where
  "next_vars (Await p v) = v"
| "next_vars (SleepFor ms v) = v"
| "next_vars (Return r v) = v"
| "next_vars Stuck = undefined"

lemma move_accounted:
  assumes "accounted t" and "drain_move (cfg t) now (vars t) (pc t) x nxt"
  shows "accounted (consumed t x (next_vars nxt))"
  using assms(2,1)
  by (cases rule: drain_move.cases)
    (auto simp: accounted_def removed_count_def split: list.splits)

lemma accounted_begun: "accounted (begun p sl ph t) \<longleftrightarrow> accounted t"
  by (cases ph; cases sl) (simp_all add: accounted_def begun_log)

lemma below_max_cong [simp]: "below_max (begun p sl ph t) k \<longleftrightarrow> below_max t k" "below_max (consumed t x v) k \<longleftrightarrow> below_max t k"
  by (simp_all add: below_max_def)

fun next_task :: "int \<Rightarrow> drain_task \<Rightarrow> drain_reply \<Rightarrow> drain_next \<Rightarrow> drain_phase \<Rightarrow> drain_task" where
  "next_task now t x (Await p v) ph = begun p None ph (consumed t x v)"
| "next_task now t x (SleepFor ms v) ph = begun AtSleep (Some ms) ph (consumed t x v)"
| "next_task now t x (Return r v) ph = consumed t x v"
| "next_task now t x Stuck ph = t"

fun next_phase_ok :: "int \<Rightarrow> drain_next \<Rightarrow> drain_phase \<Rightarrow> bool" where
  "next_phase_ok now (Await p v) ph = race_phase now None ph"
| "next_phase_ok now (SleepFor ms v) ph = race_phase now (Some ms) ph"
| "next_phase_ok now _ ph = False"

lemma next_phase_cases:
  assumes "next_phase_ok now nxt ph"
  obtains i due where "ph = Waiting i due (case nxt of SleepFor ms v \<Rightarrow> Some (timer_due now ms) | _ \<Rightarrow> None)"
  | r where "ph = Settled (Stopped r)" "r \<in> {CANCELLED, TIMEOUT}"
  using assms by (cases nxt) (auto simp: race_phase_def)

lemma move_iterations:
  assumes "iterations_ok t" and "drain_move (cfg t) now (vars t) (pc t) x nxt" and "next_phase_ok now nxt ph"
  shows "iterations_ok (next_task now t x nxt ph)"
  using assms(2,1,3)
  by (cases rule: drain_move.cases) (auto simp: iterations_ok_def below_max_def)

lemma move_flushes:
  assumes "flushes_ok t" and "drain_move (cfg t) now (vars t) (pc t) x nxt" and "next_phase_ok now nxt ph"
    and "phase t = Settled (Fulfilled x)"
  shows "flushes_ok (next_task now t x nxt ph)"
  using assms(3)
proof (cases rule: next_phase_cases)
  case (1 i due)
  show ?thesis using assms(2,1,4,3) 1
    by (cases rule: drain_move.cases) (auto simp: flushes_ok_def started_def begun_log)
next
  case (2 r)
  show ?thesis using assms(2,1,4,3) 2
    by (cases rule: drain_move.cases) (auto simp: flushes_ok_def started_def begun_log)
qed

lemma move_position:
  assumes "position_ok t" and "drain_move (cfg t) now (vars t) (pc t) x nxt" and "next_phase_ok now nxt ph"
  shows "position_ok (next_task now t x nxt ph)"
  using assms(3)
proof (cases rule: next_phase_cases)
  case (1 i due)
  show ?thesis using assms(2,1,3) 1
    by (cases rule: drain_move.cases) (auto simp: position_ok_def started_def begun_log)
next
  case (2 r)
  show ?thesis using assms(2,1,3) 2
    by (cases rule: drain_move.cases) (simp_all add: position_ok_def started_def begun_log)
qed

lemma idle_wait_number [simp]: "DRAIN_IDLE_WAIT_MS \<noteq> NaN"
  by (simp add: DRAIN_IDLE_WAIT_MS_def)

lemma move_passes:
  assumes "passes_ok t" and "cfg_ok t" and "iterations_ok t" and "drain_move (cfg t) now (vars t) (pc t) x nxt"
    and "next_phase_ok now nxt ph" and "phase t = Settled (Fulfilled x)"
  shows "passes_ok (next_task now t x nxt ph)"
  using assms(5)
proof (cases rule: next_phase_cases)
  case (1 i due)
  show ?thesis using assms(4,1,2,3,6,5) 1
    by (cases rule: drain_move.cases)
      (auto simp: passes_ok_def started_def begun_log credit_def cfg_ok_def idleWaitMs_full)
next
  case (2 r)
  show ?thesis using assms(4,1,2,3,6,5) 2
    by (cases rule: drain_move.cases)
      (auto simp: passes_ok_def started_def begun_log credit_def cfg_ok_def)
qed

lemma num_lt_le: "num_lt a b \<Longrightarrow> num_le a b"
  by (auto simp: num_lt_iff dest: num_le_total)

lemma sleep_positive:
  assumes "drain_move c now v p x (SleepFor ms w)" and "num_is_finite (delayBetweenCyclesMs c)"
  shows "num_le (num 0) ms"
proof -
  have z: "num_le (num 0) DRAIN_IDLE_WAIT_MS" by (simp add: DRAIN_IDLE_WAIT_MS_def)
  have i: "num_le (num 0) (idleWaitMs c)" using z idleWaitMs_full [OF assms(2)] by (rule num_le_trans)
  show ?thesis using assms(1)
    by (cases rule: drain_move.cases) (use z i in \<open>auto intro: num_lt_le\<close>)
qed

lemma move_time:
  assumes "time_ok now t" and "cfg_ok t" and "drain_move (cfg t) now (vars t) (pc t) x nxt"
    and "next_phase_ok now nxt ph" and "phase t = Settled (Fulfilled x)"
  shows "time_ok now (next_task now t x nxt ph)"
proof -
  have now: "began t + 250 * full_sleeps (log t) \<le> now" "began t \<le> now" "began t + 250 * (full_sleeps (log t) - 1) \<le> now"
    using assms(1,5) by (auto simp: time_ok_def)
  show ?thesis
  proof (cases nxt)
    case (SleepFor ms v)
    have pos: "num_le (num 0) ms" using sleep_positive assms(2,3) SleepFor by (auto simp: cfg_ok_def)
    show ?thesis using assms(4) now SleepFor timer_due_ge [OF pos, of now] timer_due_full [of ms now]
      by (auto simp: time_ok_def race_phase_def begun_log split: if_splits)
  qed (use assms(4) now in \<open>auto simp: time_ok_def race_phase_def begun_log\<close>)
qed

lemma move_inv:
  assumes "task_inv now t" and "phase t = Settled (Fulfilled x)" and "drain_move (cfg t) now (vars t) (pc t) x nxt"
    and "next_phase_ok now nxt ph"
  shows "task_inv now (next_task now t x nxt ph)"
proof -
  have inv: "cfg_ok t" "accounted t" "iterations_ok t" "flushes_ok t" "position_ok t" "passes_ok t" "time_ok now t"
    using assms(1) by (simp_all add: task_inv_def)
  have "cfg_ok (next_task now t x nxt ph)" using inv(1) by (cases nxt) (simp_all add: cfg_ok_def)
  moreover have "accounted (next_task now t x nxt ph)"
    using move_accounted [OF inv(2) assms(3)] assms(4) by (cases nxt) (simp_all add: accounted_begun)
  moreover note move_iterations [OF inv(3) assms(3,4)] move_flushes [OF inv(4) assms(3,4,2)]
    move_position [OF inv(5) assms(3,4)] move_passes [OF inv(6,1,3) assms(3,4,2)] move_time [OF inv(7,1) assms(3,4,2)]
  ultimately show ?thesis by (simp add: task_inv_def)
qed

lemma inv_ended: "task_inv now t \<Longrightarrow> ended_ok now t"
  unfolding task_inv_def ended_ok_def iterations_ok_def flushes_ok_def passes_ok_def time_ok_def credit_def
  by (auto split: if_splits)

lemma return_ended:
  assumes "task_inv now t" and "drain_move (cfg t) now (vars t) (pc t) x (Return r v)" and "phase t = Settled (Fulfilled x)"
  shows "ended_ok now (consumed t x v) \<and> reason_ok (consumed t x v) r"
proof
  have "accounted (consumed t x v)"
    using move_accounted [of t now x "Return r v"] assms(1,2) by (simp add: task_inv_def)
  moreover have "iterations v = iterations (vars t)" using assms(2) by (cases rule: drain_move.cases) simp_all
  ultimately show "ended_ok now (consumed t x v)"
    using inv_ended [OF assms(1)] by (simp add: ended_ok_def)
  show "reason_ok (consumed t x v) r"
    using assms(2,1,3)
    by (cases rule: drain_move.cases) (auto simp: reason_ok_def task_inv_def position_ok_def started_def)
qed

lemma task_inv_later: "task_inv now t \<Longrightarrow> now \<le> now' \<Longrightarrow> task_inv now' t"
  unfolding task_inv_def time_ok_def by (auto split: drain_phase.splits option.splits settlement.splits)

lemma outcome_ok_later: "outcome_ok now r \<Longrightarrow> now \<le> now' \<Longrightarrow> outcome_ok now' r"
  by (cases r) (auto simp: ended_ok_def)

lemma settle_task_inv:
  assumes "task_inv now t" and "phase t = Waiting i due sl"
    and "\<And>x. q = Fulfilled x \<Longrightarrow> (if pc t = AtSleep then x = Slept \<and> (\<exists>w. sl = Some w \<and> w \<le> now) else fits (pc t) x)"
    and "\<And>r. q = Stopped r \<Longrightarrow> r \<in> {CANCELLED, TIMEOUT}"
  shows "task_inv now (t\<lparr>phase := Settled q\<rparr>)"
proof -
  have "position_ok (t\<lparr>phase := Settled q\<rparr>)"
    using assms by (cases q) (auto simp: task_inv_def position_ok_def started_def)
  moreover have "time_ok now (t\<lparr>phase := Settled q\<rparr>)"
    using assms by (cases q) (auto simp: task_inv_def time_ok_def split: if_splits)
  moreover have "cfg_ok (t\<lparr>phase := Settled q\<rparr>)" "accounted (t\<lparr>phase := Settled q\<rparr>)"
      "iterations_ok (t\<lparr>phase := Settled q\<rparr>)" "flushes_ok (t\<lparr>phase := Settled q\<rparr>)" "passes_ok (t\<lparr>phase := Settled q\<rparr>)"
    using assms(1,2)
    by (auto simp: task_inv_def cfg_ok_def accounted_def iterations_ok_def below_max_def flushes_ok_def passes_ok_def started_def credit_def)
  ultimately show ?thesis by (simp add: task_inv_def)
qed

section \<open>Every handler keeps the invariant\<close>

lemma begin_wait_inv:
  assumes "active s" and "cancelWaiters s = []" and "\<forall>r \<in> set (outcomes s). outcome_ok (clock s) r"
    and "\<And>ph. race_phase (clock s) sl ph \<Longrightarrow> task_inv (clock s) (begun p sl ph t)"
  shows "drain_inv (begin_wait p sl t s)"
proof (cases rule: begin_wait_cases [of p sl t s])
  case (1 due)
  have "race_phase (clock s) sl (Waiting (nextId s) due (map_option (timer_due (clock s)) sl))"
    by (auto simp: race_phase_def)
  from assms(4) [OF this] show ?thesis
    using assms(1-3) 1 by (simp add: drain_inv_def waiter_ids_def)
next
  case (2 r)
  have "race_phase (clock s) sl (Settled (Stopped r))" using 2(2) by (auto simp: race_phase_def)
  from assms(4) [OF this] show ?thesis
    using assms(1-3) 2 by (simp add: drain_inv_def waiter_ids_def)
qed

lemma settle_current:
  assumes "drain_inv s" and "task s = Some t" and "phase t = Waiting i due sl"
  shows "settle i q s = s\<lparr>cancelWaiters := [], task := Some (t\<lparr>phase := Settled q\<rparr>)\<rparr>"
  using assms by (simp add: settle_def drain_inv_def waiter_ids_def)

lemma settle_other:
  assumes "drain_inv s" and "\<And>t due sl. task s = Some t \<Longrightarrow> phase t \<noteq> Waiting i due sl"
  shows "settle i q s = s"
proof -
  have "removeAll i (cancelWaiters s) = cancelWaiters s"
    using assms by (auto simp: drain_inv_def waiter_ids_def split: option.splits drain_phase.splits)
  then show ?thesis using assms(2) by (auto simp: settle_def Let_def split: option.splits drain_phase.splits)
qed

lemma settle_inv:
  assumes "drain_inv s"
    and "\<And>t due sl x. task s = Some t \<Longrightarrow> phase t = Waiting i due sl \<Longrightarrow> q = Fulfilled x \<Longrightarrow>
      (if pc t = AtSleep then x = Slept \<and> (\<exists>w. sl = Some w \<and> w \<le> clock s) else fits (pc t) x)"
    and "\<And>r. q = Stopped r \<Longrightarrow> r \<in> {CANCELLED, TIMEOUT}"
  shows "drain_inv (settle i q s)"
proof (cases "\<exists>t due sl. task s = Some t \<and> phase t = Waiting i due sl")
  case True
  then obtain t due sl where t: "task s = Some t" "phase t = Waiting i due sl" by blast
  have "task_inv (clock s) (t\<lparr>phase := Settled q\<rparr>)"
    by (rule settle_task_inv [OF _ t(2)]) (use assms t in \<open>auto simp: drain_inv_def\<close>)
  then show ?thesis
    using assms(1) t unfolding settle_current [OF assms(1) t] by (simp add: drain_inv_def waiter_ids_def)
next
  case False
  then show ?thesis using settle_other [OF assms(1)] assms(1) by metis
qed

lemma finish_inv:
  "drain_inv s \<Longrightarrow> outcome_ok (clock s) r \<Longrightarrow> task s = Some t \<Longrightarrow> phase t = Settled q \<Longrightarrow> drain_inv (finish r s)"
  by (simp add: drain_inv_def finish_def waiter_ids_def)

lemma finiteOr_finite: "num_is_finite d \<Longrightarrow> num_is_finite (finiteOr v d)"
  by (simp add: finiteOr_def split: option.split)

lemma runDrain_inv: "drain_inv s \<Longrightarrow> drain_inv (runDrain options s)"
proof (cases "active s")
  case True
  moreover assume "drain_inv s"
  ultimately show ?thesis by (auto simp: runDrain_def drain_inv_def)
next
  case False
  assume inv: "drain_inv s"
  let ?t = "\<lparr>cfg = drain_config options (clock s),
    vars = \<lparr>iterations = 0, itemsDispatched = 0, lastSize = None, cycleJustRan = False\<rparr>,
    pc = AtIsSyncing, phase = Settled (Stopped CANCELLED), log = [], began = clock s\<rparr>"
  have "cfg_ok ?t"
    by (simp add: cfg_ok_def drain_config_def finiteOr_finite DRAIN_DEFAULT_MAX_ITERATIONS_def)
  then have "task_inv (clock s) (begun AtIsSyncing None ph ?t)" if "race_phase (clock s) None ph" for ph
    using that by (auto simp: inv_defs race_phase_def begun_def)
  then have "drain_inv (begin_wait AtIsSyncing None ?t (s\<lparr>active := True, cancelled := False\<rparr>))"
    using inv False by (intro begin_wait_inv) (auto simp: drain_inv_def waiter_ids_def)
  then show ?thesis using False by (simp add: runDrain_def)
qed

lemma cancel_cases:
  assumes "drain_inv s"
  shows "cancelActiveDrain s =
    (case task s of
       None \<Rightarrow> s
     | Some t \<Rightarrow>
         (case phase t of
            Waiting i due sl \<Rightarrow>
              s\<lparr>cancelled := True, cancelWaiters := [], task := Some (t\<lparr>phase := Settled (Stopped CANCELLED)\<rparr>)\<rparr>
          | Settled q \<Rightarrow> s\<lparr>cancelled := True\<rparr>))"
  using assms
  by (auto simp: cancelActiveDrain_def drain_inv_def waiter_ids_def settle_def split: option.splits drain_phase.splits)

lemma cancel_inv: "drain_inv s \<Longrightarrow> drain_inv (cancelActiveDrain s)"
proof -
  assume inv: "drain_inv s"
  have t: "task_inv (clock s) (t\<lparr>phase := Settled (Stopped CANCELLED)\<rparr>)"
    if "task s = Some t" "phase t = Waiting i due sl" for t i due sl
    by (rule settle_task_inv [OF _ that(2)]) (use inv that in \<open>auto simp: drain_inv_def\<close>)
  show ?thesis unfolding cancel_cases [OF inv]
    using inv t by (auto simp: drain_inv_def waiter_ids_def split: option.splits drain_phase.splits)
qed

lemma resume_inv:
  assumes inv: "drain_inv s" and t: "task s = Some t" "phase t = Settled q" and r: "resume t q s = Some u"
  shows "drain_inv u"
proof -
  have ti: "task_inv (clock s) t" using inv t(1) by (simp add: drain_inv_def)
  have base: "active s" "cancelWaiters s = []" "\<forall>r \<in> set (outcomes s). outcome_ok (clock s) r"
    using inv t by (simp_all add: drain_inv_def waiter_ids_def)
  show ?thesis
  proof (cases q)
    case (Stopped reason)
    have "reason \<in> {CANCELLED, TIMEOUT}" using ti t(2) Stopped by (simp add: task_inv_def position_ok_def)
    then have "outcome_ok (clock s) (Finished (drain_result_of (vars t) reason) t)"
      using inv_ended [OF ti] by (auto simp: drain_result_of_def reason_ok_def)
    then show ?thesis using r Stopped finish_inv [OF inv _ t] by (auto simp: resume_def)
  next
    case (Rejected e)
    then show ?thesis using r inv_ended [OF ti] finish_inv [OF inv _ t] by (auto simp: resume_def)
  next
    case (Fulfilled x)
    let ?n = "after (cfg t) (clock s) (vars t) (pc t) x"
    have "?n \<noteq> Stuck" using after_total [of t x] ti t(2) Fulfilled by (simp add: task_inv_def)
    then have m: "drain_move (cfg t) (clock s) (vars t) (pc t) x ?n" by (intro after_move) auto
    note ph = t(2) [unfolded Fulfilled]
    have c: "t\<lparr>log := Saw x # log t, vars := v\<rparr> = consumed t x v" for v by (simp add: consumed_def)
    show ?thesis
    proof (cases ?n)
      case (Await p v)
      then have "u = begin_wait p None (consumed t x v) s" using r Fulfilled by (simp add: resume_def c)
      moreover have "task_inv (clock s) (begun p None f (consumed t x v))" if "race_phase (clock s) None f" for f
        using move_inv [OF ti ph m, of f] that Await by simp
      ultimately show ?thesis using begin_wait_inv base by blast
    next
      case (SleepFor ms v)
      then have "u = begin_wait AtSleep (Some ms) (consumed t x v) s" using r Fulfilled by (simp add: resume_def c)
      moreover have "task_inv (clock s) (begun AtSleep (Some ms) f (consumed t x v))" if "race_phase (clock s) (Some ms) f" for f
        using move_inv [OF ti ph m, of f] that SleepFor by simp
      ultimately show ?thesis using begin_wait_inv base by blast
    next
      case (Return reason v)
      then have "u = finish (Finished (drain_result_of v reason) (consumed t x v)) s" using r Fulfilled by (simp add: resume_def c)
      moreover have "outcome_ok (clock s) (Finished (drain_result_of v reason) (consumed t x v))"
        using return_ended [OF ti _ ph] m Return by (simp add: drain_result_of_def)
      ultimately show ?thesis using finish_inv [OF inv _ t] by simp
    qed (use \<open>?n \<noteq> Stuck\<close> in simp)
  qed
qed

lemma current_wait_iff:
  "current_wait s = Some (i, p, due, sl) \<longleftrightarrow> (\<exists>t. task s = Some t \<and> phase t = Waiting i due sl \<and> pc t = p)"
  by (auto simp: current_wait_def split: option.splits drain_phase.splits)

lemma handle_inv:
  assumes inv: "drain_inv s" and h: "handle e s = Some u"
  shows "drain_inv u"
proof (cases e)
  case (Start options)
  then show ?thesis using h runDrain_inv [OF inv] by (auto simp: handle_def)
next
  case Cancel
  then show ?thesis using h cancel_inv [OF inv] by (auto simp: handle_def)
next
  case (Reply i x)
  then have u: "u = settle i (Fulfilled x) s"
    and fit: "\<And>p due sl. current_wait s = Some (i, p, due, sl) \<Longrightarrow> fits p x"
    using h by (auto simp: handle_def split: if_splits)
  have "(if pc t = AtSleep then y = Slept \<and> (\<exists>w. sl = Some w \<and> w \<le> clock s) else fits (pc t) y)"
    if "task s = Some t" "phase t = Waiting i due sl" "Fulfilled x = Fulfilled y" for t due sl y
    using fit [of "pc t" due sl] that current_wait_iff [of s] by (cases "pc t") auto
  then show ?thesis unfolding u by (intro settle_inv [OF inv]) auto
next
  case (Fail i err)
  then have u: "u = settle i (Rejected err) s" using h by (auto simp: handle_def split: if_splits)
  show ?thesis unfolding u by (intro settle_inv [OF inv]) auto
next
  case (DeadlineTimer i)
  then have u: "u = settle i (Stopped TIMEOUT) s" using h by (auto simp: handle_def split: option.splits if_splits)
  show ?thesis unfolding u by (intro settle_inv [OF inv]) auto
next
  case (SleepTimer i)
  then obtain p due w where c: "current_wait s = Some (i, p, due, Some w)" "w \<le> clock s" and u: "u = settle i (Fulfilled Slept) s"
    using h by (auto simp: handle_def split: option.splits if_splits)
  have "pc t = AtSleep \<and> sl = Some w" if "task s = Some t" "phase t = Waiting i due' sl" for t due' sl
    using that c(1) inv unfolding current_wait_iff by (auto simp: drain_inv_def task_inv_def position_ok_def)
  then show ?thesis unfolding u using c(2) by (intro settle_inv [OF inv]) auto
next
  case Resume
  then show ?thesis using h resume_inv [OF inv] by (auto simp: handle_def split: option.splits drain_phase.splits)
next
  case (Tick n)
  then have u: "u = s\<lparr>clock := clock s + int n\<rparr>" using h by (simp add: handle_def)
  then show ?thesis using inv by (auto simp: drain_inv_def intro: task_inv_later outcome_ok_later)
qed

interpretation drain: invariant_system drain_init drain_step drain_inv
proof unfold_locales
  show "drain_inv s" if "drain_init s" for s
    using that by (simp add: drain_init_def drain_inv_def waiter_ids_def)
  show "drain_inv t" if "drain_inv s" and "drain_step s e t" for s e t
    using that handle_inv by (simp add: drain_step_iff)
qed

section \<open>Deadline timers are due by the deadline\<close>

definition due_ok :: "drain_sys \<Rightarrow> bool" where
  "due_ok s \<longleftrightarrow>
     (\<forall>t i due sl d. task s = Some t \<and> phase t = Waiting i due sl \<and> deadlineAt (cfg t) = Fin d \<longrightarrow> due \<le> \<lceil>d\<rceil>)"

lemma dround_le_ceiling: "\<bar>\<lceil>x\<rceil>\<bar> \<le> 2 ^ 53 \<Longrightarrow> num_le (dround x) (num \<lceil>x\<rceil>)"
  using dround_mono [of x "of_int \<lceil>x\<rceil>"] dround_int [of "\<lceil>x\<rceil>"] by simp

lemma timer_due_deadline:
  assumes "\<not> num_le (num_sub (Fin d) (num now)) (num 0)"
  shows "timer_due now (num_sub (Fin d) (num now)) \<le> \<lceil>d\<rceil>"
proof -
  let ?x = "d - of_int now"
  have sub: "num_sub (Fin d) (num now) = dround ?x" by (simp add: num_sub_def)
  have pos: "0 < ?x" using assms dround_mono [of ?x 0] unfolding sub by force
  have "timer_ms (num_min (dround ?x) MAX_TIMER_DELAY_MS) \<le> \<lceil>?x\<rceil>"
  proof (cases "?x \<le> 2147483647")
    case True
    have c: "\<lceil>?x\<rceil> \<le> 2147483647" "0 \<le> \<lceil>?x\<rceil>"
      unfolding ceiling_le_iff zero_le_ceiling using True pos by (simp, linarith)
    then have "num_le (dround ?x) (num \<lceil>?x\<rceil>)" by (intro dround_le_ceiling) simp
    moreover have "num_le (num_min (dround ?x) MAX_TIMER_DELAY_MS) (dround ?x)"
      using num_min_le [of "dround ?x" MAX_TIMER_DELAY_MS] by (simp add: num_min_def MAX_TIMER_DELAY_MS_def)
    ultimately have "num_le (num_min (dround ?x) MAX_TIMER_DELAY_MS) (num \<lceil>?x\<rceil>)" using num_le_trans by blast
    then show ?thesis using c by (cases "num_min (dround ?x) MAX_TIMER_DELAY_MS") (simp_all add: floor_le_iff)
  next
    case False
    have "num_le (num_min (dround ?x) MAX_TIMER_DELAY_MS) MAX_TIMER_DELAY_MS"
      using num_min_le [of "dround ?x" MAX_TIMER_DELAY_MS] by (simp add: num_min_def MAX_TIMER_DELAY_MS_def)
    then have "timer_ms (num_min (dround ?x) MAX_TIMER_DELAY_MS) \<le> 2147483647"
      by (cases "num_min (dround ?x) MAX_TIMER_DELAY_MS") (auto simp: MAX_TIMER_DELAY_MS_def floor_le_iff)
    moreover have "2147483647 \<le> \<lceil>?x\<rceil>" unfolding le_ceiling_iff using False by simp
    ultimately show ?thesis by linarith
  qed
  then show ?thesis unfolding timer_due_def sub by (simp add: ceiling_diff_of_int)
qed

lemma begin_wait_due: "due_ok (begin_wait p sl t s)"
  unfolding due_ok_def begin_wait_def raceWithStop_def Let_def
  using timer_due_deadline by auto

lemma settle_due: "due_ok s \<Longrightarrow> due_ok (settle i q s)"
  by (auto simp: due_ok_def settle_def Let_def split: option.splits drain_phase.splits)

lemma handle_due:
  assumes "drain_inv s" and "due_ok s" and "handle e s = Some u"
  shows "due_ok u"
proof (cases e)
  case (Start options)
  have "due_ok (s\<lparr>outcomes := rs\<rparr>)" for rs using assms(2) by (simp add: due_ok_def)
  then have "due_ok (runDrain options s)" unfolding runDrain_def Let_def by (simp add: begin_wait_due)
  then show ?thesis using Start assms(3) by (simp add: handle_def)
next
  case Cancel
  then have "u = cancelActiveDrain s" using assms(3) by (simp add: handle_def)
  then show ?thesis using assms(2) unfolding cancel_cases [OF assms(1)]
    by (auto simp: due_ok_def split: option.splits drain_phase.splits)
next
  case Resume
  then show ?thesis using assms(3) begin_wait_due
    by (auto simp: handle_def resume_def Let_def finish_def due_ok_def [of "finish _ _"] due_ok_def
      split: option.splits drain_phase.splits settlement.splits drain_next.splits)
next
  case (Tick n)
  then show ?thesis using assms by (auto simp: handle_def due_ok_def)
qed (use assms settle_due in \<open>auto simp: handle_def split: option.splits if_splits\<close>)

interpretation drain_due: invariant_system drain_init drain_step "\<lambda>s. drain_inv s \<and> due_ok s"
proof unfold_locales
  show "drain_inv s \<and> due_ok s" if "drain_init s" for s
    using that drain.inv_init by (simp add: drain_init_def due_ok_def)
  show "drain_inv t \<and> due_ok t" if "drain_inv s \<and> due_ok s" and "drain_step s e t" for s e t
    using that handle_inv handle_due by (auto simp: drain_step_iff)
qed

lemma soonest_from_Some:
  assumes "num_lt now s"
  shows "\<exists>r. soonest_from now (Some s) items = Some r \<and> num_lt now r \<and> num_le r s \<and>
    (r = s \<or> r \<in> item_nextRetryAt ` set items) \<and> (\<forall>i \<in> set items. num_lt now (item_nextRetryAt i) \<longrightarrow> num_le r (item_nextRetryAt i))"
  using assms
proof (induction items arbitrary: s)
  case Nil
  then show ?case by (auto simp: num_lt_iff)
next
  case (Cons i items)
  let ?x = "item_nextRetryAt i"
  show ?case
  proof (cases "num_lt now ?x \<and> num_lt ?x s")
    case True
    from Cons.IH [of ?x] True obtain r where "soonest_from now (Some ?x) items = Some r" "num_lt now r" "num_le r ?x"
      "r = ?x \<or> r \<in> item_nextRetryAt ` set items" "\<forall>i \<in> set items. num_lt now (item_nextRetryAt i) \<longrightarrow> num_le r (item_nextRetryAt i)"
      by blast
    moreover have "num_le r s" using \<open>num_le r ?x\<close> True num_lt_le num_le_trans by blast
    ultimately show ?thesis using True by (auto simp: Let_def)
  next
    case False
    from Cons.IH [OF Cons.prems] obtain r where r: "soonest_from now (Some s) items = Some r" "num_lt now r" "num_le r s"
      "r = s \<or> r \<in> item_nextRetryAt ` set items" "\<forall>i \<in> set items. num_lt now (item_nextRetryAt i) \<longrightarrow> num_le r (item_nextRetryAt i)"
      by blast
    moreover have "num_le r ?x" if "num_lt now ?x"
    proof -
      have "num_le s ?x" using False that Cons.prems by (auto simp: num_lt_iff)
      then show ?thesis using r(3) num_le_trans by blast
    qed
    ultimately show ?thesis using False by (auto simp: Let_def)
  qed
qed

lemma soonest_None:
  "soonest_from now None items = None \<longleftrightarrow> (\<forall>i \<in> set items. \<not> num_lt now (item_nextRetryAt i))"
proof (induction items)
  case (Cons i items)
  then show ?case using soonest_from_Some [of now "item_nextRetryAt i" items]
    by (auto simp: Let_def)
qed simp

lemma soonest_Some:
  assumes "soonest_from now None items = Some r"
  shows "r \<in> item_nextRetryAt ` set items \<and> num_lt now r \<and>
    (\<forall>i \<in> set items. num_lt now (item_nextRetryAt i) \<longrightarrow> num_le r (item_nextRetryAt i))"
  using assms
proof (induction items)
  case (Cons i items)
  show ?case
  proof (cases "num_lt now (item_nextRetryAt i)")
    case True
    then show ?thesis using soonest_from_Some [of now "item_nextRetryAt i" items] Cons.prems by (auto simp: Let_def)
  next
    case False
    then show ?thesis using Cons by (auto simp: Let_def)
  qed
qed simp

lemma past_deadline:
  assumes "num_le d (num now)"
  shows "raceWithStop False now d i sl = Settled (Stopped TIMEOUT)"
proof -
  have "num_le (num_sub d (num now)) (num 0)"
    using assms dround_mono [of "x - of_int now" 0 for x] by (cases d) (auto simp: num_sub_def)
  then show ?thesis by (simp add: raceWithStop_def)
qed

lemma begin_wait_past:
  assumes "num_le (deadlineAt (cfg t)) (num (clock s))"
  shows "begin_wait p sl t s =
    s\<lparr>task := Some (t\<lparr>pc := p, phase := Settled (Stopped (if cancelled s then CANCELLED else TIMEOUT))\<rparr>)\<rparr>"
  using past_deadline [OF assms, of "nextId s" sl]
  by (cases "cancelled s") (simp_all add: begin_wait_def raceWithStop_def)

lemma resume_stopped:
  "task s = Some t \<Longrightarrow> phase t = Settled (Stopped r) \<Longrightarrow>
     handle Resume s = Some (finish (Finished (drain_result_of (vars t) r) t) s)"
  by (simp add: handle_def resume_def)

text \<open>
  How a drain ends once its deadline is over: a wait is stopped with \<open>TIMEOUT\<close>; an answer the loop
  already has still decides if it ends the loop, and otherwise the next wait is refused.
\<close>

definition late_outcome :: "drain_sys \<Rightarrow> drain_task \<Rightarrow> drain_outcome \<Rightarrow> bool" where
  "late_outcome s t q \<longleftrightarrow>
     (let refused = (if cancelled s then CANCELLED else TIMEOUT)
      in case phase t of
           Waiting i due sl \<Rightarrow> (\<exists>k. q = Finished (drain_result_of (vars t) TIMEOUT) k)
         | Settled (Stopped r) \<Rightarrow> q = Finished (drain_result_of (vars t) r) t
         | Settled (Rejected e) \<Rightarrow> q = Failed e t
         | Settled (Fulfilled x) \<Rightarrow>
             (case after (cfg t) (clock s) (vars t) (pc t) x of
                Return r v \<Rightarrow> (\<exists>k. q = Finished (drain_result_of v r) k)
              | Await p v \<Rightarrow> (\<exists>k. q = Finished (drain_result_of v refused) k)
              | SleepFor ms v \<Rightarrow> (\<exists>k. q = Finished (drain_result_of v refused) k)
              | Stuck \<Rightarrow> False))"

lemma resume_past_deadline:
  assumes inv: "drain_inv s" and t: "task s = Some t" "phase t = Settled q"
    and late: "num_le (deadlineAt (cfg t)) (num (clock s))"
  shows "\<exists>es u d. set es \<subseteq> {Resume} \<and> run_events es s = Some u \<and> \<not> active u \<and> clock u = clock s \<and>
    outcomes u = d # outcomes s \<and> late_outcome s t d"
proof -
  have ti: "task_inv (clock s) t" using inv t(1) by (simp add: drain_inv_def)
  have once: ?thesis if "handle Resume s = Some (finish d s)" "late_outcome s t d" for d
    using that by (intro exI [of _ "[Resume]"] exI [of _ "finish d s"] exI [of _ d]) (simp add: finish_def)
  let ?refused = "if cancelled s then CANCELLED else TIMEOUT"
  have twice: ?thesis
    if h: "handle Resume s = Some (s\<lparr>task := Some k\<rparr>)" "phase k = Settled (Stopped ?refused)"
      and o: "late_outcome s t (Finished (drain_result_of (vars k) ?refused) k)" for k
  proof -
    have "handle Resume (s\<lparr>task := Some k\<rparr>) =
        Some (finish (Finished (drain_result_of (vars k) ?refused) k) (s\<lparr>task := Some k\<rparr>))"
      by (rule resume_stopped) (use h(2) in simp_all)
    then show ?thesis using h(1) o
      by (intro exI [of _ "[Resume, Resume]"] exI [of _ "finish (Finished (drain_result_of (vars k) ?refused) k) (s\<lparr>task := Some k\<rparr>)"]
          exI [of _ "Finished (drain_result_of (vars k) ?refused) k"]) (simp add: finish_def)
  qed
  show ?thesis
  proof (cases q)
    case (Fulfilled x)
    have some: "after (cfg t) (clock s) (vars t) (pc t) x \<noteq> Stuck"
      using after_total [of t x] ti t(2) Fulfilled by (simp add: task_inv_def)
    let ?t = "t\<lparr>log := Saw x # log t\<rparr>"
    note step = handle_def resume_def begin_wait_past late_outcome_def Let_def
    show ?thesis
    proof (cases "after (cfg t) (clock s) (vars t) (pc t) x")
      case (Await p v)
      show ?thesis by (rule twice [of "?t\<lparr>vars := v, pc := p, phase := Settled (Stopped ?refused)\<rparr>"])
        (use t Fulfilled late Await in \<open>simp_all add: step\<close>)
    next
      case (SleepFor ms v)
      show ?thesis by (rule twice [of "?t\<lparr>vars := v, pc := AtSleep, phase := Settled (Stopped ?refused)\<rparr>"])
        (use t Fulfilled late SleepFor in \<open>simp_all add: step\<close>)
    next
      case (Return r v)
      show ?thesis by (rule once [of "Finished (drain_result_of v r) (?t\<lparr>vars := v\<rparr>)"])
        (use t Fulfilled Return in \<open>simp_all add: step\<close>)
    qed (use some in simp)
  next
    case (Stopped r)
    show ?thesis by (rule once [of "Finished (drain_result_of (vars t) r) t"])
      (use t Stopped in \<open>simp_all add: handle_def resume_def late_outcome_def\<close>)
  next
    case (Rejected e)
    show ?thesis by (rule once [of "Failed e t"]) (use t Rejected in \<open>simp_all add: handle_def resume_def late_outcome_def\<close>)
  qed
qed

end
