(* ===== verification/Drain_Properties.thy ===== *)
theory Drain_Properties
  imports Drain_Proofs
begin

text \<open>
  The properties of the drain loop, with runs of it from a fresh process as their examples.
\<close>

section \<open>Example runs\<close>

definition drain_fresh :: drain_sys where
  "drain_fresh =
     \<lparr>clock = 0, active = False, cancelled = False, cancelWaiters = [], nextId = 0, task = None, outcomes = []\<rparr>"

definition default_options :: drain_options where
  "default_options = \<lparr>dopt_maxIterations = None, dopt_timeoutMs = None, dopt_delayBetweenCyclesMs = None\<rparr>"

definition online :: connection_state where
  "online = \<lparr>conn_status = CONNECTED, conn_type = WIFI, conn_isInternetReachable = None, conn_isExpensive = None\<rparr>"

definition example_run :: "drain_event list" where
  "example_run =
     [Start default_options, Reply 0 (GotBool False), Resume, Reply 1 (GotSize 2), Resume,
      Reply 2 (GotConnection online), Resume, Reply 3 GotFlush, Resume, Reply 4 (GotBool False), Resume,
      Reply 5 (GotSize 0), Resume, Reply 6 (GotBool False), Resume]"


lemma race_at_0:
  assumes "(numeral d :: int) \<le> 2 ^ 53"
  shows "raceWithStop b 0 (Fin (numeral d)) i sl =
    (if b then Settled (Stopped CANCELLED) else Waiting i (min (numeral d) 2147483647) (map_option (timer_due 0) sl))"
proof -
  have "dround (numeral d) = Fin (numeral d)" using assms by (rule dround_numeral)
  then show ?thesis by (simp add: raceWithStop_def num_sub_def timer_due_def MAX_TIMER_DELAY_MS_def min_def)
qed

lemma default_config: "drain_config default_options 0 = \<lparr>maxIterations = Fin 32, delayBetweenCyclesMs = Fin 0, deadlineAt = Fin 60000\<rparr>"
  by (simp add: drain_config_def default_options_def finiteOr_def DRAIN_DEFAULT_MAX_ITERATIONS_def DRAIN_DEFAULT_TIMEOUT_MS_def dround_numeral)

lemmas run_simps =
  handle_def runDrain_def default_config begin_wait_def race_at_0 settle_def resume_def after_def after_size_def
  after_connection_def after_pending_def current_wait_def removed_count_def finish_def cancelActiveDrain_def sleep_or_connection_def

lemma reachable_fresh_drain: "reachable drain_init drain_step drain_fresh"
  by (rule reach_init) (simp add: drain_init_def drain_fresh_def)

lemma reachable_run: "run_events es drain_fresh = Some u \<Longrightarrow> reachable drain_init drain_step u"
  by (rule run_events_reachable [OF reachable_fresh_drain])

definition null_rejection :: thrown where
  "null_rejection = OtherValue JNull"

definition waiting_state :: drain_sys where
  "waiting_state = the (run_events [Start default_options] drain_fresh)"

definition finished_state :: drain_sys where
  "finished_state = the (run_events example_run drain_fresh)"

lemma waiting_run: "run_events [Start default_options] drain_fresh = Some waiting_state"
  by (simp add: waiting_state_def drain_fresh_def run_simps)

lemma finished_run: "run_events example_run drain_fresh = Some finished_state"
  by (simp add: finished_state_def example_run_def drain_fresh_def online_def run_simps)

lemmas reachable_waiting = reachable_run [OF waiting_run]
lemmas reachable_finished = reachable_run [OF finished_run]

lemma waiting_task:
  "\<exists>t. task waiting_state = Some t \<and> phase t = Waiting 0 60000 None \<and> deadlineAt (cfg t) = Fin 60000 \<and> pc t = AtIsSyncing"
  by (simp add: waiting_state_def drain_fresh_def run_simps)

lemma finished_outcome:
  "\<exists>t. outcomes finished_state =
     [Finished \<lparr>dres_iterations = 1, dres_itemsDispatched = 2, dres_queueRemaining = 0, dres_stoppedReason = EMPTY\<rparr> t]"
  by (simp add: finished_state_def example_run_def drain_fresh_def online_def run_simps drain_result_of_def)

section \<open>Properties\<close>

lemma outcome_facts:
  assumes "reachable drain_init drain_step s" and "Finished r t \<in> set (outcomes s)"
  shows "ended_ok (clock s) t" "reason_ok t (dres_stoppedReason r)" "r = drain_result_of (vars t) (dres_stoppedReason r)"
  using drain.reachable_inv [OF assms(1)] assms(2) by (auto simp: drain_inv_def)

text \<open>C1: one drain runs at a time. In every reachable state the lock is held exactly while a loop
  exists; without one the cancel flag is clear and no waiter is left, so every exit released
  everything; a start during a drain is refused with \<open>DRAIN_ALREADY_ACTIVE\<close> and changes nothing
  else; and a start after it takes the lock.\<close>

theorem drain_lock:
  assumes "reachable drain_init drain_step s"
  shows "(active s \<longleftrightarrow> task s \<noteq> None) \<and> (\<not> active s \<longrightarrow> \<not> cancelled s \<and> cancelWaiters s = []) \<and>
    length (cancelWaiters s) \<le> 1 \<and>
    (active s \<longrightarrow> runDrain options s = s\<lparr>outcomes := Refused already_active_error # outcomes s\<rparr>) \<and>
    (\<not> active s \<longrightarrow> active (runDrain options s))"
proof -
  have inv: "drain_inv s" by (rule drain.reachable_inv [OF assms])
  have "active (begin_wait p sl t v) = active v" for p sl t v
    by (cases rule: begin_wait_cases [of p sl t v]) simp_all
  then show ?thesis using inv
    by (auto simp: drain_inv_def waiter_ids_def runDrain_def Let_def split: option.splits drain_phase.splits)
qed

lemma drain_lock_witness:
  "active waiting_state \<and> runDrain default_options waiting_state =
     waiting_state\<lparr>outcomes := Refused already_active_error # outcomes waiting_state\<rparr>"
  using drain_lock [OF reachable_waiting, of default_options] waiting_task by auto

text \<open>C2: a drain reports \<open>EMPTY\<close> only after it saw a queue size of 0 and then saw, as the last
  thing before it returned, that no cycle was running; its remaining count is then 0.\<close>

theorem drain_empty_is_empty:
  assumes "reachable drain_init drain_step s" and "Finished r t \<in> set (outcomes s)" and "dres_stoppedReason r = EMPTY"
  shows "(\<exists>l. log t = Saw (GotBool False) # Called AtRecheck # Saw (GotSize 0) # l) \<and> dres_queueRemaining r = 0"
proof -
  have l: "\<exists>l. log t = Saw (GotBool False) # Called AtRecheck # Saw (GotSize 0) # l"
    using outcome_facts(2) [OF assms(1,2)] assms(3) by (simp add: reason_ok_def)
  then have "lastSize (vars t) = Some 0"
    using outcome_facts(1) [OF assms(1,2)] by (auto simp: ended_ok_def accounted_def)
  moreover have "dres_queueRemaining r = (case lastSize (vars t) of None \<Rightarrow> 0 | Some n \<Rightarrow> n)"
    using outcome_facts(3) [OF assms(1,2)] by (metis drain_result.select_convs(3) drain_result_of_def)
  ultimately show ?thesis using l by simp
qed

lemma drain_empty_is_empty_witness:
  "\<exists>r t l. outcomes finished_state = [Finished r t] \<and> log t = Saw (GotBool False) # Called AtRecheck # Saw (GotSize 0) # l"
proof -
  obtain t where o: "outcomes finished_state =
     [Finished \<lparr>dres_iterations = 1, dres_itemsDispatched = 2, dres_queueRemaining = 0, dres_stoppedReason = EMPTY\<rparr> t]"
    using finished_outcome by blast
  then show ?thesis using drain_empty_is_empty [OF reachable_finished, of _ t] by auto
qed

lemma flush_online_split: "flush_online (l @ Called AtFlush # m) \<Longrightarrow> online_entry m"
  by (induction l) auto

lemma online_entry_iff: "online_entry m \<longleftrightarrow> (\<exists>k n. m = Saw (GotConnection k) # n \<and> conn_status k \<noteq> DISCONNECTED)"
  by (cases m rule: online_entry.cases) auto

text \<open>C3: the loop never flushes offline: in the history of every loop, running or ended, each
  flush directly follows a connection state whose status is not \<open>DISCONNECTED\<close>.\<close>

theorem drain_never_flushes_offline:
  assumes "reachable drain_init drain_step s"
    and "task s = Some t \<or> Finished r t \<in> set (outcomes s) \<or> Failed e t \<in> set (outcomes s)"
    and "log t = l @ Called AtFlush # m"
  shows "\<exists>k n. m = Saw (GotConnection k) # n \<and> conn_status k \<noteq> DISCONNECTED"
proof -
  have "flush_online (log t)"
    using drain.reachable_inv [OF assms(1)] assms(2)
    by (auto simp: drain_inv_def task_inv_def flushes_ok_def ended_ok_def)
  then show ?thesis using assms(3) flush_online_split online_entry_iff by metis
qed

lemma drain_never_flushes_offline_witness:
  "\<exists>t l m k n. Finished (drain_result_of (vars t) EMPTY) t \<in> set (outcomes finished_state) \<and>
     log t = l @ Called AtFlush # m \<and> m = Saw (GotConnection k) # n \<and> conn_status k \<noteq> DISCONNECTED"
proof -
  obtain t l m where o: "Finished (drain_result_of (vars t) EMPTY) t \<in> set (outcomes finished_state)"
      and l: "log t = l @ Called AtFlush # m"
  proof -
    let ?t = "case hd (outcomes finished_state) of Finished r t \<Rightarrow> t"
    have "log ?t = take 7 (log ?t) @ Called AtFlush # drop 8 (log ?t)"
      and "Finished (drain_result_of (vars ?t) EMPTY) ?t \<in> set (outcomes finished_state)"
      by (simp_all add: finished_state_def example_run_def drain_fresh_def online_def run_simps)
    then show ?thesis by (rule that [rotated])
  qed
  from drain_never_flushes_offline [OF reachable_finished disjI2 [OF disjI1 [OF o]] l] o l show ?thesis by blast
qed

text \<open>C4: \<open>maxIterations\<close> bounds the flushes: a drain counts an iteration only while the count is
  below the bound, calls flush at most once per counted iteration and counts at most one flush that
  was not called; it stops with \<open>MAX_ITERATIONS\<close> only at the bound and with a non-empty queue.\<close>

theorem drain_iteration_bound:
  assumes "reachable drain_init drain_step s" and "Finished r t \<in> set (outcomes s)"
  shows "0 \<le> dres_iterations r \<and>
    (0 < dres_iterations r \<longrightarrow> \<not> num_le (maxIterations (cfg t)) (num (dres_iterations r - 1))) \<and>
    flush_calls (log t) \<le> dres_iterations r \<and> dres_iterations r \<le> flush_calls (log t) + 1 \<and>
    (dres_stoppedReason r = MAX_ITERATIONS \<longrightarrow>
       num_le (maxIterations (cfg t)) (num (dres_iterations r)) \<and> dres_queueRemaining r \<noteq> 0)"
proof -
  have it: "dres_iterations r = iterations (vars t)"
    and q: "dres_queueRemaining r = (case lastSize (vars t) of None \<Rightarrow> 0 | Some n \<Rightarrow> n)"
    using outcome_facts(3) [OF assms] by (metis drain_result.select_convs(1,3) drain_result_of_def)+
  show ?thesis unfolding it q
    using outcome_facts(1,2) [OF assms] by (auto simp: ended_ok_def reason_ok_def below_max_def accounted_def)
qed

lemma drain_iteration_bound_witness:
  "\<exists>r t. outcomes finished_state = [Finished r t] \<and> flush_calls (log t) \<le> dres_iterations r"
  using drain_iteration_bound [OF reachable_finished] finished_outcome by force

text \<open>C5: the counters are honest: \<open>itemsDispatched\<close> is the sum of the decreases between
  successive sizes the loop read (increases count nothing), it is never negative, and
  \<open>queueRemaining\<close> is the last size read, 0 when none was.\<close>

theorem drain_accounting:
  assumes "reachable drain_init drain_step s" and "Finished r t \<in> set (outcomes s)"
  shows "dres_itemsDispatched r = drops (sizes_of (log t)) \<and> 0 \<le> dres_itemsDispatched r \<and>
    dres_queueRemaining r = (case sizes_of (log t) of [] \<Rightarrow> 0 | n # _ \<Rightarrow> n)"
proof -
  have "dres_itemsDispatched r = itemsDispatched (vars t)"
    and q: "dres_queueRemaining r = (case lastSize (vars t) of None \<Rightarrow> 0 | Some n \<Rightarrow> n)"
    using outcome_facts(3) [OF assms] by (metis drain_result.select_convs(2,3) drain_result_of_def)+
  moreover have "0 \<le> drops l" for l by (induction l rule: drops.induct) simp_all
  ultimately show ?thesis
    using outcome_facts(1) [OF assms] by (auto simp: ended_ok_def accounted_def split: list.split)
qed

lemma drain_accounting_witness:
  "\<exists>t. Finished \<lparr>dres_iterations = 1, dres_itemsDispatched = 2, dres_queueRemaining = 0, dres_stoppedReason = EMPTY\<rparr> t
       \<in> set (outcomes finished_state) \<and> drops (sizes_of (log t)) = 2"
  using drain_accounting [OF reachable_finished] finished_outcome by force

text \<open>C6: the loop cannot spin. The number of passes it makes is at most twice its iterations plus 2
  plus one for each full 250 ms that went by since it began, whatever the native side answers.\<close>

theorem drain_never_spins:
  assumes "reachable drain_init drain_step s"
    and "task s = Some t \<or> Finished r t \<in> set (outcomes s) \<or> Failed e t \<in> set (outcomes s)"
  shows "passes (log t) \<le> 2 * iterations (vars t) + 2 + (clock s - began t) div 250"
proof -
  have "ended_ok (clock s) t"
    using drain.reachable_inv [OF assms(1)] assms(2) inv_ended by (auto simp: drain_inv_def)
  then have "250 * (passes (log t) - 2 * iterations (vars t) - 2) \<le> clock s - began t" by (simp add: ended_ok_def)
  then have "(250 * (passes (log t) - 2 * iterations (vars t) - 2)) div 250 \<le> (clock s - began t) div 250"
    by (rule zdiv_mono1) simp
  then show ?thesis by simp
qed

lemma drain_never_spins_witness:
  "\<exists>t. task waiting_state = Some t \<and> passes (log t) \<le> 2 * iterations (vars t) + 2 + (clock waiting_state - began t) div 250"
  using drain_never_spins [OF reachable_waiting] waiting_task by blast

text \<open>C9: a cancel takes effect at once on a drain that waits, with no help from the native side:
  the next thing the loop does is end with \<open>CANCELLED\<close>, the lock released.\<close>

theorem drain_cancel_waiting:
  assumes "reachable drain_init drain_step s" and "task s = Some t" and "phase t = Waiting i due sl"
  shows "\<exists>u k. run_events [Cancel, Resume] s = Some u \<and> \<not> active u \<and> cancelWaiters u = [] \<and>
    outcomes u = Finished (drain_result_of (vars t) CANCELLED) k # outcomes s"
proof -
  have inv: "drain_inv s" by (rule drain.reachable_inv [OF assms(1)])
  have "cancelActiveDrain s =
      s\<lparr>cancelled := True, cancelWaiters := [], task := Some (t\<lparr>phase := Settled (Stopped CANCELLED)\<rparr>)\<rparr>"
    using cancel_cases [OF inv] assms(2,3) by simp
  then show ?thesis by (simp add: handle_def resume_def finish_def)
qed

lemma drain_cancel_waiting_witness:
  "\<exists>u. run_events [Cancel, Resume] waiting_state = Some u \<and> \<not> active u"
  using drain_cancel_waiting [OF reachable_waiting] waiting_task by blast

text \<open>a cancel without an active drain, a native answer to a wait that was abandoned and a
  late rejection change nothing at all.\<close>

theorem drain_ignores_late_events:
  assumes "reachable drain_init drain_step s"
  shows "(\<not> active s \<longrightarrow> handle Cancel s = Some s) \<and>
    (\<forall>i x err. (\<forall>t due sl. task s = Some t \<longrightarrow> phase t \<noteq> Waiting i due sl) \<longrightarrow>
       handle (Reply i x) s \<in> {None, Some s} \<and> handle (Fail i err) s \<in> {None, Some s})"
  using settle_other [OF drain.reachable_inv [OF assms]] by (auto simp: handle_def cancelActiveDrain_def)

lemma drain_ignores_late_events_witness:
  "handle Cancel finished_state = Some finished_state \<and> handle (Fail 3 null_rejection) finished_state \<in> {None, Some finished_state}"
proof -
  have "\<not> active finished_state" "task finished_state = None"
    by (simp_all add: finished_state_def example_run_def drain_fresh_def online_def run_simps)
  then show ?thesis using drain_ignores_late_events [OF reachable_finished] by simp
qed

text \<open>C8: the deadline is a hard stop: in every reachable state past a running drain's deadline,
  the drain ends by its own deadline timer and continuations, at the current instant and without
  any native answer. If it waits it ends with \<open>TIMEOUT\<close> and its counters so far. If it already has
  the answer to its wait, that answer decides when it ends the loop (\<open>EMPTY\<close>, \<open>MAX_ITERATIONS\<close>, a
  rejection, an earlier stop); otherwise the drain ends with \<open>TIMEOUT\<close>, or \<open>CANCELLED\<close> after a cancel.\<close>

theorem drain_hard_deadline:
  assumes "reachable drain_init drain_step s" and "task s = Some t" and "deadlineAt (cfg t) = Fin d"
    and "d \<le> of_int (clock s)"
  shows "\<exists>es u q. set es \<subseteq> {Resume} \<union> range DeadlineTimer \<and> run_events es s = Some u \<and> \<not> active u \<and> clock u = clock s \<and>
    outcomes u = q # outcomes s \<and> late_outcome s t q"
proof -
  have inv: "drain_inv s" and due: "due_ok s" using drain_due.reachable_inv [OF assms(1)] by auto
  show ?thesis
  proof (cases "phase t")
    case (Waiting i due sl)
    have "due \<le> \<lceil>d\<rceil>" using due assms(2,3) Waiting by (auto simp: due_ok_def)
    also have "\<dots> \<le> clock s" using assms(4) by (simp add: ceiling_le_iff)
    finally have "handle (DeadlineTimer i) s = Some (settle i (Stopped TIMEOUT) s)"
      using assms(2) Waiting by (simp add: handle_def current_wait_def)
    then have "run_events [DeadlineTimer i, Resume] s =
        Some (finish (Finished (drain_result_of (vars t) TIMEOUT) (t\<lparr>phase := Settled (Stopped TIMEOUT)\<rparr>))
          (s\<lparr>cancelWaiters := [], task := Some (t\<lparr>phase := Settled (Stopped TIMEOUT)\<rparr>)\<rparr>))"
      using settle_current [OF inv assms(2) Waiting] by (simp add: handle_def resume_def)
    then show ?thesis
      by (intro exI [of _ "[DeadlineTimer i, Resume]"]) (simp add: finish_def late_outcome_def Waiting)
  next
    case (Settled q)
    from resume_past_deadline [OF inv assms(2) Settled] assms(3,4)
    obtain es u q where "set es \<subseteq> {Resume}" "run_events es s = Some u" "\<not> active u" "clock u = clock s"
      "outcomes u = q # outcomes s" "late_outcome s t q" by auto
    then show ?thesis by blast
  qed
qed

definition cooling_item :: "jsnum \<Rightarrow> sync_item" where
  "cooling_item retryAt =
     \<lparr>item_id = ''a'', item_method = GET, item_url = ''https://a'', item_headers = None, item_body = None,
      item_contentType = None, item_priority = None, item_createdAt = num 0, item_attempts = num 0,
      item_nextRetryAt = retryAt, item_metadata = None\<rparr>"

definition late_state :: drain_sys where
  "late_state = the (run_events [Start default_options, Tick 60000] drain_fresh)"

lemma late_run: "run_events [Start default_options, Tick 60000] drain_fresh = Some late_state"
  by (simp add: late_state_def drain_fresh_def run_simps)

lemma drain_hard_deadline_witness:
  "\<exists>es u r k. set es \<subseteq> {Resume} \<union> range DeadlineTimer \<and> run_events es late_state = Some u \<and> \<not> active u \<and>
     hd (outcomes u) = Finished r k \<and> dres_stoppedReason r = TIMEOUT"
proof -
  obtain t where t: "task late_state = Some t" "deadlineAt (cfg t) = Fin 60000" "phase t = Waiting 0 60000 None"
    and "clock late_state = 60000"
    by (simp add: late_state_def drain_fresh_def run_simps)
  then obtain es u q where u: "set es \<subseteq> {Resume} \<union> range DeadlineTimer" "run_events es late_state = Some u" "\<not> active u"
      "outcomes u = q # outcomes late_state" "late_outcome late_state t q"
    using drain_hard_deadline [OF reachable_run [OF late_run], of t 60000] by auto
  from u(5) t(3) obtain k where "q = Finished (drain_result_of (vars t) TIMEOUT) k" by (auto simp: late_outcome_def)
  with u show ?thesis by (auto simp: drain_result_of_def)
qed

text \<open>\<open>soonestCooldownEnd\<close> returns the least \<open>nextRetryAt\<close> of the items that is still in the
  future, and nothing exactly when no item's is.\<close>

theorem soonestCooldownEnd_minimum:
  "(case soonestCooldownEnd items now of
      None \<Rightarrow> \<forall>i \<in> set items. \<not> num_lt now (item_nextRetryAt i)
    | Some r \<Rightarrow> r \<in> item_nextRetryAt ` set items \<and> num_lt now r \<and>
        (\<forall>i \<in> set items. num_lt now (item_nextRetryAt i) \<longrightarrow> num_le r (item_nextRetryAt i)))"
  using soonest_None [of now items] soonest_Some [of now items]
  by (simp add: soonestCooldownEnd_def split: option.split)

lemma soonestCooldownEnd_minimum_witness:
  "case soonestCooldownEnd [cooling_item (num 5), cooling_item (num 3), cooling_item (num 1)] (num 2) of
     None \<Rightarrow> False | Some r \<Rightarrow> num_lt (num 2) r \<and> num_le r (num 3)"
  using soonestCooldownEnd_minimum [of "[cooling_item (num 5), cooling_item (num 3), cooling_item (num 1)]" "num 2"]
  by (simp add: cooling_item_def split: option.splits)

text \<open>a cancel that arrives after the last reply settled and before the loop continued is lost:
  the run below cancels an active drain, which still resolves with \<open>EMPTY\<close>.\<close>

theorem drain_cancel_lost_in_gap:
  "\<exists>s u r t. run_events
       [Start default_options, Reply 0 (GotBool False), Resume, Reply 1 (GotSize 0), Resume, Reply 2 (GotBool False)]
       drain_fresh = Some s \<and> active s \<and>
     run_events [Cancel, Resume] s = Some u \<and> outcomes u = [Finished r t] \<and> dres_stoppedReason r = EMPTY"
  by (simp add: drain_fresh_def run_simps drain_result_of_def)

text \<open>\<open>iterations\<close> can count a flush that never started: cancelled between the connection's
  reply and the guarded flush, the drain reports one iteration although it never called \<open>flush\<close>.\<close>

theorem drain_counts_unstarted_flush:
  "\<exists>u r t. run_events
       [Start default_options, Reply 0 (GotBool False), Resume, Reply 1 (GotSize 2), Resume,
        Reply 2 (GotConnection online), Cancel, Resume, Resume] drain_fresh = Some u \<and>
     outcomes u = [Finished r t] \<and> dres_iterations r = 1 \<and> flush_calls (log t) = 0"
  by (simp add: drain_fresh_def run_simps drain_result_of_def online_def)

end
