(* ===== verification/Drain_Reasons.thy ===== *)
theory Drain_Reasons
  imports Drain_Properties
begin

text \<open>
  What the four reasons for which a drain stops mean (\<open>DrainStoppedReason\<close> in \<open>src/types/drain.ts\<close>),
  over every run of the process from its start.
\<close>

section \<open>The meaning of the reasons\<close>

text \<open>
  The deadline is over. The timer of a wait is cut to whole milliseconds and capped at \<open>2^31 - 1\<close> of
  them, so this speaks of whole deadlines within that reach of the start.
\<close>

definition deadline_over :: "drain_task \<Rightarrow> int \<Rightarrow> bool" where
  "deadline_over t now \<longleftrightarrow>
     (\<forall>k. deadlineAt (cfg t) = num k \<and> k \<le> 2 ^ 53 \<and> 0 \<le> began t \<and> k - began t \<le> 2147483647 \<longrightarrow> k \<le> now)"





section \<open>Every step keeps it\<close>


lemma deadline_over_cong: "cfg k = cfg t \<Longrightarrow> began k = began t \<Longrightarrow> deadline_over k now = deadline_over t now"
  by (simp add: deadline_over_def)











section \<open>Properties\<close>



end
