(* ===== verification/Drain_Facade.thy ===== *)
theory Drain_Facade
  imports Drain_Properties Facade
begin

text \<open>
  The drain loop over the facade (\<open>drainUntilEmpty\<close> and \<open>cancelDrain\<close> of \<open>src/index.tsx\<close>): the five
  operations the loop drives are the facade's functions, so its waits are answered by them. The
  state is the process of \<open>Facade\<close> and the drain of \<open>Drain_Controller\<close> side by side.
\<close>

section \<open>The composed state\<close>

record 'w drain_app =
  app_part :: "'w app"
  drain_part :: drain_sys

definition drain_options_of :: "drain_options option \<Rightarrow> drain_options" where
  "drain_options_of options =
     (case options of
        Some opts \<Rightarrow> opts
      | None \<Rightarrow> \<lparr>dopt_maxIterations = None, dopt_timeoutMs = None, dopt_delayBetweenCyclesMs = None\<rparr>)"

definition drainUntilEmpty :: "drain_options option \<Rightarrow> 'w drain_app \<Rightarrow> 'w drain_app" where
  "drainUntilEmpty options d = d\<lparr>drain_part := runDrain (drain_options_of options) (drain_part d)\<rparr>"

definition cancelDrain :: "'w drain_app \<Rightarrow> 'w drain_app" where
  "cancelDrain d = d\<lparr>drain_part := cancelActiveDrain (drain_part d)\<rparr>"

text \<open>The loop's sizes are integers; a native module that answers another number is left out.\<close>

fun whole :: "jsnum \<Rightarrow> int option" where
  "whole (Fin x) = (if of_int \<lfloor>x\<rfloor> = x then Some \<lfloor>x\<rfloor> else None)"
| "whole _ = None"

definition drain_answer :: "'w native created \<Rightarrow> drain_pc \<Rightarrow> ('w app, thrown, drain_reply option) act" where
  "drain_answer outcome p =
     (case p of
        AtIsSyncing \<Rightarrow> replyA (\<lambda>b. Some (GotBool b)) (isSyncing outcome)
      | AtRecheck \<Rightarrow> replyA (\<lambda>b. Some (GotBool b)) (isSyncing outcome)
      | AtQueueSize \<Rightarrow> replyA (\<lambda>x. map_option GotSize (whole x)) (getQueueSize outcome)
      | AtPending \<Rightarrow> replyA (\<lambda>xs. Some (GotItems xs)) (getPendingItems outcome)
      | AtConnection \<Rightarrow> replyA (\<lambda>k. Some (GotConnection k)) (getConnectionStatus outcome)
      | AtFlush \<Rightarrow> replyA (\<lambda>r. Some GotFlush) (flush outcome)
      | AtSleep \<Rightarrow> returnA None)"

text \<open>\<open>Inner\<close>: the timers, the continuation of the loop, the clock, and late answers to abandoned
  waits. \<open>Elsewhere\<close>: other code of the program calls the facade, or the native side changes.\<close>

datatype 'w drain_app_event =
    DrainUntilEmpty "drain_options option" | CancelDrain | Answer "'w native created"
  | Inner drain_event | Elsewhere "'w app_event"

fun app_apply :: "'w app_event \<Rightarrow> 'w app \<Rightarrow> 'w app" where
  "app_apply (FacadeCall outcome c) s = snd (run_facade outcome c s)"
| "app_apply (NativeChange w) s = s\<lparr>world := w\<rparr>"

fun inner :: "drain_event \<Rightarrow> drain_sys \<Rightarrow> bool" where
  "inner (Start options) s = False"
| "inner Cancel s = False"
| "inner (Reply i x) s = (case current_wait s of Some (j, _) \<Rightarrow> i \<noteq> j | None \<Rightarrow> True)"
| "inner (Fail i e) s = (case current_wait s of Some (j, _) \<Rightarrow> i \<noteq> j | None \<Rightarrow> True)"
| "inner _ s = True"

definition answer_wait :: "'w native created \<Rightarrow> 'w drain_app \<Rightarrow> 'w drain_app option" where
  "answer_wait outcome d =
     (case current_wait (drain_part d) of
        Some (i, p, _) \<Rightarrow>
          (case drain_answer outcome p (app_part d) of
             (Inl e, a) \<Rightarrow> Some \<lparr>app_part = a, drain_part = settle i (Rejected e) (drain_part d)\<rparr>
           | (Inr (Some x), a) \<Rightarrow> Some \<lparr>app_part = a, drain_part = settle i (Fulfilled x) (drain_part d)\<rparr>
           | (Inr None, a) \<Rightarrow> None)
      | None \<Rightarrow> None)"

fun drain_app_handle :: "'w drain_app_event \<Rightarrow> 'w drain_app \<Rightarrow> 'w drain_app option" where
  "drain_app_handle (DrainUntilEmpty options) d = Some (drainUntilEmpty options d)"
| "drain_app_handle CancelDrain d = Some (cancelDrain d)"
| "drain_app_handle (Answer outcome) d = answer_wait outcome d"
| "drain_app_handle (Inner e) d =
     (if inner e (drain_part d)
      then map_option (\<lambda>s. d\<lparr>drain_part := s\<rparr>) (handle e (drain_part d)) else None)"
| "drain_app_handle (Elsewhere e) d = Some (d\<lparr>app_part := app_apply e (app_part d)\<rparr>)"

inductive drain_app_step :: "'w drain_app \<Rightarrow> 'w drain_app_event \<Rightarrow> 'w drain_app \<Rightarrow> bool" where
  drain_app_stepI: "drain_app_handle e d = Some d' \<Longrightarrow> drain_app_step d e d'"

inductive_cases drain_app_stepE: "drain_app_step d e d'"

definition drain_app_init :: "'w drain_app \<Rightarrow> bool" where
  "drain_app_init d \<longleftrightarrow> app_init (app_part d) \<and> drain_init (drain_part d)"

section \<open>The composition refines both parts\<close>

fun call_at :: "drain_pc \<Rightarrow> facade_call" where
  "call_at AtQueueSize = GetQueueSize"
| "call_at AtPending = GetPendingItems"
| "call_at AtConnection = GetConnectionStatus"
| "call_at AtFlush = Flush"
| "call_at _ = IsSyncing"

lemma drain_answer_app: "p \<noteq> AtSleep \<Longrightarrow> snd (drain_answer outcome p s) = snd (run_facade outcome (call_at p) s)"
  by (cases p) (simp_all add: drain_answer_def replyA_pair)

lemma drain_answer_fits:
  "fst (drain_answer outcome p s) = Inr (Some x) \<Longrightarrow> fits p x"
  by (cases p; cases "fst (isSyncing outcome s)"; cases "fst (getQueueSize outcome s)";
      cases "fst (getPendingItems outcome s)"; cases "fst (getConnectionStatus outcome s)"; cases "fst (flush outcome s)")
    (auto simp: drain_answer_def replyA_pair returnA_def)

lemma drain_answer_SyncError:
  assumes "probe_inv (probe s)" and "fst (drain_answer outcome p s) = Inl e"
  shows "is_SyncError e"
proof -
  have "fst (run_facade outcome (call_at p) s) = Inl e"
    using assms(2) by (cases p) (auto simp: drain_answer_def replyA_pair returnA_def map_sum_def split: sum.splits)
  then show ?thesis by (rule facade.run_SyncError [OF assms(1)])
qed

lemma answer_wait_cases:
  assumes "answer_wait outcome d = Some d'"
  obtains i p due sl q where "current_wait (drain_part d) = Some (i, p, due, sl)"
    "app_part d' = snd (drain_answer outcome p (app_part d))" "drain_part d' = settle i q (drain_part d)"
    "(\<exists>e. q = Rejected e \<and> fst (drain_answer outcome p (app_part d)) = Inl e) \<or>
     (\<exists>x. q = Fulfilled x \<and> fst (drain_answer outcome p (app_part d)) = Inr (Some x))"
  using assms by (auto simp: answer_wait_def split: option.splits prod.splits sum.splits)

lemma app_apply_step: "app_step s e (app_apply e s)"
  by (cases e) (auto intro: app_step.intros)

lemma answer_wait_parts:
  assumes "answer_wait outcome d = Some d'" and inv: "drain_inv (drain_part d)"
  shows "\<exists>e. app_step (app_part d) e (app_part d')" and "\<exists>e. drain_step (drain_part d) e (drain_part d')"
proof -
  from assms(1) obtain i p due sl q where c: "current_wait (drain_part d) = Some (i, p, due, sl)"
    and a: "app_part d' = snd (drain_answer outcome p (app_part d))" and s: "drain_part d' = settle i q (drain_part d)"
    and q: "(\<exists>e. q = Rejected e \<and> fst (drain_answer outcome p (app_part d)) = Inl e) \<or>
     (\<exists>x. q = Fulfilled x \<and> fst (drain_answer outcome p (app_part d)) = Inr (Some x))"
    by (rule answer_wait_cases)
  have "p \<noteq> AtSleep" using q by (auto simp: drain_answer_def returnA_def)
  then show "\<exists>e. app_step (app_part d) e (app_part d')"
    unfolding a drain_answer_app [OF \<open>p \<noteq> AtSleep\<close>] by (blast intro: step_call)
  have i: "i < nextId (drain_part d)"
    using inv c by (auto simp: drain_inv_def waiter_ids_def current_wait_iff)
  from q show "\<exists>e. drain_step (drain_part d) e (drain_part d')"
  proof (elim disjE exE conjE)
    fix e assume "q = Rejected e"
    then have "handle (Fail i e) (drain_part d) = Some (drain_part d')"
      using c i s \<open>p \<noteq> AtSleep\<close> by (simp add: handle_def)
    then show ?thesis by (blast intro: drain_stepI)
  next
    fix x assume "q = Fulfilled x" and "fst (drain_answer outcome p (app_part d)) = Inr (Some x)"
    then have "handle (Reply i x) (drain_part d) = Some (drain_part d')"
      using c i s drain_answer_fits by (simp add: handle_def)
    then show ?thesis by (blast intro: drain_stepI)
  qed
qed

lemma drain_app_parts:
  "reachable drain_app_init drain_app_step d \<Longrightarrow>
     reachable app_init app_step (app_part d) \<and> reachable drain_init drain_step (drain_part d)"
proof (induction rule: reachable.induct)
  case (reach_init d)
  then show ?case by (auto simp: drain_app_init_def intro: reachable.reach_init)
next
  case (reach_step d e d')
  have a: "app_step (app_part d) x y \<Longrightarrow> reachable app_init app_step y" for x y
    using reach_step.IH by (blast intro: reachable.reach_step)
  have s: "drain_step (drain_part d) x y \<Longrightarrow> reachable drain_init drain_step y" for x y
    using reach_step.IH by (blast intro: reachable.reach_step)
  have inv: "drain_inv (drain_part d)" using drain.reachable_inv reach_step.IH by blast
  from reach_step.hyps(2) have h: "drain_app_handle e d = Some d'" by (rule drain_app_stepE)
  show ?case
  proof (cases e)
    case (DrainUntilEmpty options)
    then show ?thesis
      using h reach_step.IH s [OF drain_stepI, of "Start _"] by (auto simp: drainUntilEmpty_def handle_def)
  next
    case CancelDrain
    then show ?thesis
      using h reach_step.IH s [OF drain_stepI, of Cancel] by (auto simp: cancelDrain_def handle_def)
  next
    case (Answer outcome)
    then show ?thesis using h answer_wait_parts [OF _ inv, of outcome d'] a s by auto
  next
    case (Inner x)
    then show ?thesis
      using h reach_step.IH s [OF drain_stepI, of x] by (auto split: if_splits)
  next
    case (Elsewhere x)
    then show ?thesis using h reach_step.IH a [OF app_apply_step] by auto
  qed
qed

section \<open>Errors\<close>

definition errors_ok :: "drain_sys \<Rightarrow> bool" where
  "errors_ok s \<longleftrightarrow>
     (\<forall>e t. Failed e t \<in> set (outcomes s) \<longrightarrow> is_SyncError e) \<and>
     (\<forall>t e. task s = Some t \<and> phase t = Settled (Rejected e) \<longrightarrow> is_SyncError e)"

lemma begin_wait_errors: "errors_ok s \<Longrightarrow> errors_ok (begin_wait p sl t s)"
  by (cases rule: begin_wait_cases [of p sl t s]) (auto simp: errors_ok_def begun_def)

lemma settle_errors:
  assumes "errors_ok s" and "\<And>e t due sl. q = Rejected e \<Longrightarrow> task s = Some t \<Longrightarrow> phase t = Waiting i due sl \<Longrightarrow> is_SyncError e"
  shows "errors_ok (settle i q s)"
  using assms by (auto simp: errors_ok_def settle_def Let_def split: option.splits drain_phase.splits)

lemma settle_errors_quiet:
  assumes "errors_ok s" and "\<forall>e. q \<noteq> Rejected e"
  shows "errors_ok (settle i q s)"
  by (rule settle_errors [OF assms(1)]) (use assms(2) in blast)

lemma finish_errors: "errors_ok s \<Longrightarrow> (\<And>e t. r = Failed e t \<Longrightarrow> is_SyncError e) \<Longrightarrow> errors_ok (finish r s)"
  by (auto simp: errors_ok_def finish_def)

lemma runDrain_errors: "errors_ok s \<Longrightarrow> errors_ok (runDrain options s)"
  unfolding runDrain_def Let_def by (auto intro!: begin_wait_errors) (auto simp: errors_ok_def)

lemma cancel_errors:
  assumes "errors_ok s"
  shows "errors_ok (cancelActiveDrain s)"
proof -
  have "errors_ok (fold (\<lambda>i. settle i (Stopped CANCELLED)) is u)" if "errors_ok u" for "is" u
    using that by (induction "is" arbitrary: u) (simp_all add: settle_errors_quiet)
  moreover have "errors_ok (s\<lparr>cancelled := True\<rparr>)" using assms unfolding errors_ok_def by simp blast
  ultimately show ?thesis using assms by (simp add: cancelActiveDrain_def)
qed

lemma resume_errors:
  assumes ok: "errors_ok s" and t: "task s = Some t" "phase t = Settled r" and u: "resume t r s = Some u"
  shows "errors_ok u"
proof -
  have b: "errors_ok (begin_wait p sl v s)" for p sl v by (rule begin_wait_errors [OF ok])
  have f: "errors_ok (finish (Finished x y) s)" for x y by (rule finish_errors [OF ok]) simp
  have "errors_ok (finish (Failed e t) s)" if "r = Rejected e" for e
    using ok t that by (intro finish_errors) (auto simp: errors_ok_def)
  then show ?thesis using u b f
    by (auto simp: resume_def Let_def split: settlement.splits drain_next.splits)
qed

lemma inner_errors:
  assumes ok: "errors_ok s" and e: "inner e s" and h: "handle e s = Some u"
  shows "errors_ok u"
proof (cases e)
  case (Reply i x)
  then show ?thesis using h settle_errors_quiet [OF ok] by (auto simp: handle_def split: if_splits)
next
  case (Fail i err)
  then have "u = settle i (Rejected err) s" "\<And>t due sl. task s = Some t \<Longrightarrow> phase t \<noteq> Waiting i due sl"
    using h e by (auto simp: handle_def current_wait_def split: if_splits)
  then show ?thesis using settle_errors [OF ok] by blast
next
  case (DeadlineTimer i)
  then show ?thesis using h settle_errors_quiet [OF ok] by (auto simp: handle_def split: option.splits if_splits)
next
  case (SleepTimer i)
  then show ?thesis using h settle_errors_quiet [OF ok] by (auto simp: handle_def split: option.splits if_splits)
next
  case Resume
  then show ?thesis using h resume_errors [OF ok] by (auto simp: handle_def split: option.splits drain_phase.splits)
next
  case (Tick n)
  then have "u = s\<lparr>clock := clock s + int n\<rparr>" using h by (simp add: handle_def)
  then show ?thesis using ok unfolding errors_ok_def by simp blast
qed (use e in simp_all)

lemma drain_app_errors: "reachable drain_app_init drain_app_step d \<Longrightarrow> errors_ok (drain_part d)"
proof (induction rule: reachable.induct)
  case (reach_init d)
  then show ?case by (simp add: drain_app_init_def drain_init_def errors_ok_def)
next
  case (reach_step d e d')
  from reach_step.hyps(2) have h: "drain_app_handle e d = Some d'" by (rule drain_app_stepE)
  have pinv: "probe_inv (probe (app_part d))"
    using app.reachable_inv drain_app_parts [OF reach_step.hyps(1)] by blast
  show ?case
  proof (cases e)
    case (DrainUntilEmpty options)
    then show ?thesis using h runDrain_errors [OF reach_step.IH] by (auto simp: drainUntilEmpty_def)
  next
    case CancelDrain
    then show ?thesis using h cancel_errors [OF reach_step.IH] by (auto simp: cancelDrain_def)
  next
    case (Answer outcome)
    then have "answer_wait outcome d = Some d'" using h by simp
    then obtain i p due sl q where "drain_part d' = settle i q (drain_part d)"
      and q: "(\<exists>e. q = Rejected e \<and> fst (drain_answer outcome p (app_part d)) = Inl e) \<or>
       (\<exists>x. q = Fulfilled x \<and> fst (drain_answer outcome p (app_part d)) = Inr (Some x))"
      by (rule answer_wait_cases)
    moreover have "is_SyncError x" if "q = Rejected x" for x
      using q that drain_answer_SyncError [OF pinv] by auto
    ultimately show ?thesis using settle_errors [OF reach_step.IH] by auto
  next
    case (Inner x)
    then show ?thesis using h inner_errors [OF reach_step.IH] by (auto split: if_splits)
  next
    case (Elsewhere x)
    then show ?thesis using h reach_step.IH by auto
  qed
qed

section \<open>A drain that is answered at once\<close>

definition time_left :: "drain_cfg \<Rightarrow> int \<Rightarrow> bool" where
  "time_left c now \<longleftrightarrow> \<not> num_le (num_sub (deadlineAt c) (num now)) (num 0)"

definition waits :: "drain_cfg \<Rightarrow> drain_pc \<Rightarrow> drain_vars \<Rightarrow> drain_sys \<Rightarrow> bool" where
  "waits c p v s \<longleftrightarrow>
     drain_inv s \<and> \<not> cancelled s \<and> time_left c (clock s) \<and>
     (\<exists>t i due. task s = Some t \<and> pc t = p \<and> phase t = Waiting i due None \<and> vars t = v \<and> cfg t = c)"

text \<open>The facade answers the wait and the loop continues.\<close>

definition exchange :: "'w native created \<Rightarrow> 'w drain_app \<Rightarrow> 'w drain_app option" where
  "exchange outcome d =
     (case drain_app_handle (Answer outcome) d of None \<Rightarrow> None | Some e \<Rightarrow> drain_app_handle (Inner Resume) e)"

fun pump :: "'w native created \<Rightarrow> nat \<Rightarrow> 'w drain_app \<Rightarrow> 'w drain_app option" where
  "pump outcome 0 d = Some d"
| "pump outcome (Suc k) d =
     (if active (drain_part d)
      then (case exchange outcome d of None \<Rightarrow> None | Some e \<Rightarrow> pump outcome k e) else Some d)"

lemma pump_inactive [simp]: "\<not> active (drain_part d) \<Longrightarrow> pump outcome k d = Some d"
  by (cases k) simp_all

lemma pump_more: "pump outcome k d = Some e \<Longrightarrow> \<not> active (drain_part e) \<Longrightarrow> k \<le> j \<Longrightarrow> pump outcome j d = Some e"
proof (induction k arbitrary: d j)
  case (Suc k)
  then show ?case by (cases j) (auto split: if_splits option.splits)
qed simp

lemma waits_active: "waits c p v s \<Longrightarrow> active s"
  by (auto simp: waits_def drain_inv_def)

lemma begin_wait_waiting:
  assumes "\<not> cancelled s" and "time_left (cfg t) (clock s)"
  obtains i due where "begin_wait p None t s =
    s\<lparr>nextId := Suc i, cancelWaiters := cancelWaiters s @ [i],
      task := Some (t\<lparr>pc := p, phase := Waiting i due None, log := Called p # log t\<rparr>)\<rparr>"
proof -
  have "raceWithStop (cancelled s) (clock s) (deadlineAt (cfg t)) (nextId s) None =
      Waiting (nextId s) (timer_due (clock s) (num_sub (deadlineAt (cfg t)) (num (clock s)))) None"
    using assms by (simp add: raceWithStop_def Let_def time_left_def)
  then show ?thesis using that [of "nextId s"] by (simp add: begin_wait_def)
qed

lemma exchange_cases:
  assumes w: "waits c p v (drain_part d)" and a: "drain_answer outcome p (app_part d) = (Inr (Some x), a)"
  obtains t u where "exchange outcome d = map_option (\<lambda>s. \<lparr>app_part = a, drain_part = s\<rparr>) (resume t (Fulfilled x) u)"
    "vars t = v" "cfg t = c" "pc t = p" "drain_inv u" "task u = Some t" "phase t = Settled (Fulfilled x)"
    "\<not> cancelled u" "clock u = clock (drain_part d)" "outcomes u = outcomes (drain_part d)"
proof -
  let ?s = "drain_part d"
  obtain t i due where t: "task ?s = Some t" "pc t = p" "phase t = Waiting i due None" "vars t = v" "cfg t = c"
    and inv: "drain_inv ?s" and nc: "\<not> cancelled ?s"
    using w by (auto simp: waits_def)
  have c: "current_wait ?s = Some (i, p, due, None)" using t by (simp add: current_wait_iff)
  have eq: "settle i (Fulfilled x) ?s = ?s\<lparr>cancelWaiters := [], task := Some (t\<lparr>phase := Settled (Fulfilled x)\<rparr>)\<rparr>"
    by (rule settle_current [OF inv t(1,3)])
  have "fst (drain_answer outcome p (app_part d)) = Inr (Some x)" using a by simp
  then have "fits p x" by (rule drain_answer_fits)
  moreover have "i < nextId ?s" using inv c by (auto simp: drain_inv_def waiter_ids_def current_wait_iff)
  ultimately have "handle (drain_event.Reply i x) ?s = Some (settle i (Fulfilled x) ?s)"
    using c by (simp add: handle_def)
  then have "drain_inv (settle i (Fulfilled x) ?s)" by (rule handle_inv [OF inv])
  then show ?thesis
    using that [of "t\<lparr>phase := Settled (Fulfilled x)\<rparr>" "settle i (Fulfilled x) ?s"] t nc a c
    unfolding eq by (simp add: exchange_def answer_wait_def eq handle_def option.map_comp comp_def)
qed

lemma exchange_await:
  assumes w: "waits c p v (drain_part d)" and a: "drain_answer outcome p (app_part d) = (Inr (Some x), a)"
    and n: "after c (clock (drain_part d)) v p x = Await q v'"
  shows "\<exists>e. exchange outcome d = Some e \<and> waits c q v' (drain_part e) \<and> app_part e = a \<and>
    clock (drain_part e) = clock (drain_part d) \<and> outcomes (drain_part e) = outcomes (drain_part d)"
proof -
  from w a obtain t u where e: "exchange outcome d = map_option (\<lambda>s. \<lparr>app_part = a, drain_part = s\<rparr>) (resume t (Fulfilled x) u)"
    and t: "vars t = v" "cfg t = c" "pc t = p" "task u = Some t" "phase t = Settled (Fulfilled x)"
    and u: "drain_inv u" "\<not> cancelled u" "clock u = clock (drain_part d)" "outcomes u = outcomes (drain_part d)"
    by (rule exchange_cases)
  let ?t = "t\<lparr>log := Saw x # log t, vars := v'\<rparr>"
  have r: "resume t (Fulfilled x) u = Some (begin_wait q None ?t u)"
    using n t u by (simp add: resume_def)
  have "handle Resume u = Some (begin_wait q None ?t u)" using r t by (simp add: handle_def)
  then have inv: "drain_inv (begin_wait q None ?t u)" by (rule handle_inv [OF u(1)])
  have left: "time_left c (clock u)" using w u by (simp add: waits_def)
  obtain i due where b: "begin_wait q None ?t u =
    u\<lparr>nextId := Suc i, cancelWaiters := cancelWaiters u @ [i],
      task := Some (?t\<lparr>pc := q, phase := Waiting i due None, log := Called q # log ?t\<rparr>)\<rparr>"
    by (rule begin_wait_waiting [of u ?t q]) (use u left t in simp_all)
  have "waits c q v' (begin_wait q None ?t u)"
    using inv left u t unfolding waits_def b by simp
  then show ?thesis using e r b u by simp
qed

lemma exchange_return:
  assumes w: "waits c p v (drain_part d)" and a: "drain_answer outcome p (app_part d) = (Inr (Some x), a)"
    and n: "after c (clock (drain_part d)) v p x = Return reason v'"
  shows "\<exists>e t. exchange outcome d = Some e \<and> app_part e = a \<and> \<not> active (drain_part e) \<and>
    outcomes (drain_part e) = Finished (drain_result_of v' reason) t # outcomes (drain_part d)"
proof -
  from w a obtain t u where e: "exchange outcome d = map_option (\<lambda>s. \<lparr>app_part = a, drain_part = s\<rparr>) (resume t (Fulfilled x) u)"
    and t: "vars t = v" "cfg t = c" "pc t = p" "task u = Some t" "phase t = Settled (Fulfilled x)"
    and u: "drain_inv u" "\<not> cancelled u" "clock u = clock (drain_part d)" "outcomes u = outcomes (drain_part d)"
    by (rule exchange_cases)
  have "resume t (Fulfilled x) u =
      Some (finish (Finished (drain_result_of v' reason) (t\<lparr>log := Saw x # log t, vars := v'\<rparr>)) u)"
    using n t u by (simp add: resume_def)
  then show ?thesis using e u by (simp add: finish_def)
qed

section \<open>A productive native module\<close>

text \<open>
  What the interface documents of a healthy, online engine with nothing cooling down: no cycle is
  left running between calls, the size is that of the queue, the device is not offline, and a flush
  takes at least one item off a queue that has any.
\<close>

definition productive :: "'w native \<Rightarrow> ('w \<Rightarrow> nat) \<Rightarrow> bool" where
  "productive n len \<longleftrightarrow>
     (\<forall>w. \<exists>u. native_isSyncing n w = (Inr False, u) \<and> len u = len w) \<and>
     (\<forall>w. \<exists>u. native_getQueueSize n w = (Inr (num (int (len w))), u) \<and> len u = len w) \<and>
     (\<forall>w. \<exists>k u. native_getConnectionStatus n w = (Inr k, u) \<and> conn_status k \<noteq> DISCONNECTED \<and> len u = len w) \<and>
     (\<forall>w. \<exists>r u. native_flush n w = (Inr r, u) \<and> (0 < len w \<longrightarrow> len u < len w))"

definition ready :: "'w native created \<Rightarrow> 'w native \<Rightarrow> 'w app \<Rightarrow> bool" where
  "ready outcome n s \<longleftrightarrow> probe_inv (probe s) \<and> native_of outcome s = Some n"

lemma ready_again: "ready outcome n s \<Longrightarrow> ready outcome n ((resolve outcome s)\<lparr>world := w\<rparr>)"
  using getNativeSyncProvider_inv [of "probe s" outcome] resolved_get [OF get_resolved, of outcome outcome "probe s"]
  by (auto simp: ready_def resolve_def native_of_def)

lemma whole_num [simp]: "whole (num i) = Some i"
  by simp

lemma ready_answers:
  assumes "ready outcome n s"
  shows "native_isSyncing n (world s) = (Inr b, u) \<Longrightarrow> p = AtIsSyncing \<or> p = AtRecheck \<Longrightarrow>
      drain_answer outcome p s = (Inr (Some (GotBool b)), (resolve outcome s)\<lparr>world := u\<rparr>)"
    and "native_getQueueSize n (world s) = (Inr (num i), u) \<Longrightarrow>
      drain_answer outcome AtQueueSize s = (Inr (Some (GotSize i)), (resolve outcome s)\<lparr>world := u\<rparr>)"
    and "native_getConnectionStatus n (world s) = (Inr k, u) \<Longrightarrow>
      drain_answer outcome AtConnection s = (Inr (Some (GotConnection k)), (resolve outcome s)\<lparr>world := u\<rparr>)"
    and "native_flush n (world s) = (Inr r, u) \<Longrightarrow>
      drain_answer outcome AtFlush s = (Inr (Some GotFlush), (resolve outcome s)\<lparr>world := u\<rparr>)"
  using assms
  by (auto simp: ready_def drain_answer_def replyA_pair native_call_run facade_defs wrap_reply_def)

lemma max_not_reached:
  assumes "num_le (num (k + int m)) x" and "0 < m"
  shows "\<not> num_le x (num k)"
  using assms by (cases x) auto

text \<open>Four exchanges of a pass that flushes, three of the last one.\<close>

definition goal_of :: "drain_vars \<Rightarrow> nat \<Rightarrow> int" where
  "goal_of v m = itemsDispatched v + (case lastSize v of None \<Rightarrow> int m | Some l \<Rightarrow> l)"

lemma exchange_then:
  "exchange outcome d = Some e \<Longrightarrow> active (drain_part d) \<Longrightarrow> pump outcome k e = Some f \<Longrightarrow> pump outcome (Suc k) d = Some f"
  by simp

lemma productive_drain:
  assumes prod: "productive n len" and delay: "\<not> num_lt (num 0) (delayBetweenCyclesMs c)"
  shows "waits c AtIsSyncing v (drain_part d) \<Longrightarrow> ready outcome n (app_part d) \<Longrightarrow> len (world (app_part d)) = m \<Longrightarrow>
      num_le (num (iterations v + int m)) (maxIterations c) \<Longrightarrow>
      (case lastSize v of None \<Rightarrow> \<not> cycleJustRan v | Some l \<Rightarrow> int m < l) \<Longrightarrow>
    \<exists>e r t. pump outcome (4 * m + 3) d = Some e \<and> \<not> active (drain_part e) \<and>
      outcomes (drain_part e) = Finished r t # outcomes (drain_part d) \<and> len (world (app_part e)) = 0 \<and>
      dres_stoppedReason r = EMPTY \<and> dres_queueRemaining r = 0 \<and> dres_itemsDispatched r = goal_of v m \<and>
      dres_iterations r \<le> iterations v + int m"
proof (induction m arbitrary: d v rule: less_induct)
  case (less m)
  note rdy = less.prems(2) and sz = less.prems(3)
  have act: "waits c p x (drain_part y) \<Longrightarrow> active (drain_part y)" for p x and y :: "'a drain_app" by (rule waits_active)
  obtain u1 where u1: "native_isSyncing n (world (app_part d)) = (Inr False, u1)" "len u1 = m"
    using prod sz unfolding productive_def by blast
  obtain d1 where d1: "exchange outcome d = Some d1" "waits c AtQueueSize v (drain_part d1)"
      "app_part d1 = (resolve outcome (app_part d))\<lparr>world := u1\<rparr>"
      "clock (drain_part d1) = clock (drain_part d)" "outcomes (drain_part d1) = outcomes (drain_part d)"
    using exchange_await [OF less.prems(1) ready_answers(1) [OF rdy u1(1)], of AtQueueSize v] by (auto simp: after_def)
  have rdy1: "ready outcome n (app_part d1)" and w1: "world (app_part d1) = u1"
    using ready_again [OF rdy] d1(3) by simp_all
  obtain u2 where u2: "native_getQueueSize n (world (app_part d1)) = (Inr (num (int m)), u2)" "len u2 = m"
    using prod u1 w1 unfolding productive_def by metis
  let ?v = "v\<lparr>itemsDispatched := goal_of v m - int m, lastSize := Some (int m)\<rparr>"
  have removed: "0 \<le> removed_count v (int m)" "cycleJustRan v \<Longrightarrow> 0 < removed_count v (int m)"
      "itemsDispatched v + removed_count v (int m) = goal_of v m - int m"
    using less.prems(5) by (auto simp: removed_count_def goal_of_def split: option.splits)
  note size_answer = ready_answers(2) [OF rdy1 u2(1)]
  show ?case
  proof (cases "m = 0")
    case True
    have "after c (clock (drain_part d1)) v AtQueueSize (GotSize (int m)) = Await AtRecheck ?v"
      using removed True by (auto simp: after_def after_size_def Let_def)
    with exchange_await [OF d1(2) size_answer] obtain d2 where d2: "exchange outcome d1 = Some d2"
        "waits c AtRecheck ?v (drain_part d2)" "app_part d2 = (resolve outcome (app_part d1))\<lparr>world := u2\<rparr>"
        "outcomes (drain_part d2) = outcomes (drain_part d1)" by blast
    have rdy2: "ready outcome n (app_part d2)" and w2: "world (app_part d2) = u2"
      using ready_again [OF rdy1] d2(3) by simp_all
    obtain u3 where u3: "native_isSyncing n (world (app_part d2)) = (Inr False, u3)" "len u3 = 0"
      using prod u2 w2 True unfolding productive_def by metis
    obtain d3 t where d3: "exchange outcome d2 = Some d3" "app_part d3 = (resolve outcome (app_part d2))\<lparr>world := u3\<rparr>"
        "\<not> active (drain_part d3)" "outcomes (drain_part d3) = Finished (drain_result_of ?v EMPTY) t # outcomes (drain_part d2)"
      using exchange_return [OF d2(2) ready_answers(1) [OF rdy2 u3(1)], of EMPTY ?v] by (auto simp: after_def)
    have "pump outcome 3 d = Some d3"
      using d1(1) d2(1) d3(1) act [OF less.prems(1)] act [OF d1(2)] act [OF d2(2)] by (simp add: numeral_3_eq_3)
    then show ?thesis
      using d1 d2 d3 u3 True by (simp add: drain_result_of_def)
  next
    case False
    let ?x = "?v\<lparr>cycleJustRan := False\<rparr>"
    have "\<not> num_le (maxIterations c) (num (iterations v))"
      using max_not_reached [OF less.prems(4)] False by simp
    then have "after c (clock (drain_part d1)) v AtQueueSize (GotSize (int m)) = Await AtConnection ?x"
      using removed False delay by (auto simp: after_def after_size_def sleep_or_connection_def Let_def)
    with exchange_await [OF d1(2) size_answer] obtain d2 where d2: "exchange outcome d1 = Some d2"
        "waits c AtConnection ?x (drain_part d2)" "app_part d2 = (resolve outcome (app_part d1))\<lparr>world := u2\<rparr>"
        "clock (drain_part d2) = clock (drain_part d1)" "outcomes (drain_part d2) = outcomes (drain_part d1)" by blast
    have rdy2: "ready outcome n (app_part d2)" and w2: "world (app_part d2) = u2"
      using ready_again [OF rdy1] d2(3) by simp_all
    obtain k u3 where u3: "native_getConnectionStatus n (world (app_part d2)) = (Inr k, u3)" "conn_status k \<noteq> DISCONNECTED" "len u3 = m"
      using prod u2 w2 unfolding productive_def by metis
    let ?y = "?x\<lparr>iterations := iterations v + 1, cycleJustRan := True\<rparr>"
    have "after c (clock (drain_part d2)) ?x AtConnection (GotConnection k) = Await AtFlush ?y"
      using u3(2) by (simp add: after_def after_connection_def)
    with exchange_await [OF d2(2) ready_answers(3) [OF rdy2 u3(1)]] obtain d3 where d3: "exchange outcome d2 = Some d3"
        "waits c AtFlush ?y (drain_part d3)" "app_part d3 = (resolve outcome (app_part d2))\<lparr>world := u3\<rparr>"
        "outcomes (drain_part d3) = outcomes (drain_part d2)" by blast
    have rdy3: "ready outcome n (app_part d3)" and w3: "world (app_part d3) = u3"
      using ready_again [OF rdy2] d3(3) by simp_all
    obtain r u4 where u4: "native_flush n (world (app_part d3)) = (Inr r, u4)" "len u4 < m"
      using prod u3 w3 False unfolding productive_def by (metis gr0I)
    obtain d4 where d4: "exchange outcome d3 = Some d4" "waits c AtIsSyncing ?y (drain_part d4)"
        "app_part d4 = (resolve outcome (app_part d3))\<lparr>world := u4\<rparr>" "outcomes (drain_part d4) = outcomes (drain_part d3)"
      using exchange_await [OF d3(2) ready_answers(4) [OF rdy3 u4(1)], of AtIsSyncing ?y] by (auto simp: after_def)
    have rdy4: "ready outcome n (app_part d4)" and w4: "world (app_part d4) = u4"
      using ready_again [OF rdy3] d4(3) by simp_all
    have le: "num_le (num (iterations ?y + int (len u4))) (maxIterations c)"
      using less.prems(4) u4(2) by (cases "maxIterations c") auto
    have "\<exists>e r t. pump outcome (4 * len u4 + 3) d4 = Some e \<and> \<not> active (drain_part e) \<and>
      outcomes (drain_part e) = Finished r t # outcomes (drain_part d4) \<and> len (world (app_part e)) = 0 \<and>
      dres_stoppedReason r = EMPTY \<and> dres_queueRemaining r = 0 \<and> dres_itemsDispatched r = goal_of ?y (len u4) \<and>
      dres_iterations r \<le> iterations ?y + int (len u4)"
      using u4(2) by (intro less.IH [OF u4(2) d4(2) rdy4 _ le]) (simp_all add: w4)
    then obtain e r t where e: "pump outcome (4 * len u4 + 3) d4 = Some e" "\<not> active (drain_part e)"
      "outcomes (drain_part e) = Finished r t # outcomes (drain_part d4)" "len (world (app_part e)) = 0"
      "dres_stoppedReason r = EMPTY" "dres_queueRemaining r = 0" "dres_itemsDispatched r = goal_of ?y (len u4)"
      "dres_iterations r \<le> iterations ?y + int (len u4)" by blast
    have "pump outcome (4 * m - 1) d4 = Some e"
      using u4(2) by (intro pump_more [OF e(1,2)]) simp
    then have "pump outcome (Suc (Suc (Suc (Suc (4 * m - 1))))) d = Some e"
      using act [OF less.prems(1)] act [OF d1(2)] act [OF d2(2)] act [OF d3(2)]
      by (intro exchange_then [OF d1(1)] exchange_then [OF d2(1)] exchange_then [OF d3(1)] exchange_then [OF d4(1)])
    then have "pump outcome (4 * m + 3) d = Some e" using False by (simp add: eval_nat_numeral)
    moreover have "goal_of ?y (len u4) = goal_of v m" by (simp add: goal_of_def)
    ultimately show ?thesis using e d1 d2 d3 d4 u4(2) by auto
  qed
qed

section \<open>Starting a drain\<close>

definition started_vars :: drain_vars where
  "started_vars = \<lparr>iterations = 0, itemsDispatched = 0, lastSize = None, cycleJustRan = False\<rparr>"

lemma drainUntilEmpty_waits:
  assumes inv: "drain_inv (drain_part d)" and idle: "\<not> active (drain_part d)"
    and left: "time_left (drain_config (drain_options_of options) (clock (drain_part d))) (clock (drain_part d))"
  shows "waits (drain_config (drain_options_of options) (clock (drain_part d))) AtIsSyncing started_vars
      (drain_part (drainUntilEmpty options d))"
    and "app_part (drainUntilEmpty options d) = app_part d"
    and "outcomes (drain_part (drainUntilEmpty options d)) = outcomes (drain_part d)"
proof -
  let ?s = "drain_part d" and ?c = "drain_config (drain_options_of options) (clock (drain_part d))"
  let ?t = "\<lparr>cfg = ?c, vars = started_vars, pc = AtIsSyncing, phase = Settled (Stopped CANCELLED), log = [], began = clock ?s\<rparr>"
  have run: "runDrain (drain_options_of options) ?s = begin_wait AtIsSyncing None ?t (?s\<lparr>active := True, cancelled := False\<rparr>)"
    using idle by (simp add: runDrain_def Let_def started_vars_def)
  obtain i due where b: "begin_wait AtIsSyncing None ?t (?s\<lparr>active := True, cancelled := False\<rparr>) =
      ?s\<lparr>active := True, cancelled := False, nextId := Suc i, cancelWaiters := cancelWaiters ?s @ [i],
        task := Some (?t\<lparr>pc := AtIsSyncing, phase := Waiting i due None, log := Called AtIsSyncing # log ?t\<rparr>)\<rparr>"
    using begin_wait_waiting [of "?s\<lparr>active := True, cancelled := False\<rparr>" ?t AtIsSyncing] left by auto
  have "handle (Start (drain_options_of options)) ?s = Some (runDrain (drain_options_of options) ?s)"
    by (simp add: handle_def)
  then have "drain_inv (runDrain (drain_options_of options) ?s)" by (rule handle_inv [OF inv])
  then show "waits ?c AtIsSyncing started_vars (drain_part (drainUntilEmpty options d))"
    using left unfolding drainUntilEmpty_def by (simp add: waits_def run b)
  show "app_part (drainUntilEmpty options d) = app_part d"
    and "outcomes (drain_part (drainUntilEmpty options d)) = outcomes ?s"
    by (simp_all add: drainUntilEmpty_def run b)
qed

lemma exchange_reachable:
  assumes "reachable drain_app_init drain_app_step d" and "exchange outcome d = Some e"
  shows "reachable drain_app_init drain_app_step e"
  using assms unfolding exchange_def
  by (auto split: option.splits simp del: drain_app_handle.simps intro: reachable.reach_step drain_app_stepI)

lemma pump_reachable:
  "reachable drain_app_init drain_app_step d \<Longrightarrow> pump outcome k d = Some e \<Longrightarrow> reachable drain_app_init drain_app_step e"
  by (induction k arbitrary: d) (auto split: if_splits option.splits dest: exchange_reachable)

lemma drainUntilEmpty_reachable:
  "reachable drain_app_init drain_app_step d \<Longrightarrow> reachable drain_app_init drain_app_step (drainUntilEmpty options d)"
  by (rule reachable.reach_step [where e = "DrainUntilEmpty options"]) (auto intro: drain_app_stepI)

lemma exchange_fail:
  assumes w: "waits c p v (drain_part d)" and a: "drain_answer outcome p (app_part d) = (Inl err, a)"
  shows "\<exists>e t. exchange outcome d = Some e \<and> app_part e = a \<and> \<not> active (drain_part e) \<and>
    outcomes (drain_part e) = Failed err t # outcomes (drain_part d)"
proof -
  let ?s = "drain_part d"
  obtain t i due where t: "task ?s = Some t" "phase t = Waiting i due None" "pc t = p" and inv: "drain_inv ?s"
    using w by (auto simp: waits_def)
  have c: "current_wait ?s = Some (i, p, due, None)" using t by (simp add: current_wait_iff)
  have eq: "settle i (Rejected err) ?s = ?s\<lparr>cancelWaiters := [], task := Some (t\<lparr>phase := Settled (Rejected err)\<rparr>)\<rparr>"
    by (rule settle_current [OF inv t(1,2)])
  show ?thesis
    using a c by (simp add: exchange_def answer_wait_def eq handle_def resume_def finish_def)
qed

section \<open>A concrete process\<close>

text \<open>A native module whose world is the length of its queue and whose flush dispatches one item.\<close>

definition counting_native :: "nat native" where
  "counting_native = example_native
     \<lparr>native_isSyncing := (\<lambda>w. (Inr False, w)), native_getQueueSize := (\<lambda>w. (Inr (num (int w)), w)),
      native_getConnectionStatus := (\<lambda>w.
        (Inr \<lparr>conn_status = CONNECTED, conn_type = WIFI, conn_isInternetReachable = None, conn_isExpensive = None\<rparr>, w)),
      native_flush := (\<lambda>w. (Inr sentinel, w - 1))\<rparr>"

definition idle_drain :: drain_sys where
  "idle_drain =
     \<lparr>clock = 0, active = False, cancelled = False, cancelWaiters = [], nextId = 0, task = None, outcomes = []\<rparr>"

lemma counting_productive: "productive counting_native (\<lambda>w. w)"
  by (auto simp: productive_def counting_native_def)

lemma idle_reachable:
  assumes "app_init s"
  shows "reachable drain_app_init drain_app_step \<lparr>app_part = s, drain_part = idle_drain\<rparr>"
  using assms by (intro reachable.reach_init) (simp add: drain_app_init_def drain_init_def idle_drain_def)

lemma started_config:
  "drain_config (drain_options_of None) 0 =
     \<lparr>maxIterations = num 32, delayBetweenCyclesMs = num 0, deadlineAt = num 60000\<rparr>"
  using num_add_int [of 0 60000]
  by (simp add: drain_config_def drain_options_of_def finiteOr_def DRAIN_DEFAULT_MAX_ITERATIONS_def
      DRAIN_DEFAULT_TIMEOUT_MS_def)

lemma default_time_left: "time_left (drain_config (drain_options_of None) 0) 0"
  using num_sub_int [of 60000 0] unfolding started_config by (simp add: time_left_def)

section \<open>Properties\<close>

text \<open>C15: over the facade, whatever a drain rejects with is a \<open>SyncError\<close>: a refused second
  start, a native rejection inside the loop whatever its value, a missing native module.\<close>

theorem drain_errors_are_SyncErrors:
  assumes "reachable drain_app_init drain_app_step d"
    and "Failed e t \<in> set (outcomes (drain_part d)) \<or> Refused e \<in> set (outcomes (drain_part d))"
  shows "is_SyncError e"
  using assms(2)
proof
  assume "Failed e t \<in> set (outcomes (drain_part d))"
  then show ?thesis using drain_app_errors [OF assms(1)] by (auto simp: errors_ok_def)
next
  assume "Refused e \<in> set (outcomes (drain_part d))"
  moreover have "drain_inv (drain_part d)" using drain_app_parts [OF assms(1)] drain.reachable_inv by blast
  ultimately have "e = already_active_error" by (force simp: drain_inv_def)
  then show ?thesis by (simp add: already_active_error_def)
qed

lemma drain_errors_are_SyncErrors_witness:
  "\<exists>e (d :: nat drain_app). Refused e \<in> set (outcomes (drain_part d)) \<and> is_SyncError e"
proof -
  let ?d = "drainUntilEmpty None (drainUntilEmpty None \<lparr>app_part = fresh_app, drain_part = idle_drain\<rparr>)"
  have r: "reachable drain_app_init drain_app_step ?d"
    by (intro drainUntilEmpty_reachable idle_reachable) (simp add: app_init_def fresh_app_def)
  have "Refused already_active_error \<in> set (outcomes (drain_part ?d))"
    using waits_active [OF drainUntilEmpty_waits(1), of "\<lparr>app_part = fresh_app, drain_part = idle_drain\<rparr>" None]
      default_time_left drain.reachable_inv [OF drain_app_parts [OF idle_reachable, THEN conjunct2, of fresh_app]]
    by (simp add: idle_drain_def drainUntilEmpty_def [of None "drainUntilEmpty None _"] runDrain_def [of _ "drain_part (drainUntilEmpty None _)"]
        app_init_def fresh_app_def)
  with drain_errors_are_SyncErrors [OF r] show ?thesis by blast
qed

text \<open>without the native module a drain that has time left fails at its first call with
  \<open>NATIVE_MODULE_UNAVAILABLE\<close>, gives the lock back, and has changed nothing else.\<close>

theorem drain_without_native:
  assumes "reachable drain_app_init drain_app_step d" and "\<not> active (drain_part d)"
    and "resolved (probe (app_part d))" and "\<not> available (probe (app_part d))"
    and "time_left (drain_config (drain_options_of options) (clock (drain_part d))) (clock (drain_part d))"
  shows "\<exists>e t. pump outcome 1 (drainUntilEmpty options d) = Some e \<and> \<not> active (drain_part e) \<and>
    app_part e = app_part d \<and> outcomes (drain_part e) = Failed unavailable_error t # outcomes (drain_part d)"
proof -
  let ?d = "drainUntilEmpty options d"
  have inv: "drain_inv (drain_part d)" and pinv: "probe_inv (probe (app_part d))"
    using drain_app_parts [OF assms(1)] drain.reachable_inv app.reachable_inv by blast+
  note start = drainUntilEmpty_waits [OF inv assms(2,5)]
  have "cachedHybrid (probe (app_part d)) \<noteq> Created n" for n
    using pinv assms(4) by (simp add: probe_inv_def)
  then have "isSyncing outcome (app_part d) = (Inl unavailable_error, app_part d)"
    unfolding isSyncing_def native_call_run [OF pinv] using resolved_get [OF assms(3), of outcome]
    by (auto simp: native_of_def resolve_def split: created.splits)
  then have "drain_answer outcome AtIsSyncing (app_part ?d) = (Inl unavailable_error, app_part d)"
    using start(2) by (simp add: drain_answer_def replyA_def)
  from exchange_fail [OF start(1) this] start(3) waits_active [OF start(1)] show ?thesis by auto
qed

lemma drain_without_native_witness:
  "\<exists>e t. pump (Created example_native) 1 (drainUntilEmpty None \<lparr>app_part = missing_app, drain_part = idle_drain\<rparr>) = Some e \<and>
    outcomes (drain_part e) = [Failed unavailable_error t]"
proof -
  let ?d = "\<lparr>app_part = missing_app, drain_part = idle_drain\<rparr>"
  let ?e = "\<lparr>app_part = fresh_app, drain_part = idle_drain\<rparr>"
  have "reachable drain_app_init drain_app_step ?e"
    by (rule idle_reachable) (simp add: app_init_def fresh_app_def)
  then have "reachable drain_app_init drain_app_step ?d"
    by (rule reachable.reach_step [where e = "Elsewhere (FacadeCall Null Flush)"])
      (auto simp: missing_app_def simp del: run_facade.simps intro: drain_app_stepI)
  then show ?thesis
    using drain_without_native [of ?d None "Created example_native"] missing_app_probe default_time_left
    by (auto simp: idle_drain_def)
qed

text \<open>C7: a drain empties the queue. Over a productive native module, with time left, no delay
  between cycles and a bound on iterations that is no less than the size of the queue, a drain that is
  answered at once ends as EMPTY in at most four exchanges per item and three more: the queue is
  empty, every item was dispatched and counted, and the lock is free.\<close>

theorem drain_empties:
  assumes "reachable drain_app_init drain_app_step d" and "\<not> active (drain_part d)"
    and "native_of outcome (app_part d) = Some n" and "productive n len"
    and c: "c = drain_config (drain_options_of options) (clock (drain_part d))" and "time_left c (clock (drain_part d))"
    and "\<not> num_lt (num 0) (delayBetweenCyclesMs c)"
    and "m = len (world (app_part d))" and "num_le (num (int m)) (maxIterations c)" and "4 * m + 3 \<le> k"
  shows "\<exists>e r t. pump outcome k (drainUntilEmpty options d) = Some e \<and> \<not> active (drain_part e) \<and>
    outcomes (drain_part e) = Finished r t # outcomes (drain_part d) \<and> len (world (app_part e)) = 0 \<and>
    dres_stoppedReason r = EMPTY \<and> dres_queueRemaining r = 0 \<and> dres_itemsDispatched r = int m \<and>
    dres_iterations r \<le> int m"
proof -
  have inv: "drain_inv (drain_part d)" and rdy: "ready outcome n (app_part d)"
    using drain_app_parts [OF assms(1)] drain.reachable_inv app.reachable_inv assms(3) by (auto simp: ready_def)
  note start = drainUntilEmpty_waits [OF inv assms(2), of options, folded c, OF assms(6)]
  have "\<exists>e r t. pump outcome (4 * m + 3) (drainUntilEmpty options d) = Some e \<and> \<not> active (drain_part e) \<and>
      outcomes (drain_part e) = Finished r t # outcomes (drain_part (drainUntilEmpty options d)) \<and>
      len (world (app_part e)) = 0 \<and> dres_stoppedReason r = EMPTY \<and> dres_queueRemaining r = 0 \<and>
      dres_itemsDispatched r = goal_of started_vars m \<and> dres_iterations r \<le> iterations started_vars + int m"
    by (rule productive_drain [OF assms(4,7) start(1)])
      (use rdy start(2) assms(8,9) in \<open>simp_all add: started_vars_def\<close>)
  then show ?thesis
    using pump_more [OF _ _ assms(10)] start(3) by (auto simp: goal_of_def started_vars_def)
qed

lemma drain_empties_witness:
  "\<exists>e r t. pump (Created counting_native) 20
      (drainUntilEmpty None \<lparr>app_part = \<lparr>probe = initial_probe, world = 4\<rparr>, drain_part = idle_drain\<rparr>) = Some e \<and>
    outcomes (drain_part e) = [Finished r t] \<and> world (app_part e) = 0 \<and> dres_itemsDispatched r = 4"
proof -
  let ?d = "\<lparr>app_part = \<lparr>probe = initial_probe, world = 4\<rparr>, drain_part = idle_drain\<rparr> :: nat drain_app"
  have "reachable drain_app_init drain_app_step ?d" by (rule idle_reachable) (simp add: app_init_def)
  moreover have "native_of (Created counting_native) (app_part ?d) = Some counting_native"
    by (simp add: native_of_def initial_probe_def getNativeSyncProvider_def)
  moreover have "num_le (num (int 4)) (maxIterations (drain_config (drain_options_of None) 0))"
    and "\<not> num_lt (num 0) (delayBetweenCyclesMs (drain_config (drain_options_of None) 0))"
    unfolding started_config by simp_all
  ultimately show ?thesis
    using drain_empties [of ?d "Created counting_native" counting_native "\<lambda>w. w" _ None 4 20, OF _ _ _ counting_productive refl]
      default_time_left by (auto simp: idle_drain_def)
qed

end
