(* ===== verification/Hook_Types.thy ===== *)
theory Hook_Types
  imports Facade
begin

text \<open>
  The result and option types of the hooks (\<open>src/types/hooks.ts\<close>, \<open>src/contexts/SyncProvider.tsx\<close>).
  The functions a hook returns are actions over a process state \<open>'s\<close>; \<open>null\<close> is \<open>None\<close>.
\<close>

record use_connection_result =
  uc_status :: connection_status
  uc_type :: connection_type
  uc_isOnline :: bool
  uc_isMetered :: bool

record 's use_sync_queue_result =
  uq_size :: jsnum
  uq_items :: "sync_item list"
  uq_isLoading :: bool
  uq_error :: "thrown option"
  uq_enqueue :: "jsval \<Rightarrow> ('s, thrown, string) act"
  uq_enqueueBatch :: "jsval \<Rightarrow> ('s, thrown, string list) act"
  uq_removeItem :: "string \<Rightarrow> ('s, thrown, bool) act"
  uq_clearQueue :: "('s, thrown, unit) act"
  uq_refresh :: "('s, thrown, unit) act"

record 's use_sync_status_result =
  us_isSyncing :: bool
  us_isPaused :: bool
  us_progress :: "jsnum option"
  us_lastResult :: "sync_result option"
  us_error :: "thrown option"
  us_flush :: "('s, thrown, sync_result) act"
  us_pause :: "('s, thrown, unit) act"
  us_resume :: "('s, thrown, unit) act"

record 's use_offline_queue_result =
  uo_connection :: use_connection_result
  uo_size :: jsnum
  uo_items :: "sync_item list"
  uo_isSyncing :: bool
  uo_isWaitingForConnection :: bool
  uo_error :: "thrown option"
  uo_enqueue :: "jsval \<Rightarrow> ('s, thrown, string) act"
  uo_flush :: "('s, thrown, sync_result) act"

text \<open>A callback is known by a number, as in the facade.\<close>

record use_sync_events_options =
  ue_types :: "sync_event_type list option"
  ue_onEvent :: nat
  ue_enabled :: "bool option"

record 's use_sync_config_result =
  ug_config :: "sync_options option"
  ug_isLoading :: bool
  ug_error :: "thrown option"
  ug_setConfig :: "sync_options \<Rightarrow> ('s, thrown, unit) act"
  ug_refresh :: "('s, thrown, unit) act"

record use_auto_sync_options =
  ua_enabled :: "bool option"
  ua_flushOnReconnect :: "bool option"
  ua_flushOnMetered :: "bool option"
  ua_flushOnForeground :: "bool option"
  ua_backgroundSync :: "background_sync_options option"

text \<open>\<open>networkQuality\<close> and \<open>deadLetter\<close> are declared optional and no hook sets them.\<close>

record use_sync_snapshot_result =
  un_connection :: use_connection_result
  un_size :: jsnum
  un_items :: "sync_item list"
  un_isSyncing :: bool
  un_isPaused :: bool
  un_progress :: "jsnum option"
  un_lastResult :: "sync_result option"
  un_isWaitingForConnection :: bool
  un_error :: "thrown option"
  un_networkQuality :: "network_quality option"
  un_deadLetter :: "sync_dead_letter_item list option"

record sync_provider_context_value =
  ctx_config :: "sync_options option"
  ctx_hasProvider :: bool

definition default_context :: sync_provider_context_value where
  "default_context = \<lparr>ctx_config = None, ctx_hasProvider = False\<rparr>"

text \<open>\<open>deriveResult\<close> of \<open>useConnection\<close>; the other hooks repeat it inline.\<close>

definition deriveResult :: "connection_status \<Rightarrow> connection_type \<Rightarrow> use_connection_result" where
  "deriveResult status type =
     \<lparr>uc_status = status, uc_type = type, uc_isOnline = (status = CONNECTED \<or> status = METERED),
      uc_isMetered = (status = METERED)\<rparr>"

definition initial_connection :: use_connection_result where
  "initial_connection =
     \<lparr>uc_status = UNKNOWN, uc_type = UNKNOWN_TYPE, uc_isOnline = False, uc_isMetered = False\<rparr>"

lemma initial_connection_derived: "initial_connection = deriveResult UNKNOWN UNKNOWN_TYPE"
  by (simp add: initial_connection_def deriveResult_def)

end
