(* ===== verification/Web_Entry.thy ===== *)
theory Web_Entry
  imports Hook_Types
begin

text \<open>
  The web entry (\<open>src/index.web.tsx\<close>): the same functions and hooks without a native module.
  Functions reject, hooks return fixed inert state whose actions reject.
\<close>

section \<open>Facade\<close>

definition web_unavailable :: "string \<Rightarrow> thrown" where
  "web_unavailable method =
     new_SyncError NATIVE_MODULE_UNAVAILABLE
       (''react-native-sync-provider.'' @ method @ '' is not available on web.'') None None"

definition web_isNativeModuleAvailable :: bool where
  "web_isNativeModuleAvailable = False"

fun web_facade :: "facade_call \<Rightarrow> thrown + facade_reply" where
  "web_facade (Enqueue v) = Inl (web_unavailable ''enqueue'')"
| "web_facade (EnqueueBatch v) = Inl (web_unavailable ''enqueueBatch'')"
| "web_facade (RemoveItem i) = Inl (web_unavailable ''removeItem'')"
| "web_facade ClearQueue = Inl (web_unavailable ''clearQueue'')"
| "web_facade GetQueueSize = Inl (web_unavailable ''getQueueSize'')"
| "web_facade GetPendingItems = Inl (web_unavailable ''getPendingItems'')"
| "web_facade Flush = Inl (web_unavailable ''flush'')"
| "web_facade PauseSync = Inl (web_unavailable ''pauseSync'')"
| "web_facade ResumeSync = Inl (web_unavailable ''resumeSync'')"
| "web_facade IsSyncing = Inl (web_unavailable ''isSyncing'')"
| "web_facade (ConfigureSync cfg) = Inl (web_unavailable ''configureSync'')"
| "web_facade GetSyncConfig = Inl (web_unavailable ''getSyncConfig'')"
| "web_facade GetLastSyncResult = Inl (web_unavailable ''getLastSyncResult'')"
| "web_facade (GetSyncHistory l) = Inl (web_unavailable ''getSyncHistory'')"
| "web_facade ClearSyncHistory = Inl (web_unavailable ''clearSyncHistory'')"
| "web_facade GetConnectionStatus = Inl (web_unavailable ''getConnectionStatus'')"
| "web_facade (EnableBackgroundSync b) = Inl (web_unavailable ''enableBackgroundSync'')"
| "web_facade DisableBackgroundSync = Inl (web_unavailable ''disableBackgroundSync'')"
| "web_facade IsBackgroundSyncEnabled = Inl (web_unavailable ''isBackgroundSyncEnabled'')"
| "web_facade (AddSyncEventListener cb) = Inr (RString [])"
| "web_facade (RemoveSyncEventListener i) = Inr (RUnit ())"

definition web_drainUntilEmpty :: "drain_options option \<Rightarrow> thrown + drain_result" where
  "web_drainUntilEmpty options = Inl (web_unavailable ''drainUntilEmpty'')"

definition web_reject :: "string \<Rightarrow> ('s, thrown, 'a) act" where
  "web_reject method = throwA (web_unavailable method)"

section \<open>Hooks\<close>

definition INERT_CONNECTION :: use_connection_result where
  "INERT_CONNECTION = \<lparr>uc_status = UNKNOWN, uc_type = NONE, uc_isOnline = False, uc_isMetered = False\<rparr>"

definition web_useConnection :: use_connection_result where
  "web_useConnection = INERT_CONNECTION"

definition web_useSyncQueue :: "'s use_sync_queue_result" where
  "web_useSyncQueue =
     \<lparr>uq_size = num 0, uq_items = [], uq_isLoading = False, uq_error = None,
      uq_enqueue = (\<lambda>_. web_reject ''enqueue''), uq_enqueueBatch = (\<lambda>_. web_reject ''enqueueBatch''),
      uq_removeItem = (\<lambda>_. web_reject ''removeItem''), uq_clearQueue = web_reject ''clearQueue'',
      uq_refresh = web_reject ''refresh''\<rparr>"

definition web_useSyncStatus :: "'s use_sync_status_result" where
  "web_useSyncStatus =
     \<lparr>us_isSyncing = False, us_isPaused = False, us_progress = None, us_lastResult = None, us_error = None,
      us_flush = web_reject ''flush'', us_pause = web_reject ''pauseSync'', us_resume = web_reject ''resumeSync''\<rparr>"

definition web_useOfflineQueue :: "'s use_offline_queue_result" where
  "web_useOfflineQueue =
     \<lparr>uo_connection = INERT_CONNECTION, uo_size = num 0, uo_items = [], uo_isSyncing = False,
      uo_isWaitingForConnection = False, uo_error = None,
      uo_enqueue = (\<lambda>_. web_reject ''enqueue''), uo_flush = web_reject ''flush''\<rparr>"

definition web_useSyncSnapshot :: use_sync_snapshot_result where
  "web_useSyncSnapshot =
     \<lparr>un_connection = INERT_CONNECTION, un_size = num 0, un_items = [], un_isSyncing = False, un_isPaused = False,
      un_progress = None, un_lastResult = None, un_isWaitingForConnection = False, un_error = None,
      un_networkQuality = None, un_deadLetter = None\<rparr>"

definition web_useSyncConfig :: "'s use_sync_config_result" where
  "web_useSyncConfig =
     \<lparr>ug_config = None, ug_isLoading = False, ug_error = None,
      ug_setConfig = (\<lambda>_. web_reject ''configureSync''), ug_refresh = web_reject ''getSyncConfig''\<rparr>"

definition WEB_PROVIDER_VALUE :: sync_provider_context_value where
  "WEB_PROVIDER_VALUE = \<lparr>ctx_config = None, ctx_hasProvider = True\<rparr>"

text \<open>The context: its default, the value \<open>SyncProvider\<close> gives its children whatever its props, and its reader.\<close>

definition web_default_context :: sync_provider_context_value where
  "web_default_context = \<lparr>ctx_config = None, ctx_hasProvider = False\<rparr>"

definition web_SyncProvider :: "sync_options \<Rightarrow> background_sync_options option \<Rightarrow> sync_provider_context_value option" where
  "web_SyncProvider options backgroundSync = Some WEB_PROVIDER_VALUE"

definition web_useSyncContext :: "sync_provider_context_value option \<Rightarrow> sync_provider_context_value" where
  "web_useSyncContext provider = (case provider of None \<Rightarrow> web_default_context | Some v \<Rightarrow> v)"

section \<open>Parity with the native entry\<close>

fun is_listener_call :: "facade_call \<Rightarrow> bool" where
  "is_listener_call (AddSyncEventListener cb) = True"
| "is_listener_call (RemoveSyncEventListener i) = True"
| "is_listener_call _ = False"

lemma web_facade_cases:
  "if is_listener_call c then \<exists>r. web_facade c = Inr r
   else \<exists>e. web_facade c = Inl e \<and> error_code e = Some NATIVE_MODULE_UNAVAILABLE"
  by (cases c) (simp_all add: web_unavailable_def)

text \<open>C35: the web entry against the native entry without its module, for every call. The two listener
  functions resolve on the web where the native entry rejects. Every other call fails on both
  entries, on the web always with \<open>NATIVE_MODULE_UNAVAILABLE\<close>; the native entry fails with the same
  code exactly when the call passes its check: an \<open>enqueue\<close> or \<open>enqueueBatch\<close> of bad input fails with
  \<open>INVALID_URL\<close> or \<open>INVALID_PAYLOAD\<close> there, because only the native entry validates.\<close>

theorem web_parity:
  assumes "reachable app_init app_step s" and "resolved (probe s)" and "\<not> available (probe s)"
  shows "\<exists>e. run_facade outcome c s = (Inl e, s) \<and>
    (if is_listener_call c then error_code e = Some NATIVE_MODULE_UNAVAILABLE \<and> (\<exists>r. web_facade c = Inr r)
     else \<exists>f. web_facade c = Inl f \<and> error_code f = Some NATIVE_MODULE_UNAVAILABLE \<and>
       (error_code e = error_code f \<longleftrightarrow> guard_of c = Inr ()) \<and>
       (guard_of c \<noteq> Inr () \<longrightarrow> error_code e = Some INVALID_URL \<or> error_code e = Some INVALID_PAYLOAD))"
proof -
  have "is_listener_call c \<Longrightarrow> guard_of c = Inr ()" by (cases c) simp_all
  then show ?thesis using web_facade_cases [of c] guard_of_code [of c]
    by (cases "guard_of c") (auto simp: unavailable_run [OF assms] unavailable_error_def)
qed

lemma web_parity_witness:
  "\<exists>e f g h. run_facade Null Flush missing_app = (Inl e, missing_app) \<and> web_facade Flush = Inl f \<and> error_code f = error_code e \<and>
     run_facade Null (Enqueue JUndef) missing_app = (Inl g, missing_app) \<and> web_facade (Enqueue JUndef) = Inl h \<and>
     error_code h \<noteq> error_code g"
proof -
  have "\<not> conforms JUndef" by (simp add: conforms_def)
  then have "guard_of (Enqueue JUndef) \<noteq> Inr ()" using validateSyncItem_ok by simp
  then show ?thesis
    using web_parity [OF reachable_missing missing_app_probe, of Null Flush]
      web_parity [OF reachable_missing missing_app_probe, of Null "Enqueue JUndef"]
    by (auto simp del: run_facade.simps)
qed

end
