(* ===== verification/Hook_Runtime.thy ===== *)
theory Hook_Runtime
  imports Hook_Types
begin

text \<open>
  The runtime every hook of \<open>src/hooks\<close> and the provider share: React runs an effect and later its
  cleanup, the effect's \<open>async\<close> function waits on facade calls, and the native side delivers events
  to the registered listeners. A hook is the code between two waits, collected in a \<open>hook_code\<close>; the
  runtime is one step relation over it. \<open>'p\<close> is the props an effect closes over, \<open>'v\<close> the values of
  \<open>useState\<close> and \<open>useRef\<close>, \<open>'k\<close> the waits, \<open>'r\<close> the replies to them, \<open>'a\<close> the local stimuli
  (actions of the consumer, timers, application state).
\<close>

section \<open>Code and state\<close>

record ('p, 'v, 'k, 'r, 'a) hook_code =
  uses_ref :: bool
  start_effect :: "'p \<Rightarrow> 'v \<Rightarrow> 'v \<times> 'k list option"
  on_reply :: "'p \<Rightarrow> bool \<Rightarrow> 'r \<Rightarrow> 'v \<Rightarrow> 'v \<times> 'k list"
  on_event :: "'p \<Rightarrow> sync_event \<Rightarrow> 'v \<Rightarrow> 'v \<times> 'k list"
  on_act :: "'p \<Rightarrow> 'a \<Rightarrow> 'v \<Rightarrow> 'v \<times> 'k list"
  act_enabled :: "bool \<Rightarrow> 'p \<Rightarrow> 'a \<Rightarrow> bool"
  on_subscribed :: "bool \<Rightarrow> string \<Rightarrow> string option \<times> string list"
  drop_subscription :: "string option \<Rightarrow> string option \<times> string list"
  on_cleanup :: "'v \<Rightarrow> 'v \<times> 'k list"
  await_of :: "'r \<Rightarrow> 'k"
  subscribe_await :: 'k

text \<open>
  \<open>uses_ref\<close>: the \<open>cancelled\<close> flag is a ref of the instance, reset by each run of the effect, and not
  a local variable of the run. An effect that returns no cleanup function starts no wait: \<open>None\<close>.
  The second component of \<open>on_subscribed\<close> and \<open>drop_subscription\<close> lists the identifiers passed to
  \<open>removeSyncEventListener\<close>. \<open>closed\<close> is the run's own \<open>cancelled\<close>, set from the start when the
  effect returned no cleanup.
\<close>

record 'p effect_run =
  run_props :: 'p
  closed :: bool
  subscriptionId :: "string option"

record ('p, 'v, 'k) hook_state =
  vals :: 'v
  cancelledRef :: bool
  runs :: "'p effect_run list"
  pending :: "(nat \<times> 'k) list"
  registered :: "(string \<times> nat) list"
  removed :: "string list"

definition initial_hook :: "'v \<Rightarrow> ('p, 'v, 'k) hook_state" where
  "initial_hook v =
     \<lparr>vals = v, cancelledRef = False, runs = [], pending = [], registered = [], removed = []\<rparr>"

section \<open>Steps\<close>

datatype ('p, 'r, 'a) hook_event =
  Mount 'p | Cleanup | Reply nat 'r | SubscribeReply nat "thrown + string" | Deliver nat sync_event | Act nat 'a

definition is_cancelled :: "('p, 'v, 'k, 'r, 'a) hook_code \<Rightarrow> ('p, 'v, 'k) hook_state \<Rightarrow> nat \<Rightarrow> bool" where
  "is_cancelled c s n = (if uses_ref c then cancelledRef s else closed (runs s ! n))"

definition mounted :: "('p, 'v, 'k) hook_state \<Rightarrow> bool" where
  "mounted s \<longleftrightarrow> runs s \<noteq> [] \<and> \<not> closed (last (runs s))"

text \<open>Store the values a piece of code computed and start the waits it reached, for run \<open>n\<close>.\<close>

definition continue :: "nat \<Rightarrow> 'v \<times> 'k list \<Rightarrow> ('p, 'v, 'k) hook_state \<Rightarrow> ('p, 'v, 'k) hook_state" where
  "continue n r s = s\<lparr>vals := fst r, pending := pending s @ map (Pair n) (snd r)\<rparr>"

definition mount :: "('p, 'v, 'k, 'r, 'a) hook_code \<Rightarrow> 'p \<Rightarrow> ('p, 'v, 'k) hook_state \<Rightarrow> ('p, 'v, 'k) hook_state" where
  "mount c p s =
     (let (v, ks) = start_effect c p (vals s);
          s = s\<lparr>runs := runs s @ [\<lparr>run_props = p, closed = (ks = None), subscriptionId = None\<rparr>],
                cancelledRef := \<not> uses_ref c \<and> cancelledRef s\<rparr>
      in continue (length (runs s) - 1) (v, case ks of None \<Rightarrow> [] | Some ks \<Rightarrow> ks) s)"

definition cleanup :: "('p, 'v, 'k, 'r, 'a) hook_code \<Rightarrow> ('p, 'v, 'k) hook_state \<Rightarrow> ('p, 'v, 'k) hook_state" where
  "cleanup c s =
     (let n = length (runs s) - 1;
          (sid, gone) = drop_subscription c (subscriptionId (runs s ! n));
          s = s\<lparr>runs := (runs s)[n := (runs s ! n)\<lparr>closed := True, subscriptionId := sid\<rparr>],
                cancelledRef := uses_ref c \<or> cancelledRef s, removed := gone @ removed s\<rparr>
      in continue n (on_cleanup c (vals s)) s)"

definition subscribe_reply ::
  "('p, 'v, 'k, 'r, 'a) hook_code \<Rightarrow> nat \<Rightarrow> thrown + string \<Rightarrow> ('p, 'v, 'k) hook_state \<Rightarrow> ('p, 'v, 'k) hook_state" where
  "subscribe_reply c n res s =
     (let s = s\<lparr>pending := remove1 (n, subscribe_await c) (pending s)\<rparr>
      in case res of
           Inl e \<Rightarrow> s
         | Inr i \<Rightarrow>
             (let (sid, gone) = on_subscribed c (is_cancelled c s n) i
              in s\<lparr>runs := (runs s)[n := (runs s ! n)\<lparr>subscriptionId := sid\<rparr>],
                   registered := (i, n) # registered s, removed := gone @ removed s\<rparr>))"

text \<open>
  React cleans a run up before the next one. The native side may call a listener as soon as it has
  been asked to register it, and, because removal is asynchronous too, at any later time.
\<close>

fun hook_handle ::
  "('p, 'v, 'k, 'r, 'a) hook_code \<Rightarrow> ('p, 'r, 'a) hook_event \<Rightarrow> ('p, 'v, 'k) hook_state \<Rightarrow> ('p, 'v, 'k) hook_state option" where
  "hook_handle c (Mount p) s = (if mounted s then None else Some (mount c p s))"
| "hook_handle c Cleanup s = (if mounted s then Some (cleanup c s) else None)"
| "hook_handle c (Reply n r) s =
     (if (n, await_of c r) \<in> set (pending s) then
        Some (continue n (on_reply c (run_props (runs s ! n)) (is_cancelled c s n) r (vals s))
                (s\<lparr>pending := remove1 (n, await_of c r) (pending s)\<rparr>))
      else None)"
| "hook_handle c (SubscribeReply n res) s =
     (if (n, subscribe_await c) \<in> set (pending s) then Some (subscribe_reply c n res s) else None)"
| "hook_handle c (Deliver n e) s =
     (if (n, subscribe_await c) \<in> set (pending s) \<or> n \<in> snd ` set (registered s) then
        Some (continue n (on_event c (run_props (runs s ! n)) e (vals s)) s)
      else None)"
| "hook_handle c (Act n a) s =
     (if n < length (runs s) \<and> act_enabled c (closed (runs s ! n)) (run_props (runs s ! n)) a then
        Some (continue n (on_act c (run_props (runs s ! n)) a (vals s)) s)
      else None)"

inductive hook_step ::
  "('p, 'v, 'k, 'r, 'a) hook_code \<Rightarrow> ('p, 'v, 'k) hook_state \<Rightarrow> ('p, 'r, 'a) hook_event \<Rightarrow> ('p, 'v, 'k) hook_state \<Rightarrow> bool"
  for c where
  hook_stepI: "hook_handle c e s = Some t \<Longrightarrow> hook_step c s e t"

inductive_cases hook_stepE: "hook_step c s e t"

fun hook_run ::
  "('p, 'v, 'k, 'r, 'a) hook_code \<Rightarrow> ('p, 'r, 'a) hook_event list \<Rightarrow> ('p, 'v, 'k) hook_state \<Rightarrow> ('p, 'v, 'k) hook_state option" where
  "hook_run c [] s = Some s"
| "hook_run c (e # es) s = (case hook_handle c e s of None \<Rightarrow> None | Some t \<Rightarrow> hook_run c es t)"

abbreviation hook_reachable ::
  "('p, 'v, 'k, 'r, 'a) hook_code \<Rightarrow> 'v \<Rightarrow> ('p, 'v, 'k) hook_state \<Rightarrow> bool" where
  "hook_reachable c v \<equiv> reachable (\<lambda>s. s = initial_hook v) (hook_step c)"

section \<open>The invariant of the runtime\<close>

definition hook_inv :: "('p, 'v, 'k, 'r, 'a) hook_code \<Rightarrow> ('p, 'v, 'k) hook_state \<Rightarrow> bool" where
  "hook_inv c s \<longleftrightarrow>
     (\<forall>n < length (runs s). closed (runs s ! n) \<or> n = length (runs s) - 1) \<and>
     (\<forall>n \<in> fst ` set (pending s). n < length (runs s)) \<and>
     (\<forall>n \<in> snd ` set (registered s). n < length (runs s)) \<and>
     (mounted s \<and> uses_ref c \<longrightarrow> \<not> cancelledRef s)"

lemma continue_simps [simp]:
  "vals (continue n r s) = fst r" "runs (continue n r s) = runs s" "cancelledRef (continue n r s) = cancelledRef s"
  "registered (continue n r s) = registered s" "removed (continue n r s) = removed s"
  "pending (continue n r s) = pending s @ map (Pair n) (snd r)" "mounted (continue n r s) = mounted s"
  by (simp_all add: continue_def mounted_def)

lemma initial_hook_simps [simp]:
  "vals (initial_hook v) = v" "runs (initial_hook v) = []" "pending (initial_hook v) = []"
  "registered (initial_hook v) = []" "removed (initial_hook v) = []" "\<not> mounted (initial_hook v)"
  by (simp_all add: initial_hook_def mounted_def)

lemma mounted_last: "mounted s \<longleftrightarrow> runs s \<noteq> [] \<and> \<not> closed (runs s ! (length (runs s) - 1))"
  by (auto simp: mounted_def last_conv_nth)

lemma all_closed:
  "hook_inv c s \<Longrightarrow> \<not> mounted s \<Longrightarrow> n < length (runs s) \<Longrightarrow> closed (runs s ! n)"
  by (auto simp: hook_inv_def mounted_last)

lemma closed_or_last:
  "hook_inv c s \<Longrightarrow> n < length (runs s) \<Longrightarrow> closed (runs s ! n) \<or> (mounted s \<and> n = length (runs s) - 1)"
  by (auto simp: hook_inv_def mounted_last)

lemma pending_run: "hook_inv c s \<Longrightarrow> (n, k) \<in> set (pending s) \<Longrightarrow> n < length (runs s)"
  by (force simp: hook_inv_def)

lemma mount_simps [simp]:
  "vals (mount c p s) = fst (start_effect c p (vals s))"
  "runs (mount c p s) =
     runs s @ [\<lparr>run_props = p, closed = (snd (start_effect c p (vals s)) = None), subscriptionId = None\<rparr>]"
  "cancelledRef (mount c p s) = (\<not> uses_ref c \<and> cancelledRef s)"
  "pending (mount c p s) =
     pending s @ map (Pair (length (runs s))) (case snd (start_effect c p (vals s)) of None \<Rightarrow> [] | Some ks \<Rightarrow> ks)"
  "registered (mount c p s) = registered s" "removed (mount c p s) = removed s"
  by (simp_all add: mount_def split: prod.split)

lemma cleanup_simps [simp]:
  "vals (cleanup c s) = fst (on_cleanup c (vals s))"
  "runs (cleanup c s) = (runs s)[length (runs s) - 1 := (runs s ! (length (runs s) - 1))
     \<lparr>closed := True, subscriptionId := fst (drop_subscription c (subscriptionId (runs s ! (length (runs s) - 1))))\<rparr>]"
  "cancelledRef (cleanup c s) = (uses_ref c \<or> cancelledRef s)"
  "pending (cleanup c s) = pending s @ map (Pair (length (runs s) - 1)) (snd (on_cleanup c (vals s)))"
  "registered (cleanup c s) = registered s"
  "removed (cleanup c s) = snd (drop_subscription c (subscriptionId (runs s ! (length (runs s) - 1)))) @ removed s"
  by (simp_all add: cleanup_def Let_def split: prod.split)

lemma subscribe_reply_simps [simp]:
  "vals (subscribe_reply c n res s) = vals s"
  "pending (subscribe_reply c n res s) = remove1 (n, subscribe_await c) (pending s)"
  "cancelledRef (subscribe_reply c n res s) = cancelledRef s"
  "length (runs (subscribe_reply c n res s)) = length (runs s)"
  by (simp_all add: subscribe_reply_def Let_def split: sum.split prod.split)

lemma subscribe_reply_Inl [simp]:
  "runs (subscribe_reply c n (Inl e) s) = runs s" "registered (subscribe_reply c n (Inl e) s) = registered s"
  "removed (subscribe_reply c n (Inl e) s) = removed s"
  by (simp_all add: subscribe_reply_def)

lemma subscribe_reply_Inr [simp]:
  "runs (subscribe_reply c n (Inr i) s) =
     (runs s)[n := (runs s ! n)\<lparr>subscriptionId := fst (on_subscribed c (is_cancelled c s n) i)\<rparr>]"
  "registered (subscribe_reply c n (Inr i) s) = (i, n) # registered s"
  "removed (subscribe_reply c n (Inr i) s) = snd (on_subscribed c (is_cancelled c s n) i) @ removed s"
  by (simp_all add: subscribe_reply_def is_cancelled_def Let_def split: prod.split)

lemma subscribe_reply_closed [simp]:
  "n < length (runs s) \<Longrightarrow> closed (runs (subscribe_reply c n res s) ! m) = closed (runs s ! m)"
  by (cases res) (auto simp: nth_list_update)

lemma subscribe_reply_mounted [simp]:
  "n < length (runs s) \<Longrightarrow> mounted (subscribe_reply c n res s) = mounted s"
  using subscribe_reply_simps(4) [of c n res s] by (auto simp: mounted_last simp del: subscribe_reply_simps(4))

lemma cleanup_closed:
  "mounted s \<Longrightarrow> \<not> mounted (cleanup c s)"
  by (auto simp: mounted_last)

text \<open>Each step is one of the runtime's operations.\<close>

lemma hook_handle_cases [consumes 1, case_names Mount Cleanup Reply SubscribeReply Deliver Act]:
  assumes "hook_handle c e s = Some t"
  obtains p where "e = Mount p" "\<not> mounted s" "t = mount c p s"
  | "e = Cleanup" "mounted s" "t = cleanup c s"
  | n r where "e = Reply n r" "(n, await_of c r) \<in> set (pending s)"
      "t = continue n (on_reply c (run_props (runs s ! n)) (is_cancelled c s n) r (vals s))
             (s\<lparr>pending := remove1 (n, await_of c r) (pending s)\<rparr>)"
  | n res where "e = SubscribeReply n res" "(n, subscribe_await c) \<in> set (pending s)" "t = subscribe_reply c n res s"
  | n ev where "e = Deliver n ev" "(n, subscribe_await c) \<in> set (pending s) \<or> n \<in> snd ` set (registered s)"
      "t = continue n (on_event c (run_props (runs s ! n)) ev (vals s)) s"
  | n a where "e = Act n a" "n < length (runs s)" "act_enabled c (closed (runs s ! n)) (run_props (runs s ! n)) a"
      "t = continue n (on_act c (run_props (runs s ! n)) a (vals s)) s"
  using assms by (cases e) (simp_all split: if_splits)

lemma hook_inv_initial: "hook_inv c (initial_hook v)"
  by (simp add: hook_inv_def)

lemma hook_inv_handle:
  assumes inv: "hook_inv c s" and step: "hook_handle c e s = Some t"
  shows "hook_inv c t"
  using step
proof (cases rule: hook_handle_cases)
  case (Mount p)
  with inv show ?thesis
    by (auto simp: hook_inv_def nth_append less_Suc_eq mounted_last all_closed [OF inv] split: option.splits)
next
  case Cleanup
  then have "\<not> mounted t" by (simp add: cleanup_closed)
  with Cleanup inv show ?thesis
    by (auto simp: hook_inv_def nth_list_update mounted_def)
next
  case (Reply n r)
  with pending_run [OF inv] inv show ?thesis
    by (auto simp: hook_inv_def mounted_def dest: notin_set_remove1 in_set_remove1)
next
  case (SubscribeReply n res)
  with pending_run [OF inv] inv show ?thesis
    by (cases res) (auto simp: hook_inv_def nth_list_update dest: notin_set_remove1)
next
  case (Deliver n ev)
  with pending_run [OF inv] inv show ?thesis by (auto simp: hook_inv_def)
next
  case (Act n a)
  with inv show ?thesis by (auto simp: hook_inv_def)
qed

interpretation hook: invariant_system "\<lambda>s. s = initial_hook v" "hook_step c" "hook_inv c" for c v
  by unfold_locales (auto simp: hook_inv_initial elim: hook_stepE hook_inv_handle)

section \<open>One listener per run\<close>

text \<open>
  \<open>w\<close> weighs a wait by the subscriptions it can still lead to. \<open>tokens\<close> is what a run can reach:
  the weight of its waits and the listeners it has.
\<close>

definition tokens :: "('k \<Rightarrow> nat) \<Rightarrow> nat \<Rightarrow> ('p, 'v, 'k) hook_state \<Rightarrow> nat" where
  "tokens w n s =
     sum_list (map (\<lambda>(m, k). if m = n then w k else 0) (pending s)) +
     length (filter (\<lambda>(i, m). m = n) (registered s))"

definition single_inv ::
  "('p, 'v, 'k, 'r, 'a) hook_code \<Rightarrow> ('k \<Rightarrow> nat) \<Rightarrow> ('p, 'v, 'k) hook_state \<Rightarrow> bool" where
  "single_inv c w s \<longleftrightarrow> hook_inv c s \<and> (\<forall>n. tokens w n s \<le> 1) \<and>
     (\<forall>(i, n) \<in> set (registered s). \<not> closed (runs s ! n) \<longrightarrow> subscriptionId (runs s ! n) = Some i)"

lemma sum_weights [simp]:
  "sum_list (map (\<lambda>(m, k). if m = n then w k else 0) (map (Pair j) ks)) = (if j = n then sum_list (map w ks) else (0 :: nat))"
  by (induction ks) simp_all

lemma tokens_continue:
  "tokens w n (continue m r s) = tokens w n s + (if m = n then sum_list (map w (snd r)) else 0)"
  by (simp add: tokens_def del: map_map)

lemma tokens_take:
  assumes "(m, k) \<in> set (pending s)"
  shows "tokens w n (s\<lparr>pending := remove1 (m, k) (pending s)\<rparr>) + (if m = n then w k else 0) = tokens w n s"
  using sum_list_map_remove1 [OF assms, of "\<lambda>(m, k). if m = n then w k else 0"] by (simp add: tokens_def)

lemma tokens_fresh:
  assumes inv: "hook_inv c s"
  shows "tokens w (length (runs s)) s = 0"
proof -
  have "(length (runs s), k) \<notin> set (pending s)" for k
    using inv by (force simp: hook_inv_def)
  moreover have "filter (\<lambda>(i, m). m = length (runs s)) (registered s) = []"
    using inv by (auto simp: hook_inv_def filter_empty_conv)
  ultimately show ?thesis
    by (auto simp: tokens_def sum_list_eq_0_iff split: prod.splits)
qed

lemma tokens_registered:
  assumes "tokens w n s \<le> 1" and "(i, n) \<in> set (registered s)" and "(j, n) \<in> set (registered s)"
  shows "i = j"
proof -
  have len: "length (filter (\<lambda>(i, m). m = n) (registered s)) \<le> 1" using assms(1) by (simp add: tokens_def)
  have "(i, n) \<in> set (filter (\<lambda>(i, m). m = n) (registered s))" "(j, n) \<in> set (filter (\<lambda>(i, m). m = n) (registered s))"
    using assms(2,3) by simp_all
  then show ?thesis using len
    by (cases "filter (\<lambda>(i, m). m = n) (registered s)") auto
qed

lemma tokens_subscribing:
  assumes "tokens w n s \<le> 1" and "(n, k) \<in> set (pending s)" and "w k = 1"
  shows "(i, n) \<notin> set (registered s)"
proof
  assume "(i, n) \<in> set (registered s)"
  then have "filter (\<lambda>(i, m). m = n) (registered s) \<noteq> []" by (auto simp: filter_empty_conv)
  then have "1 \<le> length (filter (\<lambda>(i, m). m = n) (registered s))" by (cases "filter (\<lambda>(i, m). m = n) (registered s)") simp_all
  moreover have "1 \<le> sum_list (map (\<lambda>(m, k). if m = n then w k else 0) (pending s))"
    using sum_list_map_remove1 [OF assms(2), of "\<lambda>(m, k). if m = n then w k else 0"] assms(3) by simp
  ultimately show False using assms(1) by (simp add: tokens_def)
qed

locale single_subscription =
  fixes c :: "('p, 'v, 'k, 'r, 'a) hook_code" and w :: "'k \<Rightarrow> nat"
  assumes weight_subscribe: "w (subscribe_await c) = 1"
    and weight_start: "snd (start_effect c p v) = Some ks \<Longrightarrow> sum_list (map w ks) \<le> 1"
    and weight_reply: "sum_list (map w (snd (on_reply c p b r v))) \<le> w (await_of c r)"
    and weight_event: "sum_list (map w (snd (on_event c p e v))) = 0"
    and weight_act: "sum_list (map w (snd (on_act c p a v))) = 0"
    and weight_cleanup: "sum_list (map w (snd (on_cleanup c v))) = 0"
    and subscribed: "on_subscribed c False i = (Some i, [])"
      "uses_ref c \<Longrightarrow> on_subscribed c True i = (Some i, [])"
    and dropped: "set (snd (drop_subscription c (Some i))) = {i}"
begin

lemma tokens_step:
  assumes inv: "single_inv c w s" and step: "hook_handle c e s = Some t"
  shows "tokens w n t \<le> 1"
proof -
  have hi: "hook_inv c s" and le: "tokens w m s \<le> 1" for m using inv by (simp_all add: single_inv_def)
  show ?thesis
    using step
  proof (cases rule: hook_handle_cases)
    case (Mount p)
    have "tokens w n t = tokens w n s + (if length (runs s) = n
        then sum_list (map w (case snd (start_effect c p (vals s)) of None \<Rightarrow> [] | Some ks \<Rightarrow> ks)) else 0)"
      using Mount by (simp add: tokens_def del: map_map)
    also have "\<dots> \<le> 1"
      using le tokens_fresh [OF hi, of w] weight_start by (auto split: option.split)
    finally show ?thesis .
  next
    case Cleanup
    then have "tokens w n t = tokens w n s"
      using weight_cleanup [of "vals s"] by (simp add: tokens_def del: map_map sum_list_eq_0_iff)
    then show ?thesis using le by simp
  next
    case (Reply m r)
    show ?thesis
      using tokens_take [OF Reply(2), of w n] le [of n] weight_reply [of "run_props (runs s ! m)" "is_cancelled c s m" r "vals s"]
      unfolding Reply(3) tokens_continue by (auto split: if_splits)
  next
    case (SubscribeReply m res)
    then have "tokens w n t = tokens w n (s\<lparr>pending := remove1 (m, subscribe_await c) (pending s)\<rparr>) + (if m = n \<and> (\<exists>i. res = Inr i) then 1 else 0)"
      by (cases res) (auto simp: tokens_def)
    then show ?thesis
      using tokens_take [OF SubscribeReply(2), of w n] le [of n] weight_subscribe by (auto split: if_splits)
  next
    case (Deliver m ev)
    then show ?thesis using le [of n] weight_event by (simp add: tokens_continue del: sum_list_eq_0_iff)
  next
    case (Act m a)
    then show ?thesis using le [of n] weight_act by (simp add: tokens_continue del: sum_list_eq_0_iff)
  qed
qed

lemma single_inv_step:
  assumes inv: "single_inv c w s" and step: "hook_handle c e s = Some t"
  shows "single_inv c w t"
proof -
  have hi: "hook_inv c s" and ids: "(i, n) \<in> set (registered s) \<Longrightarrow> \<not> closed (runs s ! n) \<Longrightarrow> subscriptionId (runs s ! n) = Some i"
    for i n using inv by (auto simp: single_inv_def)
  have run: "(i, n) \<in> set (registered s) \<Longrightarrow> n < length (runs s)" for i n
    using hi by (force simp: hook_inv_def)
  have "subscriptionId (runs t ! n) = Some i" if reg: "(i, n) \<in> set (registered t)" and open_run: "\<not> closed (runs t ! n)" for i n
    using step
  proof (cases rule: hook_handle_cases)
    case (Mount p)
    with reg open_run ids run show ?thesis by (auto simp: nth_append)
  next
    case Cleanup
    with reg open_run ids run [of i n] show ?thesis by (auto simp: nth_list_update split: if_splits)
  next
    case (SubscribeReply m res)
    have m: "m < length (runs s)" using pending_run [OF hi SubscribeReply(2)] .
    show ?thesis
    proof (cases res)
      case (Inl e)
      with SubscribeReply reg open_run ids show ?thesis by simp
    next
      case (Inr j)
      show ?thesis
      proof (cases "n = m")
        case True
        have old: "(k, m) \<notin> set (registered s)" for k
          using tokens_subscribing [of w m s "subscribe_await c" k] SubscribeReply(2) weight_subscribe inv
          by (simp add: single_inv_def)
        have "\<not> closed (runs s ! m)" using open_run True SubscribeReply m by simp
        moreover then have "mounted s" using closed_or_last [OF hi m] by blast
        ultimately have "is_cancelled c s m \<Longrightarrow> uses_ref c"
          by (auto simp: is_cancelled_def split: if_splits)
        then have "fst (on_subscribed c (is_cancelled c s m) j) = Some j"
          using subscribed by (cases "is_cancelled c s m") auto
        then show ?thesis using True old reg SubscribeReply Inr m by auto
      next
        case False
        with SubscribeReply Inr reg open_run ids show ?thesis by (auto simp: nth_list_update split: if_splits)
      qed
    qed
  next
    case (Reply m r)
    with reg open_run ids show ?thesis by simp
  next
    case (Deliver m ev)
    with reg open_run ids show ?thesis by simp
  next
    case (Act m a)
    with reg open_run ids show ?thesis by simp
  qed
  then show ?thesis
    using tokens_step [OF inv step] hook_inv_handle [OF hi step] by (auto simp: single_inv_def)
qed

lemma single_inv_reachable: "hook_reachable c v s \<Longrightarrow> single_inv c w s"
proof (induction rule: reachable.induct)
  case (reach_init s)
  then show ?case by (simp add: single_inv_def hook_inv_initial tokens_def)
next
  case (reach_step s e t)
  then show ?case by (blast elim: hook_stepE intro: single_inv_step)
qed

lemma one_listener:
  "hook_reachable c v s \<Longrightarrow> (i, n) \<in> set (registered s) \<Longrightarrow> (j, n) \<in> set (registered s) \<Longrightarrow> i = j"
  using single_inv_reachable tokens_registered by (metis single_inv_def)

lemma cleanup_unsubscribes:
  assumes "hook_reachable c v s" and "mounted s" and "(i, length (runs s) - 1) \<in> set (registered s)"
  shows "i \<in> set (removed (cleanup c s))"
proof -
  have "subscriptionId (runs s ! (length (runs s) - 1)) = Some i"
    using single_inv_reachable [OF assms(1)] assms(2,3) by (auto simp: single_inv_def mounted_last)
  then show ?thesis using dropped by simp
qed

end

section \<open>A run that removes its late listener\<close>

text \<open>The extra law of a hook that checks its flag after \<open>addSyncEventListener\<close> resolved.\<close>

locale late_safe = single_subscription c w
  for c :: "('p, 'v, 'k, 'r, 'a) hook_code" and w :: "'k \<Rightarrow> nat" +
  assumes own_flag: "\<not> uses_ref c"
    and late: "on_subscribed c True i = (None, [i])"
begin

lemma closed_removed_step:
  assumes inv: "single_inv c w s" and step: "hook_handle c e s = Some t"
    and ih: "\<And>i n. (i, n) \<in> set (registered s) \<Longrightarrow> closed (runs s ! n) \<Longrightarrow> i \<in> set (removed s)"
    and reg: "(i, n) \<in> set (registered t)" and cl: "closed (runs t ! n)"
  shows "i \<in> set (removed t)"
proof -
  have hi: "hook_inv c s" and ids: "(j, m) \<in> set (registered s) \<Longrightarrow> \<not> closed (runs s ! m) \<Longrightarrow> subscriptionId (runs s ! m) = Some j"
    for j m using inv by (auto simp: single_inv_def)
  have run: "(j, m) \<in> set (registered s) \<Longrightarrow> m < length (runs s)" for j m
    using hi by (force simp: hook_inv_def)
  show ?thesis
    using step
  proof (cases rule: hook_handle_cases)
    case (Mount p)
    with reg cl ih run show ?thesis by (auto simp: nth_append)
  next
    case Cleanup
    show ?thesis
    proof (cases "closed (runs s ! n)")
      case True
      with Cleanup reg ih show ?thesis by simp
    next
      case False
      then have "subscriptionId (runs s ! n) = Some i" "n = length (runs s) - 1"
        using Cleanup reg ids closed_or_last [OF hi, of n] run [of i n] by auto
      with Cleanup dropped show ?thesis by simp
    qed
  next
    case (SubscribeReply m res)
    have m: "m < length (runs s)" using pending_run [OF hi SubscribeReply(2)] .
    have "closed (runs s ! n)" using cl SubscribeReply m by simp
    then show ?thesis
      using SubscribeReply reg ih late own_flag by (cases res) (auto simp: is_cancelled_def)
  next
    case (Reply m r)
    with reg cl ih show ?thesis by simp
  next
    case (Deliver m ev)
    with reg cl ih show ?thesis by simp
  next
    case (Act m a)
    with reg cl ih show ?thesis by simp
  qed
qed

lemma no_leak:
  assumes "hook_reachable c v s" and "(i, n) \<in> set (registered s)" and "closed (runs s ! n)"
  shows "i \<in> set (removed s)"
  using assms
proof (induction arbitrary: i n rule: reachable.induct)
  case (reach_init s)
  then show ?case by simp
next
  case (reach_step s e t)
  from reach_step.hyps(2) have "hook_handle c e s = Some t" by (rule hook_stepE)
  then show ?case
    using closed_removed_step [OF single_inv_reachable [OF reach_step.hyps(1)]] reach_step.IH reach_step.prems by blast
qed

end

section \<open>Replies after the cleanup\<close>

text \<open>The law of a hook that guards every update behind an \<open>await\<close>: with the flag set, a reply
  changes nothing the hook shows.\<close>

fun is_reply :: "('p, 'r, 'a) hook_event \<Rightarrow> bool" where
  "is_reply (Reply n r) = True"
| "is_reply (SubscribeReply n res) = True"
| "is_reply _ = False"

definition ended :: "('p, 'v, 'k, 'r, 'a) hook_code \<Rightarrow> ('p, 'v, 'k) hook_state \<Rightarrow> bool" where
  "ended c s \<longleftrightarrow> hook_inv c s \<and> \<not> mounted s \<and> (uses_ref c \<longrightarrow> cancelledRef s)"

locale guarded_replies =
  fixes c :: "('p, 'v, 'k, 'r, 'a) hook_code" and shown :: "'v \<Rightarrow> 'x"
  assumes reply_guarded: "shown (fst (on_reply c p True r v)) = shown v"
    and cleanup_shown: "shown (fst (on_cleanup c v)) = shown v"
begin

lemma ended_cancelled: "ended c s \<Longrightarrow> (n, k) \<in> set (pending s) \<Longrightarrow> is_cancelled c s n"
  using all_closed [of c s n] pending_run [of c s n k] by (auto simp: ended_def is_cancelled_def)

lemma ended_reply:
  assumes "ended c s" and "is_reply e" and step: "hook_handle c e s = Some t"
  shows "ended c t \<and> shown (vals t) = shown (vals s)"
  using step
proof (cases rule: hook_handle_cases)
  case (Reply n r)
  then have "is_cancelled c s n" using ended_cancelled [OF assms(1)] by blast
  then have "shown (vals t) = shown (vals s)" using Reply(3) reply_guarded by simp
  moreover have "ended c t"
    using assms(1) hook_inv_handle [OF _ step] Reply(3) by (simp add: ended_def mounted_def)
  ultimately show ?thesis by simp
next
  case (SubscribeReply n res)
  then show ?thesis
    using assms(1) hook_inv_handle [OF _ step] pending_run [of c s n "subscribe_await c"] by (simp add: ended_def)
qed (use assms in simp_all)

lemma ended_replies:
  "ended c s \<Longrightarrow> \<forall>e \<in> set es. is_reply e \<Longrightarrow> hook_run c es s = Some t \<Longrightarrow> shown (vals t) = shown (vals s)"
proof (induction es arbitrary: s)
  case (Cons e es)
  then show ?case using ended_reply [of s e] by (auto split: option.splits)
qed simp

lemma cleanup_ended: "hook_reachable c v s \<Longrightarrow> mounted s \<Longrightarrow> ended c (cleanup c s)"
  using hook.reachable_inv [of v c s] hook_inv_handle [of c s Cleanup "cleanup c s"] cleanup_closed [of s c]
  by (auto simp: ended_def)

lemma nothing_after_cleanup:
  assumes "hook_reachable c v s" and "mounted s" and "\<forall>e \<in> set es. is_reply e"
    and "hook_run c es (cleanup c s) = Some t"
  shows "shown (vals t) = shown (vals s)"
  using ended_replies [OF cleanup_ended [OF assms(1,2)] assms(3,4)] cleanup_shown by simp

end

lemma hook_run_reachable: "hook_reachable c v s \<Longrightarrow> hook_run c es s = Some t \<Longrightarrow> hook_reachable c v t"
proof (induction es arbitrary: s)
  case (Cons e es)
  then show ?case by (auto split: option.splits intro: reachable.reach_step hook_stepI)
qed simp

lemma hook_run_initial: "hook_run c es (initial_hook v) = Some t \<Longrightarrow> hook_reachable c v t"
  by (rule hook_run_reachable [OF reachable.reach_init]) simp_all

section \<open>What the hooks repeat\<close>

text \<open>\<open>err instanceof SyncError ? err : new SyncError(INVALID_PAYLOAD, message, err)\<close>.\<close>

definition captured_error :: "string \<Rightarrow> thrown \<Rightarrow> thrown" where
  "captured_error message err =
     (if is_SyncError err then err else new_SyncError INVALID_PAYLOAD message (Some err) None)"

lemma captured_error_is_SyncError [simp]: "is_SyncError (captured_error m e)"
  by (simp add: captured_error_def)

text \<open>Every hook but \<open>useSyncEvents\<close> keeps the identifier whatever its flag says, and its cleanup
  unsubscribes when an identifier is there, without clearing it.\<close>

definition keep_subscription :: "bool \<Rightarrow> string \<Rightarrow> string option \<times> string list" where
  "keep_subscription cancelled i = (Some i, [])"

definition unsubscribe :: "string option \<Rightarrow> string option \<times> string list" where
  "unsubscribe sid = (sid, case sid of None \<Rightarrow> [] | Some i \<Rightarrow> [i])"

definition no_act :: "'p \<Rightarrow> 'a \<Rightarrow> 'v \<Rightarrow> 'v \<times> 'k list" where
  "no_act p a v = (v, [])"

lemmas hook_defs = keep_subscription_def unsubscribe_def no_act_def

section \<open>Histories of events\<close>

fun delivered :: "('p, 'r, 'a) hook_event list \<Rightarrow> sync_event list" where
  "delivered [] = []"
| "delivered (Deliver n e # es) = e # delivered es"
| "delivered (_ # es) = delivered es"

text \<open>The change the last event that makes one made, or the default.\<close>

definition latest :: "(sync_event \<Rightarrow> 'b option) \<Rightarrow> 'b \<Rightarrow> sync_event list \<Rightarrow> 'b" where
  "latest f d es = last (d # List.map_filter f es)"

lemma latest_Nil [simp]: "latest f d [] = d"
  by (simp add: latest_def map_filter_simps)

lemma latest_Cons [simp]: "latest f d (e # es) = latest f (case f e of None \<Rightarrow> d | Some b \<Rightarrow> b) es"
  by (simp add: latest_def map_filter_simps split: option.split)

text \<open>A value that only events change, each as \<open>f\<close> says, is the latest change.\<close>

locale event_driven =
  fixes c :: "('p, 'v, 'k, 'r, 'a) hook_code" and get :: "'v \<Rightarrow> 'b" and f :: "sync_event \<Rightarrow> 'b option"
  assumes start_keeps: "get (fst (start_effect c p v)) = get v"
    and reply_keeps: "get (fst (on_reply c p b r v)) = get v"
    and act_keeps: "get (fst (on_act c p a v)) = get v"
    and cleanup_keeps: "get (fst (on_cleanup c v)) = get v"
    and event_changes: "get (fst (on_event c p e v)) = (case f e of None \<Rightarrow> get v | Some b \<Rightarrow> b)"
begin

lemma step_latest:
  assumes "hook_handle c e s = Some t"
  shows "get (vals t) = latest f (get (vals s)) (delivered [e])"
  using assms
  by (cases rule: hook_handle_cases)
    (simp_all add: start_keeps reply_keeps act_keeps cleanup_keeps event_changes)

lemma run_latest: "hook_run c es s = Some t \<Longrightarrow> get (vals t) = latest f (get (vals s)) (delivered es)"
proof (induction es arbitrary: s)
  case (Cons e es)
  then obtain u where u: "hook_handle c e s = Some u" "hook_run c es u = Some t" by (auto split: option.splits)
  have "latest f (get (vals s)) (delivered (e # es)) = latest f (latest f (get (vals s)) (delivered [e])) (delivered es)"
    by (cases e) simp_all
  then show ?case using Cons.IH [OF u(2)] step_latest [OF u(1)] by simp
qed simp

end

section \<open>Predicates on the values, and loading flags\<close>

text \<open>What every piece of a hook's code keeps of its values holds in every reachable state.\<close>

locale vals_invariant =
  fixes c :: "('p, 'v, 'k, 'r, 'a) hook_code" and good :: "'v \<Rightarrow> bool"
  assumes start_good: "good v \<Longrightarrow> good (fst (start_effect c p v))"
    and reply_good: "good v \<Longrightarrow> good (fst (on_reply c p b r v))"
    and event_good: "good v \<Longrightarrow> good (fst (on_event c p e v))"
    and act_good: "good v \<Longrightarrow> good (fst (on_act c p a v))"
    and cleanup_good: "good v \<Longrightarrow> good (fst (on_cleanup c v))"
begin

lemma step_good:
  assumes "hook_handle c e s = Some t" and "good (vals s)"
  shows "good (vals t)"
  using assms(1)
  by (cases rule: hook_handle_cases)
    (simp_all add: assms(2) start_good reply_good event_good act_good cleanup_good)

lemma reachable_good:
  assumes "good v"
  shows "hook_reachable c v s \<Longrightarrow> good (vals s)"
proof (induction rule: reachable.induct)
  case (reach_init s)
  then show ?case using assms by simp
next
  case (reach_step s e t)
  then show ?case by (blast elim: hook_stepE intro: step_good)
qed

end

text \<open>A flag that each read sets when it starts and clears when it settles.\<close>

locale loading_flag =
  fixes c :: "('p, 'v, 'k, 'r, 'a) hook_code" and loading :: "'v \<Rightarrow> bool" and read :: 'k
  assumes ref: "uses_ref c" and not_subscribe: "read \<noteq> subscribe_await c"
    and start_reads: "snd (start_effect c p v) = Some ks \<Longrightarrow> read \<in> set ks"
    and reply_loading: "loading (fst (on_reply c p False r v)) \<Longrightarrow>
      read \<in> set (snd (on_reply c p False r v)) \<or> (loading v \<and> await_of c r \<noteq> read)"
    and event_loading: "loading (fst (on_event c p e v)) \<Longrightarrow> read \<in> set (snd (on_event c p e v)) \<or> loading v"
    and act_loading: "loading (fst (on_act c p a v)) \<Longrightarrow> read \<in> set (snd (on_act c p a v)) \<or> loading v"
begin

lemma loading_step:
  assumes hi: "hook_inv c s" and step: "hook_handle c e s = Some t"
    and ih: "mounted s \<Longrightarrow> loading (vals s) \<Longrightarrow> \<exists>n. (n, read) \<in> set (pending s)"
    and m: "mounted t" and l: "loading (vals t)"
  shows "\<exists>n. (n, read) \<in> set (pending t)"
  using step
proof (cases rule: hook_handle_cases)
  case (Mount p)
  then obtain ks where "snd (start_effect c p (vals s)) = Some ks" using m by (auto simp: mounted_def)
  with Mount start_reads show ?thesis by (auto simp: image_iff)
next
  case Cleanup
  with m cleanup_closed show ?thesis by blast
next
  case (Reply n r)
  have ms: "mounted s" using m Reply(3) by (simp add: mounted_def)
  then have "\<not> is_cancelled c s n" using hi ref by (auto simp: hook_inv_def is_cancelled_def)
  then have "read \<in> set (snd (on_reply c (run_props (runs s ! n)) False r (vals s))) \<or>
      (loading (vals s) \<and> await_of c r \<noteq> read)"
    using reply_loading l Reply(3) by simp
  then show ?thesis
  proof
    assume "loading (vals s) \<and> await_of c r \<noteq> read"
    moreover from this obtain j where "(j, read) \<in> set (pending s)" using ih ms by blast
    ultimately have "(j, read) \<in> set (remove1 (n, await_of c r) (pending s))" by (auto simp: in_set_remove1)
    then show ?thesis using Reply(3) by auto
  qed (use Reply(3) \<open>\<not> is_cancelled c s n\<close> in \<open>auto simp: image_iff\<close>)
next
  case (SubscribeReply n res)
  then have "mounted s" using m pending_run [OF hi] by simp
  then obtain j where "(j, read) \<in> set (pending s)" using ih l SubscribeReply(3) by auto
  then have "(j, read) \<in> set (remove1 (n, subscribe_await c) (pending s))"
    using not_subscribe by (auto simp: in_set_remove1)
  then show ?thesis using SubscribeReply(3) by auto
next
  case (Deliver n ev)
  then have "mounted s" using m by simp
  then show ?thesis using Deliver(3) event_loading l ih by (fastforce simp: image_iff)
next
  case (Act n a)
  then have "mounted s" using m by simp
  then show ?thesis using Act(4) act_loading l ih by (fastforce simp: image_iff)
qed

lemma loading_has_read:
  "hook_reachable c v s \<Longrightarrow> mounted s \<Longrightarrow> loading (vals s) \<Longrightarrow> \<exists>n. (n, read) \<in> set (pending s)"
proof (induction rule: reachable.induct)
  case (reach_init s)
  then show ?case by simp
next
  case (reach_step s e t)
  from reach_step.hyps(2) have "hook_handle c e s = Some t" by (rule hook_stepE)
  then show ?case
    using loading_step [OF hook.reachable_inv [OF reach_step.hyps(1)]] reach_step.IH reach_step.prems by blast
qed

end

section \<open>Concrete runs\<close>

lemmas hook_run_simps =
  initial_hook_def mount_def continue_def cleanup_def subscribe_reply_def mounted_def is_cancelled_def hook_defs

definition event_at :: "sync_event_type \<Rightarrow> connection_status option \<Rightarrow> sync_event" where
  "event_at t k =
     \<lparr>ev_type = t, ev_timestamp = num 0, ev_itemId = None, ev_progress = None, ev_errorCode = None,
      ev_statusCode = None, ev_attempt = None, ev_connectionStatus = k, ev_metadata = None\<rparr>"

end
