(* ===== verification/Status_Hooks.thy ===== *)
theory Status_Hooks
  imports Hook_Runtime
begin

text \<open>
  The observing hooks: \<open>useConnection\<close>, \<open>useSyncStatus\<close> and \<open>useSyncSnapshot\<close>. Their props are
  whether the native module is available; none has local stimuli.
\<close>

section \<open>useConnection\<close>

text \<open>The listener's continuations close over the event's status.\<close>

datatype connection_await = InitialConnection | ConnectionSubscribe | ChangedConnection connection_status

datatype connection_reply =
    InitialConnectionReply "thrown + connection_state"
  | ChangedConnectionReply connection_status "thrown + connection_state"

fun connection_await_of :: "connection_reply \<Rightarrow> connection_await" where
  "connection_await_of (InitialConnectionReply r) = InitialConnection"
| "connection_await_of (ChangedConnectionReply st r) = ChangedConnection st"

definition connection_start :: "bool \<Rightarrow> use_connection_result \<Rightarrow> use_connection_result \<times> connection_await list option" where
  "connection_start native v = (v, if native then Some [InitialConnection] else None)"

fun connection_on_reply ::
  "bool \<Rightarrow> bool \<Rightarrow> connection_reply \<Rightarrow> use_connection_result \<Rightarrow> use_connection_result \<times> connection_await list" where
  "connection_on_reply native cancelled (InitialConnectionReply r) v =
     (case r of
        Inr snapshot \<Rightarrow> if \<not> cancelled then deriveResult (conn_status snapshot) (conn_type snapshot) else v
      | Inl e \<Rightarrow> v,
      if cancelled then [] else [ConnectionSubscribe])"
| "connection_on_reply native cancelled (ChangedConnectionReply st r) v =
     (case r of
        Inr snap \<Rightarrow> if \<not> cancelled then deriveResult (conn_status snap) (conn_type snap) else v
      | Inl e \<Rightarrow> if \<not> cancelled then deriveResult st (uc_type v) else v, [])"

definition connection_on_event ::
  "bool \<Rightarrow> sync_event \<Rightarrow> use_connection_result \<Rightarrow> use_connection_result \<times> connection_await list" where
  "connection_on_event native e v =
     (if ev_type e \<noteq> CONNECTION_CHANGED then (v, [])
      else case ev_connectionStatus e of None \<Rightarrow> (v, []) | Some st \<Rightarrow> (v, [ChangedConnection st]))"

definition useConnection ::
  "(bool, use_connection_result, connection_await, connection_reply, unit) hook_code" where
  "useConnection =
     \<lparr>uses_ref = False, start_effect = connection_start, on_reply = connection_on_reply,
      on_event = connection_on_event, on_act = no_act, act_enabled = (\<lambda>_ _ _. False),
      on_subscribed = keep_subscription, drop_subscription = unsubscribe, on_cleanup = (\<lambda>v. (v, [])),
      await_of = connection_await_of, subscribe_await = ConnectionSubscribe\<rparr>"

section \<open>useSyncStatus\<close>

record status_vals =
  ss_isSyncing :: bool
  ss_isPaused :: bool
  ss_progress :: "jsnum option"
  ss_lastResult :: "sync_result option"
  ss_error :: "thrown option"

definition initial_status :: status_vals where
  "initial_status =
     \<lparr>ss_isSyncing = False, ss_isPaused = False, ss_progress = None, ss_lastResult = None, ss_error = None\<rparr>"

datatype status_await = InitialResult | StatusSubscribe | CycleResult

datatype status_reply =
    InitialResultReply "thrown + sync_result option"
  | CycleResultReply "thrown + sync_result option"

fun status_await_of :: "status_reply \<Rightarrow> status_await" where
  "status_await_of (InitialResultReply r) = InitialResult"
| "status_await_of (CycleResultReply r) = CycleResult"

definition status_start :: "bool \<Rightarrow> status_vals \<Rightarrow> status_vals \<times> status_await list option" where
  "status_start native v = (v, if native then Some [InitialResult] else None)"

definition store_result :: "bool \<Rightarrow> sync_result option \<Rightarrow> status_vals \<Rightarrow> status_vals" where
  "store_result cancelled res v = (if \<not> cancelled \<and> res \<noteq> None then v\<lparr>ss_lastResult := res\<rparr> else v)"

fun status_on_reply :: "bool \<Rightarrow> bool \<Rightarrow> status_reply \<Rightarrow> status_vals \<Rightarrow> status_vals \<times> status_await list" where
  "status_on_reply native cancelled (InitialResultReply r) v =
     (case r of
        Inr initial \<Rightarrow> store_result cancelled initial v
      | Inl err \<Rightarrow>
          if \<not> cancelled then v\<lparr>ss_error := Some (captured_error ''Failed to read last sync result.'' err)\<rparr> else v,
      if cancelled then [] else [StatusSubscribe])"
| "status_on_reply native cancelled (CycleResultReply r) v =
     (case r of Inr res \<Rightarrow> store_result cancelled res v | Inl err \<Rightarrow> v, [])"

definition status_on_event :: "bool \<Rightarrow> sync_event \<Rightarrow> status_vals \<Rightarrow> status_vals \<times> status_await list" where
  "status_on_event native e v =
     (case ev_type e of
        SYNC_STARTED \<Rightarrow> (v\<lparr>ss_isSyncing := True, ss_progress := Some (num 0)\<rparr>, [])
      | SYNC_PROGRESS \<Rightarrow>
          (case ev_progress e of Some x \<Rightarrow> (v\<lparr>ss_progress := Some x\<rparr>, []) | None \<Rightarrow> (v, []))
      | SYNC_SUCCEEDED \<Rightarrow> (v\<lparr>ss_isSyncing := False, ss_progress := None\<rparr>, [CycleResult])
      | SYNC_FAILED \<Rightarrow> (v\<lparr>ss_isSyncing := False, ss_progress := None\<rparr>, [CycleResult])
      | PAUSED \<Rightarrow> (v\<lparr>ss_isPaused := True\<rparr>, [])
      | RESUMED \<Rightarrow> (v\<lparr>ss_isPaused := False\<rparr>, [])
      | _ \<Rightarrow> (v, []))"

definition useSyncStatus :: "(bool, status_vals, status_await, status_reply, unit) hook_code" where
  "useSyncStatus =
     \<lparr>uses_ref = True, start_effect = status_start, on_reply = status_on_reply,
      on_event = status_on_event, on_act = no_act, act_enabled = (\<lambda>_ _ _. False),
      on_subscribed = keep_subscription, drop_subscription = unsubscribe, on_cleanup = (\<lambda>v. (v, [])),
      await_of = status_await_of, subscribe_await = StatusSubscribe\<rparr>"

text \<open>What a render returns, with the facade's functions as actions.\<close>

definition status_view :: "'w native created \<Rightarrow> status_vals \<Rightarrow> 'w app use_sync_status_result" where
  "status_view outcome v =
     \<lparr>us_isSyncing = ss_isSyncing v, us_isPaused = ss_isPaused v, us_progress = ss_progress v,
      us_lastResult = ss_lastResult v, us_error = ss_error v,
      us_flush = flush outcome, us_pause = pauseSync outcome, us_resume = resumeSync outcome\<rparr>"

section \<open>useSyncSnapshot\<close>

definition SNAPSHOT_REFRESH_EVENTS :: "sync_event_type list" where
  "SNAPSHOT_REFRESH_EVENTS =
     [ITEM_ENQUEUED, ITEM_REMOVED, QUEUE_CLEARED, SYNC_SUCCEEDED, SYNC_FAILED, ITEM_SUCCEEDED, ITEM_FAILED]"

record snapshot_vals =
  sn_size :: jsnum
  sn_items :: "sync_item list"
  sn_isSyncing :: bool
  sn_isPaused :: bool
  sn_progress :: "jsnum option"
  sn_lastResult :: "sync_result option"
  sn_connectionStatus :: connection_status
  sn_connectionType :: connection_type
  sn_error :: "thrown option"

definition initial_snapshot :: snapshot_vals where
  "initial_snapshot =
     \<lparr>sn_size = num 0, sn_items = [], sn_isSyncing = False, sn_isPaused = False, sn_progress = None,
      sn_lastResult = None, sn_connectionStatus = UNKNOWN, sn_connectionType = UNKNOWN_TYPE, sn_error = None\<rparr>"

text \<open>\<open>Promise.all\<close> of the size and the items is one wait: it rejects with the first rejection.\<close>

datatype snapshot_await =
  SnapshotQueue | SnapshotConnection | SnapshotResult | SnapshotSyncing | SnapshotSubscribe

datatype snapshot_reply =
    SnapshotQueueReply "thrown + jsnum \<times> sync_item list"
  | SnapshotConnectionReply "thrown + connection_state"
  | SnapshotResultReply "thrown + sync_result option"
  | SnapshotSyncingReply "thrown + bool"

fun snapshot_await_of :: "snapshot_reply \<Rightarrow> snapshot_await" where
  "snapshot_await_of (SnapshotQueueReply r) = SnapshotQueue"
| "snapshot_await_of (SnapshotConnectionReply r) = SnapshotConnection"
| "snapshot_await_of (SnapshotResultReply r) = SnapshotResult"
| "snapshot_await_of (SnapshotSyncingReply r) = SnapshotSyncing"

definition snapshot_start :: "bool \<Rightarrow> snapshot_vals \<Rightarrow> snapshot_vals \<times> snapshot_await list option" where
  "snapshot_start native v =
     (v, if native then Some [SnapshotQueue, SnapshotConnection, SnapshotResult, SnapshotSyncing, SnapshotSubscribe]
         else None)"

fun snapshot_on_reply ::
  "bool \<Rightarrow> bool \<Rightarrow> snapshot_reply \<Rightarrow> snapshot_vals \<Rightarrow> snapshot_vals \<times> snapshot_await list" where
  "snapshot_on_reply native cancelled (SnapshotQueueReply r) v =
     (if cancelled then v
      else case r of
        Inr (nextSize, nextItems) \<Rightarrow> v\<lparr>sn_size := nextSize, sn_items := nextItems\<rparr>
      | Inl err \<Rightarrow> v\<lparr>sn_error := Some (captured_error ''Failed to refresh sync snapshot queue.'' err)\<rparr>, [])"
| "snapshot_on_reply native cancelled (SnapshotConnectionReply r) v =
     (case r of
        Inr snap \<Rightarrow>
          if cancelled then v
          else v\<lparr>sn_connectionStatus := conn_status snap, sn_connectionType := conn_type snap\<rparr>
      | Inl err \<Rightarrow> v, [])"
| "snapshot_on_reply native cancelled (SnapshotResultReply r) v =
     (case r of Inr res \<Rightarrow> if cancelled \<or> res = None then v else v\<lparr>sn_lastResult := res\<rparr> | Inl err \<Rightarrow> v, [])"
| "snapshot_on_reply native cancelled (SnapshotSyncingReply r) v =
     (case r of Inr b \<Rightarrow> if \<not> cancelled then v\<lparr>sn_isSyncing := b\<rparr> else v | Inl err \<Rightarrow> v, [])"

definition snapshot_on_event :: "bool \<Rightarrow> sync_event \<Rightarrow> snapshot_vals \<Rightarrow> snapshot_vals \<times> snapshot_await list" where
  "snapshot_on_event native e v =
     (let q = (if ev_type e \<in> set SNAPSHOT_REFRESH_EVENTS \<and> native then [SnapshotQueue] else [])
      in case ev_type e of
           SYNC_STARTED \<Rightarrow> (v\<lparr>sn_isSyncing := True, sn_progress := Some (num 0)\<rparr>, q)
         | SYNC_PROGRESS \<Rightarrow>
             (case ev_progress e of
                Some x \<Rightarrow> (if num_is_finite x then v\<lparr>sn_progress := Some x\<rparr> else v, q)
              | None \<Rightarrow> (v, q))
         | SYNC_SUCCEEDED \<Rightarrow> (v\<lparr>sn_isSyncing := False, sn_progress := None\<rparr>, q @ (if native then [SnapshotResult] else []))
         | SYNC_FAILED \<Rightarrow> (v\<lparr>sn_isSyncing := False, sn_progress := None\<rparr>, q @ (if native then [SnapshotResult] else []))
         | PAUSED \<Rightarrow> (v\<lparr>sn_isPaused := True\<rparr>, q)
         | RESUMED \<Rightarrow> (v\<lparr>sn_isPaused := False\<rparr>, q)
         | CONNECTION_CHANGED \<Rightarrow> (v, q @ (if native then [SnapshotConnection] else []))
         | _ \<Rightarrow> (v, q))"

definition useSyncSnapshot :: "(bool, snapshot_vals, snapshot_await, snapshot_reply, unit) hook_code" where
  "useSyncSnapshot =
     \<lparr>uses_ref = True, start_effect = snapshot_start, on_reply = snapshot_on_reply,
      on_event = snapshot_on_event, on_act = no_act, act_enabled = (\<lambda>_ _ _. False),
      on_subscribed = keep_subscription, drop_subscription = unsubscribe, on_cleanup = (\<lambda>v. (v, [])),
      await_of = snapshot_await_of, subscribe_await = SnapshotSubscribe\<rparr>"

definition snapshot_view :: "snapshot_vals \<Rightarrow> use_sync_snapshot_result" where
  "snapshot_view v =
     (let isOnline = (sn_connectionStatus v = CONNECTED \<or> sn_connectionStatus v = METERED);
          isMetered = (sn_connectionStatus v = METERED)
      in \<lparr>un_connection = \<lparr>uc_status = sn_connectionStatus v, uc_type = sn_connectionType v,
            uc_isOnline = isOnline, uc_isMetered = isMetered\<rparr>,
          un_size = sn_size v, un_items = sn_items v, un_isSyncing = sn_isSyncing v, un_isPaused = sn_isPaused v,
          un_progress = sn_progress v, un_lastResult = sn_lastResult v,
          un_isWaitingForConnection = (num_lt (num 0) (sn_size v) \<and> \<not> isOnline),
          un_error = sn_error v, un_networkQuality = None, un_deadLetter = None\<rparr>)"

section \<open>Subscriptions\<close>

fun connection_weight :: "connection_await \<Rightarrow> nat" where
  "connection_weight (ChangedConnection st) = 0"
| "connection_weight _ = 1"

fun status_weight :: "status_await \<Rightarrow> nat" where
  "status_weight CycleResult = 0"
| "status_weight _ = 1"

fun snapshot_weight :: "snapshot_await \<Rightarrow> nat" where
  "snapshot_weight SnapshotSubscribe = 1"
| "snapshot_weight _ = 0"

lemma connection_weight_reply:
  "sum_list (map connection_weight (snd (connection_on_reply p b r v))) \<le> connection_weight (connection_await_of r)"
  by (cases r) simp_all

lemma status_weight_reply:
  "sum_list (map status_weight (snd (status_on_reply p b r v))) \<le> status_weight (status_await_of r)"
  by (cases r) simp_all

lemma snapshot_reply_quiet: "snd (snapshot_on_reply p b r v) = []"
  by (cases r) simp_all

interpretation connection_sub: single_subscription useConnection connection_weight
  by unfold_locales
    (auto simp: useConnection_def connection_start_def connection_on_event_def hook_defs
       intro: connection_weight_reply split: option.splits if_splits)

interpretation status_sub: single_subscription useSyncStatus status_weight
  by unfold_locales
    (auto simp: useSyncStatus_def status_start_def status_on_event_def hook_defs
       intro: status_weight_reply split: option.splits if_splits sync_event_type.splits)

interpretation snapshot_sub: single_subscription useSyncSnapshot snapshot_weight
  by unfold_locales
    (auto simp: useSyncSnapshot_def snapshot_start_def snapshot_on_event_def hook_defs snapshot_reply_quiet
       split: option.splits if_splits sync_event_type.splits)

section \<open>Nothing after the cleanup\<close>

lemma connection_guarded: "fst (connection_on_reply p True r v) = v"
  by (cases r) (simp_all split: sum.split)

lemma status_guarded: "fst (status_on_reply p True r v) = v"
  by (cases r) (simp_all add: store_result_def split: sum.split)

lemma snapshot_guarded: "fst (snapshot_on_reply p True r v) = v"
  by (cases r) (simp_all split: sum.split)

interpretation connection_guard: guarded_replies useConnection "\<lambda>v. v"
  by unfold_locales (simp_all add: useConnection_def connection_guarded)

interpretation status_guard: guarded_replies useSyncStatus "\<lambda>v. v"
  by unfold_locales (simp_all add: useSyncStatus_def status_guarded)

interpretation snapshot_guard: guarded_replies useSyncSnapshot "\<lambda>v. v"
  by unfold_locales (simp_all add: useSyncSnapshot_def snapshot_guarded)

section \<open>The values that follow events\<close>

fun cycle_change :: "sync_event_type \<Rightarrow> bool option" where
  "cycle_change SYNC_STARTED = Some True"
| "cycle_change SYNC_SUCCEEDED = Some False"
| "cycle_change SYNC_FAILED = Some False"
| "cycle_change _ = None"

fun pause_change :: "sync_event_type \<Rightarrow> bool option" where
  "pause_change PAUSED = Some True"
| "pause_change RESUMED = Some False"
| "pause_change _ = None"

definition progress_change :: "(jsnum \<Rightarrow> bool) \<Rightarrow> sync_event \<Rightarrow> jsnum option option" where
  "progress_change ok e =
     (if ev_type e = SYNC_STARTED then Some (Some (num 0))
      else if ev_type e \<in> {SYNC_SUCCEEDED, SYNC_FAILED} then Some None
      else if ev_type e = SYNC_PROGRESS \<and> (\<exists>x. ev_progress e = Some x \<and> ok x) then Some (ev_progress e)
      else None)"

lemmas status_simps = useSyncStatus_def status_start_def status_on_event_def store_result_def hook_defs
lemmas snapshot_simps = useSyncSnapshot_def snapshot_start_def snapshot_on_event_def hook_defs

lemma status_reply_keeps:
  "ss_isSyncing (fst (status_on_reply p b r v)) = ss_isSyncing v" "ss_isPaused (fst (status_on_reply p b r v)) = ss_isPaused v"
  "ss_progress (fst (status_on_reply p b r v)) = ss_progress v"
  by (cases r; simp add: store_result_def split: sum.split)+

interpretation status_syncing: event_driven useSyncStatus ss_isSyncing "\<lambda>e. cycle_change (ev_type e)"
  by unfold_locales (simp_all add: status_simps status_reply_keeps split: sync_event_type.split option.split)

interpretation status_paused: event_driven useSyncStatus ss_isPaused "\<lambda>e. pause_change (ev_type e)"
  by unfold_locales (simp_all add: status_simps status_reply_keeps split: sync_event_type.split option.split)

interpretation status_progress: event_driven useSyncStatus ss_progress "progress_change (\<lambda>x. True)"
  by unfold_locales
    (simp_all add: status_simps status_reply_keeps progress_change_def split: sync_event_type.split option.split)

lemma snapshot_reply_keeps:
  "sn_isPaused (fst (snapshot_on_reply p b r v)) = sn_isPaused v" "sn_progress (fst (snapshot_on_reply p b r v)) = sn_progress v"
  by (cases r; simp split: sum.split)+

interpretation snapshot_paused: event_driven useSyncSnapshot sn_isPaused "\<lambda>e. pause_change (ev_type e)"
  by unfold_locales
    (simp_all add: snapshot_simps Let_def snapshot_reply_keeps split: sync_event_type.split option.split)

interpretation snapshot_progress: event_driven useSyncSnapshot sn_progress "progress_change num_is_finite"
  by unfold_locales
    (simp_all add: snapshot_simps Let_def snapshot_reply_keeps progress_change_def split: sync_event_type.split option.split)

section \<open>Properties\<close>

definition progress_event :: "jsnum \<Rightarrow> sync_event" where
  "progress_event x = (event_at SYNC_PROGRESS None)\<lparr>ev_progress := Some x\<rparr>"

lemmas event_examples = event_at_def progress_event_def

definition status_example :: "(bool, status_reply, unit) hook_event list" where
  "status_example =
     [Mount True, Reply 0 (InitialResultReply (Inr None)), SubscribeReply 0 (Inr ''s''),
      Deliver 0 (event_at SYNC_STARTED None), Deliver 0 (progress_event (num 1)), Deliver 0 (event_at PAUSED None)]"

definition status_example_state :: "(bool, status_vals, status_await) hook_state" where
  "status_example_state = the (hook_run useSyncStatus status_example (initial_hook initial_status))"

lemma status_example_run:
  "hook_run useSyncStatus status_example (initial_hook initial_status) = Some status_example_state"
  by (simp add: status_example_state_def status_example_def event_examples status_simps hook_run_simps initial_status_def)

text \<open>C30: whatever the mounts, unmounts, replies and subscription results, what \<open>useSyncStatus\<close> shows
  of the engine is the latest change its events made: \<open>isSyncing\<close> of the started, succeeded and
  failed events, \<open>isPaused\<close> of the paused and resumed ones, \<open>progress\<close> reset to 0 by a start, to
  \<open>null\<close> by an end, and forwarded from the progress events in between.\<close>

theorem status_follows_events:
  assumes "hook_run useSyncStatus es (initial_hook initial_status) = Some t"
  shows "ss_isSyncing (vals t) = latest (\<lambda>e. cycle_change (ev_type e)) False (delivered es) \<and>
    ss_isPaused (vals t) = latest (\<lambda>e. pause_change (ev_type e)) False (delivered es) \<and>
    ss_progress (vals t) = latest (progress_change (\<lambda>x. True)) None (delivered es)"
  using status_syncing.run_latest [OF assms] status_paused.run_latest [OF assms] status_progress.run_latest [OF assms]
  by (simp add: initial_status_def)

lemma status_follows_events_witness:
  "ss_isSyncing (vals status_example_state) \<and> ss_isPaused (vals status_example_state) \<and>
     ss_progress (vals status_example_state) = Some (num 1)"
  using status_follows_events [OF status_example_run]
  by (simp add: status_example_def event_examples progress_change_def)

definition snapshot_example :: "(bool, snapshot_reply, unit) hook_event list" where
  "snapshot_example =
     [Mount True, SubscribeReply 0 (Inr ''s''), Deliver 0 (event_at SYNC_STARTED None),
      Deliver 0 (progress_event (num 1)), Deliver 0 (event_at PAUSED None)]"

definition snapshot_example_state :: "(bool, snapshot_vals, snapshot_await) hook_state" where
  "snapshot_example_state = the (hook_run useSyncSnapshot snapshot_example (initial_hook initial_snapshot))"

lemma snapshot_example_run:
  "hook_run useSyncSnapshot snapshot_example (initial_hook initial_snapshot) = Some snapshot_example_state"
  by (simp add: snapshot_example_state_def snapshot_example_def event_examples snapshot_simps hook_run_simps
      initial_snapshot_def)

lemma snapshot_example_reachable: "hook_reachable useSyncSnapshot initial_snapshot snapshot_example_state"
  by (rule hook_run_initial [OF snapshot_example_run])

lemma snapshot_example_facts:
  "mounted snapshot_example_state" "registered snapshot_example_state = [(''s'', 0)]"
  "length (runs snapshot_example_state) = 1" "(0, SnapshotQueue) \<in> set (pending snapshot_example_state)"
  by (simp_all add: snapshot_example_state_def snapshot_example_def event_examples snapshot_simps hook_run_simps
      initial_snapshot_def)

lemma latest_cong: "(\<And>e. e \<in> set es \<Longrightarrow> f e = g e) \<Longrightarrow> latest f d es = latest g d es"
  by (induction es arbitrary: d) (simp_all split: option.split)

text \<open>the dashboard and the status hook agree. Over the same delivered events, whatever else
  happens to either, \<open>useSyncSnapshot\<close> and \<open>useSyncStatus\<close> show the same \<open>isPaused\<close>, and the same
  \<open>progress\<close> as long as no progress event carries an infinite value or \<open>NaN\<close>, which only the
  snapshot drops.\<close>

theorem snapshot_agrees_with_status:
  assumes "hook_run useSyncSnapshot es (initial_hook initial_snapshot) = Some t"
    and "hook_run useSyncStatus fs (initial_hook initial_status) = Some u"
    and same: "delivered es = delivered fs"
    and fin: "\<forall>e \<in> set (delivered fs). \<forall>x. ev_type e = SYNC_PROGRESS \<and> ev_progress e = Some x \<longrightarrow> num_is_finite x"
  shows "sn_isPaused (vals t) = ss_isPaused (vals u) \<and> sn_progress (vals t) = ss_progress (vals u)"
proof -
  have "latest (progress_change num_is_finite) None (delivered fs) = latest (progress_change (\<lambda>x. True)) None (delivered fs)"
    using fin by (intro latest_cong) (auto simp: progress_change_def)
  then show ?thesis
    using snapshot_paused.run_latest [OF assms(1)] snapshot_progress.run_latest [OF assms(1)]
      status_paused.run_latest [OF assms(2)] status_progress.run_latest [OF assms(2)]
    by (simp add: same initial_status_def initial_snapshot_def)
qed

lemma snapshot_agrees_with_status_witness:
  "sn_isPaused (vals snapshot_example_state) = ss_isPaused (vals status_example_state) \<and>
     sn_progress (vals snapshot_example_state) = ss_progress (vals status_example_state)"
  by (rule snapshot_agrees_with_status [OF snapshot_example_run status_example_run])
    (simp_all add: status_example_def snapshot_example_def event_examples)

text \<open>the single-subscription design. A run of \<open>useSyncSnapshot\<close> registers at most one listener,
  whatever the order of its replies; an unmount removes the listener the run has registered, and
  from then on no reply to a call in flight changes what the hook shows.\<close>

theorem snapshot_single_subscription:
  assumes "hook_reachable useSyncSnapshot initial_snapshot s"
  shows "((i, n) \<in> set (registered s) \<and> (j, n) \<in> set (registered s) \<longrightarrow> i = j) \<and>
    (mounted s \<longrightarrow>
       ((i, length (runs s) - 1) \<in> set (registered s) \<longrightarrow> i \<in> set (removed (cleanup useSyncSnapshot s))) \<and>
       (\<forall>es t. (\<forall>e \<in> set es. is_reply e) \<and> hook_run useSyncSnapshot es (cleanup useSyncSnapshot s) = Some t \<longrightarrow>
          vals t = vals s))"
  using snapshot_sub.one_listener [OF assms] snapshot_sub.cleanup_unsubscribes [OF assms]
    snapshot_guard.nothing_after_cleanup [OF assms] by blast

lemma snapshot_single_subscription_witness:
  "''s'' \<in> set (removed (cleanup useSyncSnapshot snapshot_example_state))"
  using snapshot_single_subscription [OF snapshot_example_reachable, of "''s''" 0 "''s''"] snapshot_example_facts by simp

text \<open>A listener whose registration resolves after the unmount stays: nothing asks for its removal.\<close>

lemma snapshot_listener_leak:
  "\<exists>t. hook_run useSyncSnapshot [Mount True, Cleanup, SubscribeReply 0 (Inr ''s'')] (initial_hook initial_snapshot) = Some t \<and>
     \<not> mounted t \<and> registered t = [(''s'', 0)] \<and> removed t = []"
  by (simp add: snapshot_simps hook_run_simps)

lemma status_listener_leak:
  "\<exists>t. hook_run useSyncStatus
       [Mount True, Reply 0 (InitialResultReply (Inr None)), Cleanup, SubscribeReply 0 (Inr ''s'')]
       (initial_hook initial_status) = Some t \<and> \<not> mounted t \<and> registered t = [(''s'', 0)] \<and> removed t = []"
  by (simp add: status_simps hook_run_simps)

lemma connection_listener_leak:
  "\<exists>t. hook_run useConnection
       [Mount True, Reply 0 (InitialConnectionReply (Inl (OtherValue JNull))), Cleanup, SubscribeReply 0 (Inr ''s'')]
       (initial_hook initial_connection) = Some t \<and> \<not> mounted t \<and> registered t = [(''s'', 0)] \<and> removed t = []"
  by (simp add: useConnection_def connection_start_def hook_run_simps)

end
