(* ===== verification/Queue_Hooks.thy ===== *)
theory Queue_Hooks
  imports Status_Hooks
begin

text \<open>
  The hooks that manage the queue: \<open>useSyncQueue\<close> with its \<open>refresh\<close> action, and \<open>useOfflineQueue\<close>,
  which shows a part of what \<open>useSyncSnapshot\<close> shows.
\<close>

section \<open>useSyncQueue\<close>

definition REFRESH_EVENTS :: "sync_event_type list" where
  "REFRESH_EVENTS =
     [ITEM_ENQUEUED, ITEM_REMOVED, QUEUE_CLEARED, SYNC_SUCCEEDED, SYNC_FAILED, ITEM_SUCCEEDED, ITEM_FAILED]"

record queue_vals =
  qv_size :: jsnum
  qv_items :: "sync_item list"
  qv_isLoading :: bool
  qv_error :: "thrown option"

definition initial_queue :: queue_vals where
  "initial_queue = \<lparr>qv_size = num 0, qv_items = [], qv_isLoading = False, qv_error = None\<rparr>"

datatype queue_await = QueueRead | QueueSubscribe

datatype queue_reply = QueueReadReply "thrown + jsnum \<times> sync_item list"

datatype queue_act = RefreshQueue

fun queue_await_of :: "queue_reply \<Rightarrow> queue_await" where
  "queue_await_of (QueueReadReply r) = QueueRead"

text \<open>\<open>refresh\<close> up to its wait on the size and the items.\<close>

definition queue_refresh :: "bool \<Rightarrow> queue_vals \<Rightarrow> queue_vals \<times> queue_await list" where
  "queue_refresh native v = (if \<not> native then (v, []) else (v\<lparr>qv_isLoading := True\<rparr>, [QueueRead]))"

text \<open>The rest of \<open>refresh\<close>: the \<open>try\<close>, the \<open>catch\<close>, then the \<open>finally\<close>.\<close>

fun queue_on_reply :: "bool \<Rightarrow> bool \<Rightarrow> queue_reply \<Rightarrow> queue_vals \<Rightarrow> queue_vals \<times> queue_await list" where
  "queue_on_reply native cancelled (QueueReadReply r) v =
     (let v = (if cancelled then v
               else case r of
                 Inr (nextSize, nextItems) \<Rightarrow> v\<lparr>qv_size := nextSize, qv_items := nextItems, qv_error := None\<rparr>
               | Inl err \<Rightarrow> v\<lparr>qv_error := Some (captured_error ''Failed to refresh sync queue.'' err)\<rparr>)
      in (if \<not> cancelled then v\<lparr>qv_isLoading := False\<rparr> else v, []))"

definition queue_start :: "bool \<Rightarrow> queue_vals \<Rightarrow> queue_vals \<times> queue_await list option" where
  "queue_start native v =
     (if \<not> native then (v, None)
      else let (v, ks) = queue_refresh native v in (v, Some (ks @ [QueueSubscribe])))"

definition queue_on_event :: "bool \<Rightarrow> sync_event \<Rightarrow> queue_vals \<Rightarrow> queue_vals \<times> queue_await list" where
  "queue_on_event native e v = (if ev_type e \<in> set REFRESH_EVENTS then queue_refresh native v else (v, []))"

fun queue_on_act :: "bool \<Rightarrow> queue_act \<Rightarrow> queue_vals \<Rightarrow> queue_vals \<times> queue_await list" where
  "queue_on_act native RefreshQueue v = queue_refresh native v"

definition useSyncQueue :: "(bool, queue_vals, queue_await, queue_reply, queue_act) hook_code" where
  "useSyncQueue =
     \<lparr>uses_ref = True, start_effect = queue_start, on_reply = queue_on_reply,
      on_event = queue_on_event, on_act = queue_on_act, act_enabled = (\<lambda>_ _ _. True),
      on_subscribed = keep_subscription, drop_subscription = unsubscribe, on_cleanup = (\<lambda>v. (v, [])),
      await_of = queue_await_of, subscribe_await = QueueSubscribe\<rparr>"

text \<open>What a render returns; \<open>refresh\<close> is the machine's stimulus and is given as an argument.\<close>

definition queue_view ::
  "'w native created \<Rightarrow> ('w app, thrown, unit) act \<Rightarrow> queue_vals \<Rightarrow> 'w app use_sync_queue_result" where
  "queue_view outcome refresh v =
     \<lparr>uq_size = qv_size v, uq_items = qv_items v, uq_isLoading = qv_isLoading v, uq_error = qv_error v,
      uq_enqueue = enqueue outcome, uq_enqueueBatch = enqueueBatch outcome, uq_removeItem = removeItem outcome,
      uq_clearQueue = clearQueue outcome, uq_refresh = refresh\<rparr>"

section \<open>useOfflineQueue\<close>

definition QUEUE_REFRESH_EVENTS :: "sync_event_type list" where
  "QUEUE_REFRESH_EVENTS =
     [ITEM_ENQUEUED, ITEM_REMOVED, QUEUE_CLEARED, SYNC_SUCCEEDED, SYNC_FAILED, ITEM_SUCCEEDED, ITEM_FAILED]"

record offline_vals =
  ov_size :: jsnum
  ov_items :: "sync_item list"
  ov_isSyncing :: bool
  ov_connectionStatus :: connection_status
  ov_connectionType :: connection_type
  ov_error :: "thrown option"

definition initial_offline :: offline_vals where
  "initial_offline =
     \<lparr>ov_size = num 0, ov_items = [], ov_isSyncing = False, ov_connectionStatus = UNKNOWN,
      ov_connectionType = UNKNOWN_TYPE, ov_error = None\<rparr>"

datatype offline_await = OfflineQueue | OfflineConnection | OfflineSyncing | OfflineSubscribe

datatype offline_reply =
    OfflineQueueReply "thrown + jsnum \<times> sync_item list"
  | OfflineConnectionReply "thrown + connection_state"
  | OfflineSyncingReply "thrown + bool"

fun offline_await_of :: "offline_reply \<Rightarrow> offline_await" where
  "offline_await_of (OfflineQueueReply r) = OfflineQueue"
| "offline_await_of (OfflineConnectionReply r) = OfflineConnection"
| "offline_await_of (OfflineSyncingReply r) = OfflineSyncing"

definition offline_start :: "bool \<Rightarrow> offline_vals \<Rightarrow> offline_vals \<times> offline_await list option" where
  "offline_start native v =
     (v, if native then Some [OfflineQueue, OfflineConnection, OfflineSyncing, OfflineSubscribe] else None)"

fun offline_on_reply :: "bool \<Rightarrow> bool \<Rightarrow> offline_reply \<Rightarrow> offline_vals \<Rightarrow> offline_vals \<times> offline_await list" where
  "offline_on_reply native cancelled (OfflineQueueReply r) v =
     (if cancelled then v
      else case r of
        Inr (nextSize, nextItems) \<Rightarrow> v\<lparr>ov_size := nextSize, ov_items := nextItems\<rparr>
      | Inl err \<Rightarrow> v\<lparr>ov_error := Some (captured_error ''Failed to refresh offline queue.'' err)\<rparr>, [])"
| "offline_on_reply native cancelled (OfflineConnectionReply r) v =
     (case r of
        Inr snap \<Rightarrow>
          if cancelled then v
          else v\<lparr>ov_connectionStatus := conn_status snap, ov_connectionType := conn_type snap\<rparr>
      | Inl err \<Rightarrow> v, [])"
| "offline_on_reply native cancelled (OfflineSyncingReply r) v =
     (case r of Inr b \<Rightarrow> if \<not> cancelled then v\<lparr>ov_isSyncing := b\<rparr> else v | Inl err \<Rightarrow> v, [])"

definition offline_on_event :: "bool \<Rightarrow> sync_event \<Rightarrow> offline_vals \<Rightarrow> offline_vals \<times> offline_await list" where
  "offline_on_event native e v =
     (let q = (if ev_type e \<in> set QUEUE_REFRESH_EVENTS \<and> native then [OfflineQueue] else []);
          v = (if ev_type e = SYNC_STARTED then v\<lparr>ov_isSyncing := True\<rparr> else v);
          v = (if ev_type e = SYNC_SUCCEEDED \<or> ev_type e = SYNC_FAILED then v\<lparr>ov_isSyncing := False\<rparr> else v)
      in (v, q @ (if ev_type e = CONNECTION_CHANGED \<and> native then [OfflineConnection] else [])))"

definition useOfflineQueue :: "(bool, offline_vals, offline_await, offline_reply, unit) hook_code" where
  "useOfflineQueue =
     \<lparr>uses_ref = True, start_effect = offline_start, on_reply = offline_on_reply,
      on_event = offline_on_event, on_act = no_act, act_enabled = (\<lambda>_ _ _. False),
      on_subscribed = keep_subscription, drop_subscription = unsubscribe, on_cleanup = (\<lambda>v. (v, [])),
      await_of = offline_await_of, subscribe_await = OfflineSubscribe\<rparr>"

definition offline_view :: "'w native created \<Rightarrow> offline_vals \<Rightarrow> 'w app use_offline_queue_result" where
  "offline_view outcome v =
     (let isOnline = (ov_connectionStatus v = CONNECTED \<or> ov_connectionStatus v = METERED);
          isMetered = (ov_connectionStatus v = METERED)
      in \<lparr>uo_connection = \<lparr>uc_status = ov_connectionStatus v, uc_type = ov_connectionType v,
            uc_isOnline = isOnline, uc_isMetered = isMetered\<rparr>,
          uo_size = ov_size v, uo_items = ov_items v, uo_isSyncing = ov_isSyncing v,
          uo_isWaitingForConnection = (num_lt (num 0) (ov_size v) \<and> \<not> isOnline), uo_error = ov_error v,
          uo_enqueue = enqueue outcome, uo_flush = flush outcome\<rparr>)"

section \<open>Subscriptions and guards\<close>

lemmas queue_simps = useSyncQueue_def queue_start_def queue_refresh_def queue_on_event_def hook_defs
lemmas offline_simps = useOfflineQueue_def offline_start_def offline_on_event_def hook_defs

fun queue_weight :: "queue_await \<Rightarrow> nat" where
  "queue_weight QueueSubscribe = 1"
| "queue_weight QueueRead = 0"

fun offline_weight :: "offline_await \<Rightarrow> nat" where
  "offline_weight OfflineSubscribe = 1"
| "offline_weight _ = 0"

lemma queue_reply_quiet: "snd (queue_on_reply p b r v) = []"
  by (cases r) (simp add: Let_def)

lemma queue_act_quiet: "x \<in> set (snd (queue_on_act p a v)) \<Longrightarrow> queue_weight x = 0"
  by (cases a) (auto simp: queue_refresh_def split: if_splits)

lemma offline_reply_quiet: "snd (offline_on_reply p b r v) = []"
  by (cases r) simp_all

interpretation queue_sub: single_subscription useSyncQueue queue_weight
  by unfold_locales
    (auto simp: queue_simps queue_reply_quiet queue_act_quiet split: if_splits)

interpretation offline_sub: single_subscription useOfflineQueue offline_weight
  by unfold_locales (auto simp: offline_simps offline_reply_quiet Let_def split: if_splits)

lemma queue_guarded: "fst (queue_on_reply p True r v) = v"
  by (cases r) simp

lemma offline_guarded: "fst (offline_on_reply p True r v) = v"
  by (cases r) (simp_all split: sum.split)

interpretation queue_guard: guarded_replies useSyncQueue "\<lambda>v. v"
  by unfold_locales (simp_all add: useSyncQueue_def queue_guarded)

interpretation offline_guard: guarded_replies useOfflineQueue "\<lambda>v. v"
  by unfold_locales (simp_all add: useOfflineQueue_def offline_guarded)

section \<open>The loading flag and the error of useSyncQueue\<close>

lemma queue_reply_loading: "\<not> qv_isLoading (fst (queue_on_reply p False r v))"
  by (cases r) (simp add: Let_def)

lemma queue_act_loading:
  "qv_isLoading (fst (queue_on_act p a v)) \<Longrightarrow> QueueRead \<in> set (snd (queue_on_act p a v)) \<or> qv_isLoading v"
  by (cases a) (simp add: queue_refresh_def split: if_splits)

interpretation queue_loading: loading_flag useSyncQueue qv_isLoading QueueRead
  by unfold_locales
    (use queue_act_loading in \<open>auto simp: queue_simps queue_reply_loading split: if_splits\<close>)

lemma queue_reply_error:
  "\<forall>e. qv_error v = Some e \<longrightarrow> is_SyncError e \<Longrightarrow> qv_error (fst (queue_on_reply p b r v)) = Some e \<Longrightarrow> is_SyncError e"
  by (cases r) (auto simp: Let_def split: sum.splits if_splits)

lemma queue_act_error: "qv_error (fst (queue_on_act p a v)) = qv_error v"
  by (cases a) (simp add: queue_refresh_def)

interpretation queue_error: vals_invariant useSyncQueue "\<lambda>v. \<forall>e. qv_error v = Some e \<longrightarrow> is_SyncError e"
  by unfold_locales
    (use queue_reply_error in \<open>auto simp: queue_simps queue_act_error split: if_splits\<close>)

section \<open>useOfflineQueue is a part of useSyncSnapshot\<close>

fun offline_part_await :: "snapshot_await \<Rightarrow> offline_await option" where
  "offline_part_await SnapshotQueue = Some OfflineQueue"
| "offline_part_await SnapshotConnection = Some OfflineConnection"
| "offline_part_await SnapshotResult = None"
| "offline_part_await SnapshotSyncing = Some OfflineSyncing"
| "offline_part_await SnapshotSubscribe = Some OfflineSubscribe"

fun offline_part_reply :: "snapshot_reply \<Rightarrow> offline_reply option" where
  "offline_part_reply (SnapshotQueueReply r) = Some (OfflineQueueReply r)"
| "offline_part_reply (SnapshotConnectionReply r) = Some (OfflineConnectionReply r)"
| "offline_part_reply (SnapshotResultReply r) = None"
| "offline_part_reply (SnapshotSyncingReply r) = Some (OfflineSyncingReply r)"

fun offline_part_event :: "(bool, snapshot_reply, unit) hook_event \<Rightarrow> (bool, offline_reply, unit) hook_event option" where
  "offline_part_event (Mount p) = Some (Mount p)"
| "offline_part_event Cleanup = Some Cleanup"
| "offline_part_event (Reply n r) = map_option (Reply n) (offline_part_reply r)"
| "offline_part_event (SubscribeReply n res) = Some (SubscribeReply n res)"
| "offline_part_event (Deliver n e) = Some (Deliver n e)"
| "offline_part_event (Act n a) = Some (Act n a)"

definition offline_part_vals :: "snapshot_vals \<Rightarrow> offline_vals" where
  "offline_part_vals v =
     \<lparr>ov_size = sn_size v, ov_items = sn_items v, ov_isSyncing = sn_isSyncing v,
      ov_connectionStatus = sn_connectionStatus v, ov_connectionType = sn_connectionType v, ov_error = sn_error v\<rparr>"

definition offline_part_pending :: "nat \<times> snapshot_await \<Rightarrow> (nat \<times> offline_await) option" where
  "offline_part_pending x = map_option (Pair (fst x)) (offline_part_await (snd x))"

definition offline_part :: "(bool, snapshot_vals, snapshot_await) hook_state \<Rightarrow> (bool, offline_vals, offline_await) hook_state" where
  "offline_part s =
     \<lparr>vals = offline_part_vals (vals s), cancelledRef = cancelledRef s, runs = runs s,
      pending = List.map_filter offline_part_pending (pending s), registered = registered s, removed = removed s\<rparr>"

text \<open>Facade calls reject with \<open>SyncError\<close>s only (\<open>facade_errors_are_SyncErrors\<close>).\<close>

fun facade_reply_event :: "(bool, snapshot_reply, unit) hook_event \<Rightarrow> bool" where
  "facade_reply_event (Reply n (SnapshotQueueReply (Inl e))) = is_SyncError e"
| "facade_reply_event _ = True"

lemma offline_part_simps [simp]:
  "vals (offline_part s) = offline_part_vals (vals s)" "cancelledRef (offline_part s) = cancelledRef s"
  "runs (offline_part s) = runs s" "registered (offline_part s) = registered s" "removed (offline_part s) = removed s"
  "pending (offline_part s) = List.map_filter offline_part_pending (pending s)" "mounted (offline_part s) = mounted s"
  by (simp_all add: offline_part_def mounted_def)

lemma map_filter_append [simp]: "List.map_filter f (xs @ ys) = List.map_filter f xs @ List.map_filter f ys"
  by (simp add: List.map_filter_def)

lemma map_filter_remove1:
  assumes "f a = Some b" and only: "\<And>x. f x = Some b \<Longrightarrow> x = a"
  shows "List.map_filter f (remove1 a xs) = remove1 b (List.map_filter f xs)"
proof (induction xs)
  case (Cons x xs)
  then show ?case using assms(1) only [of x]
    by (cases "f x") (auto simp: map_filter_simps)
qed (simp add: map_filter_simps)

lemma map_filter_remove1_dropped:
  "f a = None \<Longrightarrow> List.map_filter f (remove1 a xs) = List.map_filter f xs"
  by (induction xs) (auto simp: map_filter_simps split: option.split)

lemma map_filter_in: "y \<in> set (List.map_filter f xs) \<longleftrightarrow> (\<exists>x \<in> set xs. f x = Some y)"
  by (force simp: List.map_filter_def)

lemma offline_part_pending_inj:
  "offline_part_pending x = Some (n, k) \<Longrightarrow> offline_part_await j = Some k \<Longrightarrow> x = (n, j)"
  by (cases x; cases "snd x"; cases j) (auto simp: offline_part_pending_def)

lemma offline_part_pending_some:
  "offline_part_await j = Some k \<Longrightarrow> offline_part_pending (n, j) = Some (n, k)"
  by (simp add: offline_part_pending_def)

lemma offline_part_pending_in:
  assumes "offline_part_await j = Some k"
  shows "(n, k) \<in> set (List.map_filter offline_part_pending xs) \<longleftrightarrow> (n, j) \<in> set xs"
  unfolding map_filter_in using offline_part_pending_inj [OF _ assms] offline_part_pending_some [OF assms] by blast

lemma offline_part_remove:
  assumes "offline_part_await j = Some k"
  shows "List.map_filter offline_part_pending (remove1 (n, j) xs) = remove1 (n, k) (List.map_filter offline_part_pending xs)"
  by (rule map_filter_remove1) (use offline_part_pending_inj [OF _ assms] offline_part_pending_some [OF assms] in blast)+

lemma offline_part_map: "List.map_filter offline_part_pending (map (Pair n) ks) = map (Pair n) (List.map_filter offline_part_await ks)"
  by (induction ks) (simp_all add: map_filter_simps offline_part_pending_def split: option.split)

lemma offline_part_continue:
  "offline_part (continue n r s) =
     continue n (offline_part_vals (fst r), List.map_filter offline_part_await (snd r)) (offline_part s)"
  by (simp add: offline_part_def continue_def offline_part_map)

lemma offline_part_reply_some:
  assumes "offline_part_reply r = Some q"
  shows "offline_part_await (snapshot_await_of r) = Some (offline_await_of q)"
    and "\<forall>e. r = SnapshotQueueReply (Inl e) \<longrightarrow> is_SyncError e \<Longrightarrow>
      offline_part_vals (fst (snapshot_on_reply p b r v)) = fst (offline_on_reply p b q (offline_part_vals v))"
  using assms by (cases r; auto simp: offline_part_vals_def captured_error_def split: sum.splits)+

lemma offline_part_reply_none:
  assumes "offline_part_reply r = None"
  shows "offline_part_await (snapshot_await_of r) = None"
    and "offline_part_vals (fst (snapshot_on_reply p b r v)) = offline_part_vals v"
  using assms by (cases r; auto simp: offline_part_vals_def split: sum.splits)+

lemma offline_part_on_event:
  "offline_part_vals (fst (snapshot_on_event p e v)) = fst (offline_on_event p e (offline_part_vals v))"
  "List.map_filter offline_part_await (snd (snapshot_on_event p e v)) = snd (offline_on_event p e (offline_part_vals v))"
  by (cases "ev_type e";
      simp add: snapshot_on_event_def offline_on_event_def Let_def offline_part_vals_def SNAPSHOT_REFRESH_EVENTS_def
        QUEUE_REFRESH_EVENTS_def map_filter_simps split: option.split)+

lemma offline_fields [simp]:
  "uses_ref useOfflineQueue" "on_reply useOfflineQueue = offline_on_reply" "on_event useOfflineQueue = offline_on_event"
  "start_effect useOfflineQueue = offline_start" "act_enabled useOfflineQueue = (\<lambda>_ _ _. False)"
  "on_subscribed useOfflineQueue = keep_subscription" "drop_subscription useOfflineQueue = unsubscribe"
  "subscribe_await useOfflineQueue = OfflineSubscribe" "on_cleanup useOfflineQueue = (\<lambda>v. (v, []))"
  "await_of useOfflineQueue = offline_await_of"
  by (simp_all add: useOfflineQueue_def)

lemma snapshot_fields [simp]:
  "uses_ref useSyncSnapshot" "on_reply useSyncSnapshot = snapshot_on_reply" "on_event useSyncSnapshot = snapshot_on_event"
  "start_effect useSyncSnapshot = snapshot_start" "act_enabled useSyncSnapshot = (\<lambda>_ _ _. False)"
  "on_subscribed useSyncSnapshot = keep_subscription" "drop_subscription useSyncSnapshot = unsubscribe"
  "subscribe_await useSyncSnapshot = SnapshotSubscribe" "on_cleanup useSyncSnapshot = (\<lambda>v. (v, []))"
  "await_of useSyncSnapshot = snapshot_await_of"
  by (simp_all add: useSyncSnapshot_def)

lemma is_cancelled_ref [simp]: "uses_ref c \<Longrightarrow> is_cancelled c s n = cancelledRef s"
  by (simp add: is_cancelled_def)

lemma offline_part_mount: "offline_part (mount useSyncSnapshot p s) = mount useOfflineQueue p (offline_part s)"
  by (simp add: mount_def offline_part_continue snapshot_start_def offline_start_def map_filter_simps)

lemma offline_part_cleanup: "offline_part (cleanup useSyncSnapshot s) = cleanup useOfflineQueue (offline_part s)"
  by (simp add: cleanup_def offline_part_continue map_filter_simps Let_def split: prod.split)

lemma offline_part_subscribe:
  "offline_part (subscribe_reply useSyncSnapshot n res s) = subscribe_reply useOfflineQueue n res (offline_part s)"
  using offline_part_remove [of SnapshotSubscribe OfflineSubscribe n "pending s"]
  by (cases res) (simp_all add: subscribe_reply_def keep_subscription_def offline_part_def Let_def)

lemma offline_part_step:
  assumes step: "hook_handle useSyncSnapshot e s = Some t" and err: "facade_reply_event e"
  shows "case offline_part_event e of
      None \<Rightarrow> offline_part t = offline_part s
    | Some d \<Rightarrow> hook_handle useOfflineQueue d (offline_part s) = Some (offline_part t)"
  using step
proof (cases rule: hook_handle_cases)
  case (Mount p)
  then show ?thesis by (simp add: offline_part_mount)
next
  case Cleanup
  then show ?thesis by (simp add: offline_part_cleanup)
next
  case (Reply n r)
  let ?u = "s\<lparr>pending := remove1 (n, snapshot_await_of r) (pending s)\<rparr>"
  have part: "offline_part ?u = (offline_part s)\<lparr>pending := List.map_filter offline_part_pending (pending ?u)\<rparr>"
    by (simp add: offline_part_def)
  have e: "\<forall>x. r = SnapshotQueueReply (Inl x) \<longrightarrow> is_SyncError x" using err Reply(1) by auto
  show ?thesis
  proof (cases "offline_part_reply r")
    case None
    have "offline_part_pending (n, snapshot_await_of r) = None"
      using offline_part_reply_none(1) [OF None] by (simp add: offline_part_pending_def)
    then have "pending (offline_part ?u) = pending (offline_part s)" by (simp add: map_filter_remove1_dropped)
    then show ?thesis
      using Reply None offline_part_reply_none(2) [OF None] snapshot_reply_quiet
      by (simp add: offline_part_continue part map_filter_simps continue_def)
  next
    case (Some q)
    have w: "offline_part_await (snapshot_await_of r) = Some (offline_await_of q)"
      by (rule offline_part_reply_some(1) [OF Some])
    have "offline_part t = continue n (offline_on_reply (run_props (runs s ! n)) (cancelledRef s) q (offline_part_vals (vals s)))
        ((offline_part s)\<lparr>pending := remove1 (n, offline_await_of q) (pending (offline_part s))\<rparr>)"
      using Reply offline_part_reply_some(2) [OF Some e] snapshot_reply_quiet offline_reply_quiet
      by (simp add: offline_part_continue part offline_part_remove [OF w] map_filter_simps continue_def)
    moreover have "(n, offline_await_of q) \<in> set (pending (offline_part s))"
      using Reply(2) offline_part_pending_in [OF w] by simp
    ultimately show ?thesis using Reply(1) Some by simp
  qed
next
  case (SubscribeReply n res)
  then show ?thesis
    using offline_part_pending_in [of SnapshotSubscribe OfflineSubscribe n "pending s"] by (simp add: offline_part_subscribe)
next
  case (Deliver n ev)
  then show ?thesis
    using offline_part_pending_in [of SnapshotSubscribe OfflineSubscribe n "pending s"]
      offline_part_on_event [of "run_props (runs s ! n)" ev "vals s"]
    by (simp add: offline_part_continue)
next
  case (Act n a)
  then show ?thesis by simp
qed

lemma offline_part_run:
  "hook_run useSyncSnapshot es s = Some t \<Longrightarrow> \<forall>e \<in> set es. facade_reply_event e \<Longrightarrow>
     hook_run useOfflineQueue (List.map_filter offline_part_event es) (offline_part s) = Some (offline_part t)"
proof (induction es arbitrary: s)
  case (Cons e es)
  then obtain u where u: "hook_handle useSyncSnapshot e s = Some u" "hook_run useSyncSnapshot es u = Some t"
    by (auto split: option.splits)
  with Cons.prems Cons.IH [OF u(2)] show ?case
    using offline_part_step [OF u(1)] by (cases "offline_part_event e") (auto simp: map_filter_simps)
qed (simp add: map_filter_simps)

lemma offline_part_initial: "offline_part (initial_hook initial_snapshot) = initial_hook initial_offline"
  by (simp add: offline_part_def initial_hook_def offline_part_vals_def initial_snapshot_def initial_offline_def map_filter_simps)

section \<open>Properties\<close>

text \<open>C29: \<open>useOfflineQueue\<close> is a refinement of a part of \<open>useSyncSnapshot\<close>. Every run of the snapshot
  hook, with the replies to its last-result reads left out, is a run of the offline-queue hook that
  ends with the same connection, size, items, syncing flag, waiting flag and error on the screen.\<close>

theorem offline_refines_snapshot:
  assumes "hook_run useSyncSnapshot es (initial_hook initial_snapshot) = Some t"
    and "\<forall>e \<in> set es. facade_reply_event e"
  shows "\<exists>u. hook_run useOfflineQueue (List.map_filter offline_part_event es) (initial_hook initial_offline) = Some u \<and>
    uo_connection (offline_view outcome (vals u)) = un_connection (snapshot_view (vals t)) \<and>
    uo_size (offline_view outcome (vals u)) = un_size (snapshot_view (vals t)) \<and>
    uo_items (offline_view outcome (vals u)) = un_items (snapshot_view (vals t)) \<and>
    uo_isSyncing (offline_view outcome (vals u)) = un_isSyncing (snapshot_view (vals t)) \<and>
    uo_isWaitingForConnection (offline_view outcome (vals u)) = un_isWaitingForConnection (snapshot_view (vals t)) \<and>
    uo_error (offline_view outcome (vals u)) = un_error (snapshot_view (vals t))"
proof -
  have "hook_run useOfflineQueue (List.map_filter offline_part_event es) (initial_hook initial_offline) = Some (offline_part t)"
    using offline_part_run [OF assms] by (simp add: offline_part_initial)
  then show ?thesis
    by (simp add: offline_view_def snapshot_view_def offline_part_vals_def Let_def)
qed

lemma offline_refines_snapshot_witness:
  "\<exists>u. hook_run useOfflineQueue (List.map_filter offline_part_event snapshot_example) (initial_hook initial_offline) = Some u \<and>
     uo_isSyncing (offline_view (Created example_native) (vals u)) = un_isSyncing (snapshot_view (vals snapshot_example_state))"
proof -
  have "\<forall>e \<in> set snapshot_example. facade_reply_event e" by (simp add: snapshot_example_def)
  from offline_refines_snapshot [OF snapshot_example_run this, of "Created example_native"] show ?thesis by blast
qed

text \<open>the loading flag of a mounted \<open>useSyncQueue\<close> cannot get stuck: in every reachable state it is
  set only while a read is in flight, so once every read was answered, with success or failure, it
  is clear; and whatever error the hook shows is a \<open>SyncError\<close>.\<close>

theorem queue_loading_ends:
  assumes "hook_reachable useSyncQueue initial_queue s" and "mounted s"
  shows "((\<forall>n. (n, QueueRead) \<notin> set (pending s)) \<longrightarrow> \<not> qv_isLoading (vals s)) \<and>
    (\<forall>e. qv_error (vals s) = Some e \<longrightarrow> is_SyncError e)"
  using queue_loading.loading_has_read [OF assms] queue_error.reachable_good [OF _ assms(1)]
  by (auto simp: initial_queue_def)

definition queue_example_state :: "(bool, queue_vals, queue_await) hook_state" where
  "queue_example_state =
     the (hook_run useSyncQueue [Mount True, Reply 0 (QueueReadReply (Inl (OtherValue JNull)))] (initial_hook initial_queue))"

lemma queue_example_run:
  "hook_run useSyncQueue [Mount True, Reply 0 (QueueReadReply (Inl (OtherValue JNull)))] (initial_hook initial_queue) =
     Some queue_example_state"
  by (simp add: queue_example_state_def queue_simps hook_run_simps initial_queue_def)

lemma queue_example_facts: "mounted queue_example_state" "pending queue_example_state = [(0, QueueSubscribe)]"
  by (simp_all add: queue_example_state_def queue_simps hook_run_simps initial_queue_def)

lemma queue_loading_ends_witness: "\<not> qv_isLoading (vals queue_example_state)"
  using queue_loading_ends [OF hook_run_initial [OF queue_example_run] queue_example_facts(1)]
  by (simp add: queue_example_facts)

lemma queue_listener_leak:
  "\<exists>t. hook_run useSyncQueue [Mount True, Cleanup, SubscribeReply 0 (Inr ''s'')] (initial_hook initial_queue) = Some t \<and>
     \<not> mounted t \<and> registered t = [(''s'', 0)] \<and> removed t = []"
  by (simp add: queue_simps hook_run_simps)

lemma offline_listener_leak:
  "\<exists>t. hook_run useOfflineQueue [Mount True, Cleanup, SubscribeReply 0 (Inr ''s'')] (initial_hook initial_offline) = Some t \<and>
     \<not> mounted t \<and> registered t = [(''s'', 0)] \<and> removed t = []"
  by (simp add: offline_simps hook_run_simps)

text \<open>A failed queue read leaves an error that later successful reads do not clear.\<close>

lemma offline_error_stays:
  "ov_error (fst (offline_on_reply p b (OfflineQueueReply (Inr x)) v)) = ov_error v"
  "sn_error (fst (snapshot_on_reply p b (SnapshotQueueReply (Inr x)) w)) = sn_error w"
  by (cases x; simp)+

end
