(* ===== verification/Config_Hooks.thy ===== *)
theory Config_Hooks
  imports Hook_Runtime
begin

text \<open>
  Configuration: \<open>useSyncConfig\<close>, which mirrors the provider or reads the native configuration, and
  \<open>SyncProvider\<close>, which applies its options and owns the background task it enabled.
\<close>

section \<open>useSyncContext and useSyncConfig\<close>

text \<open>\<open>useContext\<close>: the value of the nearest provider, or the default.\<close>

definition useSyncContext :: "sync_provider_context_value option \<Rightarrow> sync_provider_context_value" where
  "useSyncContext provider = (case provider of None \<Rightarrow> default_context | Some v \<Rightarrow> v)"

record config_props =
  cp_native :: bool
  cp_context :: sync_provider_context_value

definition hasProvider :: "config_props \<Rightarrow> bool" where
  "hasProvider p \<longleftrightarrow> ctx_hasProvider (cp_context p) \<or> ctx_config (cp_context p) \<noteq> None"

record config_vals =
  cv_config :: "sync_options option"
  cv_isLoading :: bool
  cv_error :: "thrown option"

definition initial_config :: "sync_provider_context_value \<Rightarrow> config_vals" where
  "initial_config ctx = \<lparr>cv_config = ctx_config ctx, cv_isLoading = False, cv_error = None\<rparr>"

datatype config_await = ConfigRead | ConfigSubscribe | ConfigureWait sync_options

datatype config_reply =
    ConfigReadReply "thrown + sync_options"
  | ConfiguredReply sync_options "thrown + unit"

datatype config_act = RefreshConfig | SetConfig sync_options

fun config_await_of :: "config_reply \<Rightarrow> config_await" where
  "config_await_of (ConfigReadReply r) = ConfigRead"
| "config_await_of (ConfiguredReply opts r) = ConfigureWait opts"

definition config_refresh :: "bool \<Rightarrow> config_vals \<Rightarrow> config_vals \<times> config_await list" where
  "config_refresh native v = (if \<not> native then (v, []) else (v\<lparr>cv_isLoading := True\<rparr>, [ConfigRead]))"

definition config_start :: "config_props \<Rightarrow> config_vals \<Rightarrow> config_vals \<times> config_await list option" where
  "config_start p v =
     (if hasProvider p then (v\<lparr>cv_config := ctx_config (cp_context p)\<rparr>, None)
      else if \<not> cp_native p then (v, None)
      else let (v, ks) = config_refresh (cp_native p) v in (v, Some (ks @ [ConfigSubscribe])))"

text \<open>The rest of \<open>refresh\<close>, and the rest of \<open>setConfig\<close>.\<close>

fun config_on_reply :: "config_props \<Rightarrow> bool \<Rightarrow> config_reply \<Rightarrow> config_vals \<Rightarrow> config_vals \<times> config_await list" where
  "config_on_reply p cancelled (ConfigReadReply r) v =
     (let v = (if cancelled then v
               else case r of
                 Inr nxt \<Rightarrow> v\<lparr>cv_config := Some nxt, cv_error := None\<rparr>
               | Inl err \<Rightarrow> v\<lparr>cv_error := Some (captured_error ''Failed to read sync config.'' err)\<rparr>)
      in (if \<not> cancelled then v\<lparr>cv_isLoading := False\<rparr> else v, []))"
| "config_on_reply p cancelled (ConfiguredReply opts r) v =
     (case r of Inr _ \<Rightarrow> config_refresh (cp_native p) v | Inl err \<Rightarrow> (v, []))"

definition config_on_event :: "config_props \<Rightarrow> sync_event \<Rightarrow> config_vals \<Rightarrow> config_vals \<times> config_await list" where
  "config_on_event p e v = (if ev_type e = RESUMED then config_refresh (cp_native p) v else (v, []))"

fun config_on_act :: "config_props \<Rightarrow> config_act \<Rightarrow> config_vals \<Rightarrow> config_vals \<times> config_await list" where
  "config_on_act p RefreshConfig v = config_refresh (cp_native p) v"
| "config_on_act p (SetConfig nxt) v = (v, [ConfigureWait nxt])"

definition useSyncConfig :: "(config_props, config_vals, config_await, config_reply, config_act) hook_code" where
  "useSyncConfig =
     \<lparr>uses_ref = True, start_effect = config_start, on_reply = config_on_reply,
      on_event = config_on_event, on_act = config_on_act, act_enabled = (\<lambda>_ _ _. True),
      on_subscribed = keep_subscription, drop_subscription = unsubscribe, on_cleanup = (\<lambda>v. (v, [])),
      await_of = config_await_of, subscribe_await = ConfigSubscribe\<rparr>"

section \<open>SyncProvider\<close>

record provider_props =
  pp_native :: bool
  pp_options :: sync_options
  pp_backgroundSync :: "background_sync_options option"

record provider_vals =
  pv_config :: "sync_options option"
  ownsBackgroundRef :: bool

definition initial_provider :: provider_vals where
  "initial_provider = \<lparr>pv_config = None, ownsBackgroundRef = False\<rparr>"

text \<open>\<open>ProviderInitialRead ok\<close>: the read in the \<open>finally\<close>; \<open>ok\<close> is whether \<open>configureSync\<close> resolved.\<close>

datatype provider_await =
    ProviderConfigure sync_options | ProviderInitialRead bool | ProviderResumedRead
  | ProviderEnable background_sync_options | ProviderSubscribe | ProviderDisable

datatype provider_reply =
    ProviderConfiguredReply sync_options "thrown + unit"
  | ProviderInitialReadReply bool "thrown + sync_options"
  | ProviderResumedReadReply "thrown + sync_options"
  | ProviderEnabledReply background_sync_options "thrown + unit"
  | ProviderDisabledReply "thrown + unit"

fun provider_await_of :: "provider_reply \<Rightarrow> provider_await" where
  "provider_await_of (ProviderConfiguredReply opts r) = ProviderConfigure opts"
| "provider_await_of (ProviderInitialReadReply ok r) = ProviderInitialRead ok"
| "provider_await_of (ProviderResumedReadReply r) = ProviderResumedRead"
| "provider_await_of (ProviderEnabledReply b r) = ProviderEnable b"
| "provider_await_of (ProviderDisabledReply r) = ProviderDisable"

definition provider_start :: "provider_props \<Rightarrow> provider_vals \<Rightarrow> provider_vals \<times> provider_await list option" where
  "provider_start p v = (v, if pp_native p then Some [ProviderConfigure (pp_options p)] else None)"

text \<open>The end of \<open>refresh\<close>, which ignores failures.\<close>

definition provider_store :: "bool \<Rightarrow> thrown + sync_options \<Rightarrow> provider_vals \<Rightarrow> provider_vals" where
  "provider_store cancelled r v =
     (case r of Inr nxt \<Rightarrow> if \<not> cancelled then v\<lparr>pv_config := Some nxt\<rparr> else v | Inl err \<Rightarrow> v)"

fun provider_on_reply ::
  "provider_props \<Rightarrow> bool \<Rightarrow> provider_reply \<Rightarrow> provider_vals \<Rightarrow> provider_vals \<times> provider_await list" where
  "provider_on_reply p cancelled (ProviderConfiguredReply opts r) v =
     (v, [ProviderInitialRead (case r of Inr _ \<Rightarrow> True | Inl _ \<Rightarrow> False)])"
| "provider_on_reply p cancelled (ProviderInitialReadReply ok r) v =
     (provider_store cancelled r v,
      if \<not> ok then []
      else case pp_backgroundSync p of Some b \<Rightarrow> [ProviderEnable b] | None \<Rightarrow> [ProviderSubscribe])"
| "provider_on_reply p cancelled (ProviderResumedReadReply r) v = (provider_store cancelled r v, [])"
| "provider_on_reply p cancelled (ProviderEnabledReply b r) v =
     (case r of Inr _ \<Rightarrow> (v\<lparr>ownsBackgroundRef := True\<rparr>, [ProviderSubscribe]) | Inl err \<Rightarrow> (v, []))"
| "provider_on_reply p cancelled (ProviderDisabledReply r) v = (v, [])"

definition provider_on_event :: "provider_props \<Rightarrow> sync_event \<Rightarrow> provider_vals \<Rightarrow> provider_vals \<times> provider_await list" where
  "provider_on_event p e v = (v, if ev_type e = RESUMED then [ProviderResumedRead] else [])"

definition provider_on_cleanup :: "provider_vals \<Rightarrow> provider_vals \<times> provider_await list" where
  "provider_on_cleanup v =
     (if ownsBackgroundRef v then (v\<lparr>ownsBackgroundRef := False\<rparr>, [ProviderDisable]) else (v, []))"

definition SyncProvider :: "(provider_props, provider_vals, provider_await, provider_reply, unit) hook_code" where
  "SyncProvider =
     \<lparr>uses_ref = True, start_effect = provider_start, on_reply = provider_on_reply,
      on_event = provider_on_event, on_act = no_act, act_enabled = (\<lambda>_ _ _. False),
      on_subscribed = keep_subscription, drop_subscription = unsubscribe, on_cleanup = provider_on_cleanup,
      await_of = provider_await_of, subscribe_await = ProviderSubscribe\<rparr>"

definition context_value :: "provider_vals \<Rightarrow> sync_provider_context_value" where
  "context_value v = \<lparr>ctx_config = pv_config v, ctx_hasProvider = True\<rparr>"

section \<open>Subscriptions and guards\<close>

lemmas config_simps = useSyncConfig_def config_start_def config_refresh_def config_on_event_def hook_defs
lemmas provider_simps =
  SyncProvider_def provider_start_def provider_on_event_def provider_on_cleanup_def provider_store_def hook_defs

fun config_weight :: "config_await \<Rightarrow> nat" where
  "config_weight ConfigSubscribe = 1"
| "config_weight _ = 0"

fun provider_weight :: "provider_await \<Rightarrow> nat" where
  "provider_weight (ProviderInitialRead ok) = (if ok then 1 else 0)"
| "provider_weight ProviderResumedRead = 0"
| "provider_weight ProviderDisable = 0"
| "provider_weight _ = 1"

lemma config_reply_weight: "x \<in> set (snd (config_on_reply p b r v)) \<Longrightarrow> config_weight x = 0"
  by (cases r) (auto simp: config_refresh_def Let_def split: sum.splits if_splits)

lemma config_act_weight: "x \<in> set (snd (config_on_act p a v)) \<Longrightarrow> config_weight x = 0"
  by (cases a) (auto simp: config_refresh_def split: if_splits)

lemma config_reply_sum: "sum_list (map config_weight (snd (config_on_reply p b r v))) = 0"
  using config_reply_weight by (simp add: sum_list_eq_0_iff)

interpretation config_sub: single_subscription useSyncConfig config_weight
  by unfold_locales
    (auto simp: config_simps config_reply_sum config_act_weight split: if_splits)

lemma provider_reply_weight:
  "sum_list (map provider_weight (snd (provider_on_reply p b r v))) \<le> provider_weight (provider_await_of r)"
  by (cases r) (auto split: sum.split option.split)

interpretation provider_sub: single_subscription SyncProvider provider_weight
  by unfold_locales
    (auto simp: provider_simps intro: provider_reply_weight split: if_splits)

lemma config_guarded:
  "cv_config (fst (config_on_reply p True r v)) = cv_config v" "cv_error (fst (config_on_reply p True r v)) = cv_error v"
  by (cases r; simp add: config_refresh_def split: sum.split)+

interpretation config_guard: guarded_replies useSyncConfig "\<lambda>v. (cv_config v, cv_error v)"
  by unfold_locales (simp_all add: useSyncConfig_def config_guarded)

lemma provider_guarded: "pv_config (fst (provider_on_reply p True r v)) = pv_config v"
  by (cases r) (simp_all add: provider_store_def split: sum.split)

interpretation provider_guard: guarded_replies SyncProvider pv_config
  by unfold_locales (simp_all add: SyncProvider_def provider_guarded provider_on_cleanup_def)

lemma config_reply_loading:
  "cv_isLoading (fst (config_on_reply p False r v)) \<Longrightarrow>
     ConfigRead \<in> set (snd (config_on_reply p False r v)) \<or> (cv_isLoading v \<and> config_await_of r \<noteq> ConfigRead)"
  by (cases r) (auto simp: config_refresh_def Let_def split: sum.splits if_splits)

lemma config_act_loading:
  "cv_isLoading (fst (config_on_act p a v)) \<Longrightarrow> ConfigRead \<in> set (snd (config_on_act p a v)) \<or> cv_isLoading v"
  by (cases a) (auto simp: config_refresh_def split: if_splits)

interpretation config_loading: loading_flag useSyncConfig cv_isLoading ConfigRead
proof unfold_locales
  show "cv_isLoading (fst (on_reply useSyncConfig p False r v)) \<Longrightarrow>
      ConfigRead \<in> set (snd (on_reply useSyncConfig p False r v)) \<or>
      (cv_isLoading v \<and> await_of useSyncConfig r \<noteq> ConfigRead)" for p r v
    using config_reply_loading by (simp add: useSyncConfig_def)
qed (use config_act_loading in \<open>auto simp: config_simps split: if_splits\<close>)

section \<open>A hook below a provider\<close>

fun acts :: "('p, 'r, 'a) hook_event \<Rightarrow> bool" where
  "acts (Act n a) = True"
| "acts _ = False"

fun mounts :: "('p, 'r, 'a) hook_event list \<Rightarrow> 'p list" where
  "mounts [] = []"
| "mounts (Mount p # es) = p # mounts es"
| "mounts (_ # es) = mounts es"

lemma config_fields [simp]:
  "uses_ref useSyncConfig" "on_reply useSyncConfig = config_on_reply" "on_event useSyncConfig = config_on_event"
  "on_act useSyncConfig = config_on_act" "start_effect useSyncConfig = config_start"
  "on_cleanup useSyncConfig = (\<lambda>v. (v, []))" "await_of useSyncConfig = config_await_of"
  "subscribe_await useSyncConfig = ConfigSubscribe"
  by (simp_all add: useSyncConfig_def)

lemma config_quiet_run:
  "hook_run useSyncConfig es s = Some t \<Longrightarrow> pending s = [] \<Longrightarrow> registered s = [] \<Longrightarrow> \<not> mounted s \<Longrightarrow>
     \<forall>e \<in> set es. \<not> acts e \<Longrightarrow> \<forall>p \<in> set (mounts es). hasProvider p \<Longrightarrow>
     cv_config (vals t) = last (cv_config (vals s) # map (\<lambda>p. ctx_config (cp_context p)) (mounts es)) \<and>
     pending t = [] \<and> registered t = []"
proof (induction es arbitrary: s)
  case (Cons e es)
  then obtain u where u: "hook_handle useSyncConfig e s = Some u" "hook_run useSyncConfig es u = Some t"
    by (auto split: option.splits)
  from u(1) show ?case
  proof (cases rule: hook_handle_cases)
    case (Mount p)
    then have "\<not> mounted u" "pending u = []" "registered u = []" "cv_config (vals u) = ctx_config (cp_context p)"
      using Cons.prems by (auto simp: mounted_def config_start_def)
    with Cons.IH [OF u(2)] Cons.prems Mount show ?thesis by simp
  next
    case (Act n a)
    with Cons.prems show ?thesis by simp
  qed (use Cons.prems in simp_all)
qed simp

section \<open>Ownership of the background task\<close>

lemma provider_fields [simp]:
  "uses_ref SyncProvider" "on_reply SyncProvider = provider_on_reply" "on_event SyncProvider = provider_on_event"
  "act_enabled SyncProvider = (\<lambda>_ _ _. False)" "start_effect SyncProvider = provider_start"
  "on_cleanup SyncProvider = provider_on_cleanup" "await_of SyncProvider = provider_await_of"
  "subscribe_await SyncProvider = ProviderSubscribe"
  by (simp_all add: SyncProvider_def)

fun is_disable_reply :: "(provider_props, provider_reply, unit) hook_event \<Rightarrow> bool" where
  "is_disable_reply (Reply n (ProviderDisabledReply r)) = True"
| "is_disable_reply _ = False"

fun enabled_ok :: "(provider_props, provider_reply, unit) hook_event \<Rightarrow> bool" where
  "enabled_ok (Reply n (ProviderEnabledReply b (Inr _))) = True"
| "enabled_ok _ = False"

text \<open>The calls of \<open>disableBackgroundSync\<close> among the waits.\<close>

definition disables :: "(nat \<times> provider_await) list \<Rightarrow> nat" where
  "disables xs = length (filter (\<lambda>x. snd x = ProviderDisable) xs)"

lemma disables_simps [simp]:
  "disables [] = 0" "disables (xs @ ys) = disables xs + disables ys"
  "disables ((n, k) # xs) = of_bool (k = ProviderDisable) + disables xs"
  by (simp_all add: disables_def)

lemma disables_other [simp]: "k \<noteq> ProviderDisable \<Longrightarrow> disables (remove1 (n, k) xs) = disables xs"
  by (induction xs) auto

lemma disables_taken: "(n, ProviderDisable) \<in> set xs \<Longrightarrow> Suc (disables (remove1 (n, ProviderDisable) xs)) = disables xs"
  by (induction xs) auto

lemma disable_step:
  assumes "hook_handle SyncProvider e s = Some t"
  shows "of_bool (is_disable_reply e) + disables (pending t) + of_bool (ownsBackgroundRef (vals t)) \<le>
    disables (pending s) + of_bool (ownsBackgroundRef (vals s)) + of_bool (enabled_ok e)"
  using assms
proof (cases rule: hook_handle_cases)
  case (Mount p)
  then show ?thesis by (simp add: provider_start_def)
next
  case Cleanup
  then show ?thesis by (simp add: provider_on_cleanup_def)
next
  case (Reply n r)
  then show ?thesis
    using disables_taken [of n "pending s"]
    by (cases r) (auto simp: provider_store_def split: sum.splits option.splits)
next
  case (SubscribeReply n res)
  then show ?thesis by simp
next
  case (Deliver n ev)
  then show ?thesis by (simp add: provider_on_event_def)
qed simp

lemma disable_run:
  "hook_run SyncProvider es s = Some t \<Longrightarrow>
     length (filter is_disable_reply es) + disables (pending t) + of_bool (ownsBackgroundRef (vals t)) \<le>
     disables (pending s) + of_bool (ownsBackgroundRef (vals s)) + length (filter enabled_ok es)"
proof (induction es arbitrary: s)
  case (Cons e es)
  then obtain u where u: "hook_handle SyncProvider e s = Some u" "hook_run SyncProvider es u = Some t"
    by (auto split: option.splits)
  show ?case using Cons.IH [OF u(2)] disable_step [OF u(1)] by (auto simp: of_bool_def split: if_splits)
qed simp

section \<open>Background sync only after the configuration\<close>

text \<open>Run \<open>n\<close> is past its \<open>configureSync\<close> and can enable the background task.\<close>

definition may_enable :: "nat \<Rightarrow> (provider_props, provider_vals, provider_await) hook_state \<Rightarrow> bool" where
  "may_enable n s \<longleftrightarrow> (n, ProviderInitialRead True) \<in> set (pending s) \<or> (\<exists>b. (n, ProviderEnable b) \<in> set (pending s))"

fun configured_ok :: "nat \<Rightarrow> (provider_props, provider_reply, unit) hook_event \<Rightarrow> bool" where
  "configured_ok n (Reply m (ProviderConfiguredReply opts (Inr _))) = (m = n)"
| "configured_ok n _ = False"

lemma may_enable_step:
  assumes "hook_handle SyncProvider e s = Some t" and "may_enable n t"
  shows "may_enable n s \<or> configured_ok n e"
  using assms(1)
proof (cases rule: hook_handle_cases)
  case (Reply m r)
  with assms(2) show ?thesis
    by (cases r) (auto simp: may_enable_def split: sum.splits option.splits if_splits dest: set_remove1_subset [THEN subsetD])
qed (use assms(2) in \<open>auto simp: may_enable_def provider_start_def provider_on_event_def provider_on_cleanup_def
    split: if_splits dest: set_remove1_subset [THEN subsetD]\<close>)

lemma may_enable_run:
  "hook_run SyncProvider es s = Some t \<Longrightarrow> may_enable n t \<Longrightarrow> may_enable n s \<or> (\<exists>e \<in> set es. configured_ok n e)"
proof (induction es arbitrary: s)
  case (Cons e es)
  then obtain u where u: "hook_handle SyncProvider e s = Some u" "hook_run SyncProvider es u = Some t"
    by (auto split: option.splits)
  show ?case using Cons.IH [OF u(2) Cons.prems(2)] may_enable_step [OF u(1)] by auto
qed simp

section \<open>Properties\<close>

definition config_a :: sync_options where
  "config_a = example_options\<lparr>opt_batchSize := Some (num 1)\<rparr>"

definition config_b :: sync_options where
  "config_b = example_options\<lparr>opt_batchSize := Some (num 2)\<rparr>"

definition below_provider :: "sync_options option \<Rightarrow> config_props" where
  "below_provider c = \<lparr>cp_native = True, cp_context = \<lparr>ctx_config = c, ctx_hasProvider = True\<rparr>\<rparr>"

definition alone :: config_props where
  "alone = \<lparr>cp_native = True, cp_context = default_context\<rparr>"

definition config_example_state :: "(config_props, config_vals, config_await) hook_state" where
  "config_example_state =
     the (hook_run useSyncConfig [Mount (below_provider None), Mount (below_provider (Some config_a))]
       (initial_hook (initial_config \<lparr>ctx_config = None, ctx_hasProvider = True\<rparr>)))"

lemma config_example_run:
  "hook_run useSyncConfig [Mount (below_provider None), Mount (below_provider (Some config_a))]
     (initial_hook (initial_config \<lparr>ctx_config = None, ctx_hasProvider = True\<rparr>)) = Some config_example_state"
  by (simp add: config_example_state_def config_simps hook_run_simps hasProvider_def below_provider_def)

text \<open>below a provider, \<open>useSyncConfig\<close> mirrors the provider and nothing else: as long as every run
  of its effect finds a provider and the consumer calls no action, the hook shows the configuration
  of the latest context value, starts no native call and registers no listener.\<close>

theorem config_mirrors_provider:
  assumes "hook_run useSyncConfig es (initial_hook (initial_config ctx)) = Some t"
    and "\<forall>e \<in> set es. \<not> acts e" and "\<forall>p \<in> set (mounts es). hasProvider p"
  shows "cv_config (vals t) = last (ctx_config ctx # map (\<lambda>p. ctx_config (cp_context p)) (mounts es)) \<and>
    pending t = [] \<and> registered t = []"
  using config_quiet_run [OF assms(1) _ _ _ assms(2,3)] by (simp add: initial_config_def)

lemma config_mirrors_provider_witness: "cv_config (vals config_example_state) = Some config_a"
  using config_mirrors_provider [OF config_example_run] by (simp add: hasProvider_def below_provider_def)

text \<open>A read of a run without a provider that settles after a provider appeared overwrites the
  provider's configuration: the later run, which returns no cleanup, has cleared the shared flag.\<close>

lemma config_stale_read_wins:
  "\<exists>t. hook_run useSyncConfig
       [Mount alone, Cleanup, Mount (below_provider (Some config_a)), Reply 0 (ConfigReadReply (Inr config_b))]
       (initial_hook (initial_config default_context)) = Some t \<and> cv_config (vals t) = Some config_b"
  by (simp add: config_simps hook_run_simps hasProvider_def below_provider_def alone_def default_context_def
      initial_config_def)

lemma config_listener_leak:
  "\<exists>t. hook_run useSyncConfig [Mount alone, Cleanup, SubscribeReply 0 (Inr ''s'')]
       (initial_hook (initial_config default_context)) = Some t \<and>
     \<not> mounted t \<and> registered t = [(''s'', 0)] \<and> removed t = []"
  by (simp add: config_simps hook_run_simps hasProvider_def alone_def default_context_def)

definition provider_example_props :: provider_props where
  "provider_example_props =
     \<lparr>pp_native = True, pp_options = config_a,
      pp_backgroundSync = Some \<lparr>bg_minimumIntervalMs = num 1, bg_requiresCharging = None, bg_requiresUnmeteredNetwork = None,
        bg_requiresDeviceIdle = None, bg_foregroundOnly = None, bg_taskIdentifier = None\<rparr>\<rparr>"

definition provider_example :: "(provider_props, provider_reply, unit) hook_event list" where
  "provider_example =
     [Mount provider_example_props, Reply 0 (ProviderConfiguredReply config_a (Inr ())),
      Reply 0 (ProviderInitialReadReply True (Inr config_b)),
      Reply 0 (ProviderEnabledReply (the (pp_backgroundSync provider_example_props)) (Inr ()))]"

definition provider_example_state :: "(provider_props, provider_vals, provider_await) hook_state" where
  "provider_example_state = the (hook_run SyncProvider provider_example (initial_hook initial_provider))"

lemma provider_example_run:
  "hook_run SyncProvider provider_example (initial_hook initial_provider) = Some provider_example_state"
  by (simp add: provider_example_state_def provider_example_def provider_simps hook_run_simps provider_example_props_def
      initial_provider_def)

lemma provider_example_facts:
  "mounted provider_example_state" "ownsBackgroundRef (vals provider_example_state)"
  by (simp_all add: provider_example_state_def provider_example_def provider_simps hook_run_simps
      provider_example_props_def initial_provider_def)

text \<open>C21: the provider disables only what it enabled. Over any run, the calls of
  \<open>disableBackgroundSync\<close> it made, plus one while it owns the task, are at most the calls of
  \<open>enableBackgroundSync\<close> that resolved; an unmount while it owns the task disables it and gives the
  ownership up; and a run can be about to enable the task only after its own \<open>configureSync\<close>
  resolved.\<close>

theorem provider_background_ownership:
  assumes "hook_run SyncProvider es (initial_hook initial_provider) = Some t"
  shows "length (filter is_disable_reply es) + disables (pending t) + of_bool (ownsBackgroundRef (vals t)) \<le>
      length (filter enabled_ok es) \<and>
    (mounted t \<and> ownsBackgroundRef (vals t) \<longrightarrow>
      \<not> ownsBackgroundRef (vals (cleanup SyncProvider t)) \<and>
      disables (pending (cleanup SyncProvider t)) = Suc (disables (pending t))) \<and>
    ((n, ProviderEnable b) \<in> set (pending t) \<longrightarrow> (\<exists>e \<in> set es. configured_ok n e))"
proof -
  have "\<not> may_enable n (initial_hook initial_provider)" by (simp add: may_enable_def)
  then have "(n, ProviderEnable b) \<in> set (pending t) \<Longrightarrow> \<exists>e \<in> set es. configured_ok n e"
    using may_enable_run [OF assms, of n] by (auto simp: may_enable_def)
  then show ?thesis
    using disable_run [OF assms] by (simp add: initial_provider_def provider_on_cleanup_def)
qed

lemma provider_background_ownership_witness:
  "disables (pending (cleanup SyncProvider provider_example_state)) = Suc (disables (pending provider_example_state))"
  using provider_background_ownership [OF provider_example_run] provider_example_facts by blast

text \<open>When the provider unmounts while \<open>enableBackgroundSync\<close> is in flight, the task is enabled
  afterwards, the ownership is recorded after the cleanup has read it, and nothing disables the task.\<close>

lemma provider_background_leak:
  "\<exists>t. hook_run SyncProvider
       [Mount provider_example_props, Reply 0 (ProviderConfiguredReply config_a (Inr ())),
        Reply 0 (ProviderInitialReadReply True (Inr config_b)), Cleanup,
        Reply 0 (ProviderEnabledReply (the (pp_backgroundSync provider_example_props)) (Inr ()))]
       (initial_hook initial_provider) = Some t \<and>
     \<not> mounted t \<and> ownsBackgroundRef (vals t) \<and> pending t = [(0, ProviderSubscribe)]"
  by (simp add: provider_simps hook_run_simps provider_example_props_def initial_provider_def)

end
