(* ===== verification/Event_Hooks.thy ===== *)
theory Event_Hooks
  imports Hook_Runtime
begin

text \<open>
  The hooks that act on events: \<open>useSyncEvents\<close>, which calls the consumer back, and \<open>useAutoSync\<close>,
  which flushes on a timer, on a reconnection and when the application comes to the foreground.
\<close>

section \<open>useSyncEvents\<close>

text \<open>The two refs, and a log of the calls to the consumer's callback.\<close>

record events_vals =
  typesRef :: "sync_event_type list option"
  onEventRef :: nat
  invoked :: "(nat \<times> sync_event) list"

definition initial_events :: "use_sync_events_options \<Rightarrow> events_vals" where
  "initial_events options = \<lparr>typesRef = ue_types options, onEventRef = ue_onEvent options, invoked = []\<rparr>"

text \<open>The only wait of the effect is on its subscription; the type of replies has no real use.\<close>

datatype events_await = EventsSubscribe | EventsIdle

datatype events_act = Rerender "sync_event_type list option" nat

text \<open>The effect depends on the native module and on \<open>enabled\<close>, \<open>true\<close> by default.\<close>

definition events_start :: "bool \<times> bool option \<Rightarrow> events_vals \<Rightarrow> events_vals \<times> events_await list option" where
  "events_start p v =
     (let enabled = (case snd p of None \<Rightarrow> True | Some b \<Rightarrow> b)
      in if \<not> enabled then (v, None) else if \<not> fst p then (v, None) else (v, Some [EventsSubscribe]))"

definition events_on_event ::
  "bool \<times> bool option \<Rightarrow> sync_event \<Rightarrow> events_vals \<Rightarrow> events_vals \<times> events_await list" where
  "events_on_event p e v =
     (case typesRef v of
        Some ts \<Rightarrow> if ev_type e \<notin> set ts then (v, []) else (v\<lparr>invoked := invoked v @ [(onEventRef v, e)]\<rparr>, [])
      | None \<Rightarrow> (v\<lparr>invoked := invoked v @ [(onEventRef v, e)]\<rparr>, []))"

text \<open>The first effect: after a render, the refs take the new props.\<close>

fun events_on_act :: "bool \<times> bool option \<Rightarrow> events_act \<Rightarrow> events_vals \<Rightarrow> events_vals \<times> events_await list" where
  "events_on_act p (Rerender ts cb) v = (v\<lparr>onEventRef := cb, typesRef := ts\<rparr>, [])"

text \<open>After \<open>addSyncEventListener\<close> resolved: a run that was cleaned up meanwhile unsubscribes itself.\<close>

definition events_subscribed :: "bool \<Rightarrow> string \<Rightarrow> string option \<times> string list" where
  "events_subscribed cancelled i = (if cancelled then (None, [i]) else (Some i, []))"

definition events_drop :: "string option \<Rightarrow> string option \<times> string list" where
  "events_drop sid = (case sid of None \<Rightarrow> (sid, []) | Some i \<Rightarrow> (None, [i]))"

definition useSyncEvents :: "(bool \<times> bool option, events_vals, events_await, unit, events_act) hook_code" where
  "useSyncEvents =
     \<lparr>uses_ref = False, start_effect = events_start, on_reply = (\<lambda>p b r v. (v, [])),
      on_event = events_on_event, on_act = events_on_act, act_enabled = (\<lambda>_ _ _. True),
      on_subscribed = events_subscribed, drop_subscription = events_drop, on_cleanup = (\<lambda>v. (v, [])),
      await_of = (\<lambda>r. EventsIdle), subscribe_await = EventsSubscribe\<rparr>"

section \<open>useAutoSync\<close>

definition DEFAULT_INTERVAL_MS :: jsnum where
  "DEFAULT_INTERVAL_MS = num 60000"

record use_auto_sync_extra_options = use_auto_sync_options +
  ux_intervalMs :: "jsnum option"
  ux_flushOnAppForeground :: "bool option"

record auto_props =
  ap_native :: bool
  ap_options :: use_auto_sync_extra_options

text \<open>\<open>timer\<close> is the period of the interval that is set.\<close>

record auto_vals =
  lastConnectionRef :: "connection_status option"
  timer :: "jsnum option"

definition initial_auto :: auto_vals where
  "initial_auto = \<lparr>lastConnectionRef = None, timer = None\<rparr>"

datatype flush_trigger = Tick | Foreground | Reconnect

datatype auto_await =
  AutoSubscribe | CheckConnection flush_trigger | CheckSyncing flush_trigger | FlushCall flush_trigger

datatype auto_reply =
    ConnectionReply flush_trigger "thrown + connection_state"
  | SyncingReply flush_trigger "thrown + bool"
  | FlushReply flush_trigger "thrown + sync_result"

datatype auto_act = TimerTick | AppStateChange string

fun auto_await_of :: "auto_reply \<Rightarrow> auto_await" where
  "auto_await_of (ConnectionReply g r) = CheckConnection g"
| "auto_await_of (SyncingReply g r) = CheckSyncing g"
| "auto_await_of (FlushReply g r) = FlushCall g"

definition option_or :: "'a option \<Rightarrow> 'a \<Rightarrow> 'a" where
  "option_or x d = (case x of None \<Rightarrow> d | Some a \<Rightarrow> a)"

definition auto_period :: "use_auto_sync_extra_options \<Rightarrow> jsnum" where
  "auto_period options =
     (case ux_intervalMs options of
        Some x \<Rightarrow> if num_lt (num 0) x then x else DEFAULT_INTERVAL_MS
      | None \<Rightarrow> DEFAULT_INTERVAL_MS)"

definition auto_start :: "auto_props \<Rightarrow> auto_vals \<Rightarrow> auto_vals \<times> auto_await list option" where
  "auto_start p v =
     (if \<not> option_or (ua_enabled (ap_options p)) False then (v, None)
      else if \<not> ap_native p then (v, None)
      else (v\<lparr>timer := Some (auto_period (ap_options p))\<rparr>, Some [AutoSubscribe]))"

text \<open>\<open>flushUnlessOffline\<close> after its read of the connection, \<open>safeFlush\<close> after its read of the engine.\<close>

fun auto_on_reply :: "auto_props \<Rightarrow> bool \<Rightarrow> auto_reply \<Rightarrow> auto_vals \<Rightarrow> auto_vals \<times> auto_await list" where
  "auto_on_reply p cancelled (ConnectionReply g r) v =
     (v, case r of
           Inr connection \<Rightarrow> if conn_status connection = DISCONNECTED then [] else [CheckSyncing g]
         | Inl err \<Rightarrow> [])"
| "auto_on_reply p cancelled (SyncingReply g r) v =
     (v, case r of Inr inFlight \<Rightarrow> if inFlight \<or> cancelled then [] else [FlushCall g] | Inl err \<Rightarrow> [])"
| "auto_on_reply p cancelled (FlushReply g r) v = (v, [])"

definition auto_on_event :: "auto_props \<Rightarrow> sync_event \<Rightarrow> auto_vals \<Rightarrow> auto_vals \<times> auto_await list" where
  "auto_on_event p e v =
     (if \<not> option_or (ua_flushOnReconnect (ap_options p)) True then (v, [])
      else if ev_type e \<noteq> CONNECTION_CHANGED then (v, [])
      else case ev_connectionStatus e of
             None \<Rightarrow> (v, [])
           | Some nxt \<Rightarrow>
               (let prv = lastConnectionRef v;
                    becameConnected = (prv \<noteq> Some CONNECTED \<and> nxt = CONNECTED);
                    becameMetered =
                      (option_or (ua_flushOnMetered (ap_options p)) False \<and> prv \<noteq> Some METERED \<and> nxt = METERED)
                in (v\<lparr>lastConnectionRef := Some nxt\<rparr>,
                    if becameConnected \<or> becameMetered then [CheckSyncing Reconnect] else [])))"

fun auto_on_act :: "auto_props \<Rightarrow> auto_act \<Rightarrow> auto_vals \<Rightarrow> auto_vals \<times> auto_await list" where
  "auto_on_act p TimerTick v = (v, [CheckConnection Tick])"
| "auto_on_act p (AppStateChange nxt) v = (v, if nxt = ''active'' then [CheckConnection Foreground] else [])"

text \<open>The timer runs from the effect to its cleanup; so does the listener of the application state,
  if the options ask for it.\<close>

fun auto_act_enabled :: "bool \<Rightarrow> auto_props \<Rightarrow> auto_act \<Rightarrow> bool" where
  "auto_act_enabled isClosed p TimerTick = (\<not> isClosed)"
| "auto_act_enabled isClosed p (AppStateChange nxt) =
     (\<not> isClosed \<and> option_or (ux_flushOnAppForeground (ap_options p)) False)"

definition useAutoSync :: "(auto_props, auto_vals, auto_await, auto_reply, auto_act) hook_code" where
  "useAutoSync =
     \<lparr>uses_ref = False, start_effect = auto_start, on_reply = auto_on_reply, on_event = auto_on_event,
      on_act = auto_on_act, act_enabled = auto_act_enabled,
      on_subscribed = keep_subscription, drop_subscription = unsubscribe,
      on_cleanup = (\<lambda>v. (v\<lparr>timer := None\<rparr>, [])),
      await_of = auto_await_of, subscribe_await = AutoSubscribe\<rparr>"

section \<open>Subscriptions\<close>

lemmas events_simps = useSyncEvents_def events_start_def events_on_event_def events_subscribed_def events_drop_def
lemmas auto_simps = useAutoSync_def auto_start_def auto_on_event_def option_or_def hook_defs

fun events_weight :: "events_await \<Rightarrow> nat" where
  "events_weight EventsSubscribe = 1"
| "events_weight EventsIdle = 0"

fun auto_weight :: "auto_await \<Rightarrow> nat" where
  "auto_weight AutoSubscribe = 1"
| "auto_weight _ = 0"

lemma events_act_quiet: "snd (events_on_act p a v) = []"
  by (cases a) simp

interpretation events_sub: late_safe useSyncEvents events_weight
  by unfold_locales (auto simp: events_simps events_act_quiet split: option.splits if_splits)

lemma auto_reply_weight: "x \<in> set (snd (auto_on_reply p b r v)) \<Longrightarrow> auto_weight x = 0"
  by (cases r) (auto split: sum.splits if_splits)

lemma auto_act_weight: "x \<in> set (snd (auto_on_act p a v)) \<Longrightarrow> auto_weight x = 0"
  by (cases a) (auto split: if_splits)

lemma auto_reply_sum: "sum_list (map auto_weight (snd (auto_on_reply p b r v))) = 0"
  using auto_reply_weight by (simp add: sum_list_eq_0_iff)

interpretation auto_sub: single_subscription useAutoSync auto_weight
  by unfold_locales
    (auto simp: auto_simps auto_reply_sum Let_def auto_act_weight split: option.splits if_splits)

section \<open>Counting flushes\<close>

text \<open>The flushes run \<open>n\<close> has started for a trigger: those answered and those in flight.\<close>

fun is_flush_reply :: "nat \<Rightarrow> flush_trigger \<Rightarrow> (auto_props, auto_reply, auto_act) hook_event \<Rightarrow> bool" where
  "is_flush_reply n g (Reply m (FlushReply h r)) = (m = n \<and> h = g)"
| "is_flush_reply n g _ = False"

definition flushes ::
  "nat \<Rightarrow> flush_trigger \<Rightarrow> (auto_props, auto_reply, auto_act) hook_event list \<Rightarrow> (auto_props, auto_vals, auto_await) hook_state \<Rightarrow> nat" where
  "flushes n g es t = length (filter (is_flush_reply n g) es) + count_list (pending t) (n, FlushCall g)"

text \<open>The reads that found the engine idle, and the reads that found a connection.\<close>

fun idle_read :: "nat \<Rightarrow> flush_trigger \<Rightarrow> (auto_props, auto_reply, auto_act) hook_event \<Rightarrow> bool" where
  "idle_read n g (Reply m (SyncingReply h (Inr False))) = (m = n \<and> h = g)"
| "idle_read n g _ = False"

fun online_read :: "nat \<Rightarrow> flush_trigger \<Rightarrow> (auto_props, auto_reply, auto_act) hook_event \<Rightarrow> bool" where
  "online_read n g (Reply m (ConnectionReply h (Inr k))) = (m = n \<and> h = g \<and> conn_status k \<noteq> DISCONNECTED)"
| "online_read n g _ = False"

lemma auto_fields [simp]:
  "\<not> uses_ref useAutoSync" "on_reply useAutoSync = auto_on_reply" "on_event useAutoSync = auto_on_event"
  "on_act useAutoSync = auto_on_act" "start_effect useAutoSync = auto_start" "await_of useAutoSync = auto_await_of"
  "subscribe_await useAutoSync = AutoSubscribe" "on_cleanup useAutoSync = (\<lambda>v. (v\<lparr>timer := None\<rparr>, []))"
  "act_enabled useAutoSync = auto_act_enabled"
  by (simp_all add: useAutoSync_def)

lemma auto_event_awaits: "k \<in> set (snd (auto_on_event p e v)) \<Longrightarrow> k = CheckSyncing Reconnect"
  by (auto simp: auto_on_event_def Let_def split: option.splits if_splits)

lemma auto_act_awaits: "k \<in> set (snd (auto_on_act p a v)) \<Longrightarrow> \<exists>g. k = CheckConnection g"
  by (cases a) (auto split: if_splits)

lemma auto_event_none: "k \<noteq> CheckSyncing Reconnect \<Longrightarrow> count_list (snd (auto_on_event p e v)) k = 0"
  using auto_event_awaits by (metis count_list_0_iff)

lemma auto_act_none: "(\<And>g. k \<noteq> CheckConnection g) \<Longrightarrow> count_list (snd (auto_on_act p a v)) k = 0"
  using auto_act_awaits by (metis count_list_0_iff)

lemma auto_start_none:
  "k \<noteq> AutoSubscribe \<Longrightarrow> count_list (case snd (auto_start p v) of None \<Rightarrow> [] | Some ks \<Rightarrow> ks) k = 0"
  by (auto simp: auto_start_def)

text \<open>What a step does to the flushes in flight, and to the checks that lead to them.\<close>

lemma flush_step:
  assumes "hook_handle useAutoSync e s = Some t"
  shows "of_bool (is_flush_reply n g e) + count_list (pending t) (n, FlushCall g) =
    count_list (pending s) (n, FlushCall g) + of_bool (idle_read n g e \<and> \<not> closed (runs s ! n))"
  using assms
proof (cases rule: hook_handle_cases)
  case (Mount p)
  then show ?thesis using auto_start_none [of "FlushCall g" p "vals s"] by simp
next
  case (Reply m r)
  have taken: "Suc (count_list (remove1 (m, auto_await_of r) (pending s)) (m, auto_await_of r)) =
      count_list (pending s) (m, auto_await_of r)"
    using Reply(2) by (intro count_list_taken) simp
  show ?thesis
  proof (cases r)
    case (SyncingReply h x)
    with Reply show ?thesis by (cases x) (auto simp: count_list_remove1 is_cancelled_def)
  qed (use Reply taken in \<open>auto simp: count_list_remove1\<close>)
next
  case (SubscribeReply m res)
  then show ?thesis by (simp add: count_list_remove1)
next
  case (Deliver m ev)
  then show ?thesis by (simp add: auto_event_none)
next
  case (Act m a)
  then show ?thesis by (simp add: auto_act_none)
qed simp

lemma check_step:
  assumes "hook_handle useAutoSync e s = Some t" and "g \<noteq> Reconnect"
  shows "of_bool (is_flush_reply n g e) + count_list (pending t) (n, FlushCall g) + count_list (pending t) (n, CheckSyncing g) \<le>
    count_list (pending s) (n, FlushCall g) + count_list (pending s) (n, CheckSyncing g) + of_bool (online_read n g e)"
  using assms(1)
proof (cases rule: hook_handle_cases)
  case (Mount p)
  then show ?thesis
    using auto_start_none [of "FlushCall g" p "vals s"] auto_start_none [of "CheckSyncing g" p "vals s"] by simp
next
  case (Reply m r)
  have taken: "Suc (count_list (remove1 (m, auto_await_of r) (pending s)) (m, auto_await_of r)) =
      count_list (pending s) (m, auto_await_of r)"
    using Reply(2) by (intro count_list_taken) simp
  show ?thesis
  proof (cases r)
    case (ConnectionReply h x)
    with Reply show ?thesis by (cases x) (auto simp: count_list_remove1)
  next
    case (SyncingReply h x)
    with Reply taken show ?thesis by (cases x) (auto simp: count_list_remove1)
  next
    case (FlushReply h x)
    with Reply taken show ?thesis by (auto simp: count_list_remove1)
  qed
next
  case (SubscribeReply m res)
  then show ?thesis by (simp add: count_list_remove1)
next
  case (Deliver m ev)
  then show ?thesis using assms(2) by (simp add: auto_event_none)
next
  case (Act m a)
  then show ?thesis by (simp add: auto_act_none)
qed simp

lemma flushes_idle:
  "hook_run useAutoSync es s = Some t \<Longrightarrow>
     flushes n g es t \<le> count_list (pending s) (n, FlushCall g) + length (filter (idle_read n g) es)"
proof (induction es arbitrary: s)
  case (Cons e es)
  then obtain u where u: "hook_handle useAutoSync e s = Some u" "hook_run useAutoSync es u = Some t"
    by (auto split: option.splits)
  show ?case using Cons.IH [OF u(2)] flush_step [OF u(1), of n g]
    by (auto simp: flushes_def of_bool_def split: if_splits)
qed (simp add: flushes_def)

lemma flushes_online:
  assumes g: "g \<noteq> Reconnect"
  shows "hook_run useAutoSync es s = Some t \<Longrightarrow>
     flushes n g es t + count_list (pending t) (n, CheckSyncing g) \<le>
       count_list (pending s) (n, FlushCall g) + count_list (pending s) (n, CheckSyncing g) + length (filter (online_read n g) es)"
proof (induction es arbitrary: s)
  case (Cons e es)
  then obtain u where u: "hook_handle useAutoSync e s = Some u" "hook_run useAutoSync es u = Some t"
    by (auto split: option.splits)
  show ?case using Cons.IH [OF u(2)] check_step [OF u(1) g, of n] by (auto simp: flushes_def split: if_splits)
qed (simp add: flushes_def)

text \<open>A closed run stays closed.\<close>

lemma closed_step:
  assumes "hook_handle c e s = Some t" and "hook_inv c s" and "n < length (runs s)" and "closed (runs s ! n)"
  shows "n < length (runs t) \<and> closed (runs t ! n)"
  using assms(1)
proof (cases rule: hook_handle_cases)
  case (SubscribeReply m res)
  then show ?thesis using assms pending_run [OF assms(2)] by simp
qed (use assms(3,4) in \<open>auto simp: nth_append nth_list_update\<close>)

lemma flushes_closed:
  assumes "hook_run useAutoSync es s = Some t" and "hook_inv useAutoSync s"
    and "n < length (runs s)" and "closed (runs s ! n)"
  shows "flushes n g es t = count_list (pending s) (n, FlushCall g)"
  using assms
proof (induction es arbitrary: s)
  case (Cons e es)
  then obtain u where u: "hook_handle useAutoSync e s = Some u" "hook_run useAutoSync es u = Some t"
    by (auto split: option.splits)
  have "flushes n g es t = count_list (pending u) (n, FlushCall g)"
    using Cons.IH [OF u(2) hook_inv_handle [OF Cons.prems(2) u(1)]] closed_step [OF u(1) Cons.prems(2-4)] by blast
  then show ?case using flush_step [OF u(1), of n g] Cons.prems(4) by (auto simp: flushes_def split: if_splits)
qed (simp add: flushes_def)

section \<open>Properties\<close>

definition events_options :: use_sync_events_options where
  "events_options = \<lparr>ue_types = Some [ITEM_FAILED, SYNC_FAILED], ue_onEvent = 7, ue_enabled = None\<rparr>"

definition events_example :: "(bool \<times> bool option, unit, events_act) hook_event list" where
  "events_example =
     [Mount (True, None), Cleanup, Mount (True, None), SubscribeReply 1 (Inr ''b''),
      Deliver 1 (event_at SYNC_FAILED None), Deliver 1 (event_at SYNC_STARTED None), Cleanup,
      SubscribeReply 0 (Inr ''a'')]"

definition events_example_state :: "(bool \<times> bool option, events_vals, events_await) hook_state" where
  "events_example_state = the (hook_run useSyncEvents events_example (initial_hook (initial_events events_options)))"

lemma events_example_run:
  "hook_run useSyncEvents events_example (initial_hook (initial_events events_options)) = Some events_example_state"
  by (simp add: events_example_state_def events_example_def event_at_def events_simps hook_run_simps
      initial_events_def events_options_def)

lemma events_example_facts: "\<not> mounted events_example_state" "registered events_example_state = [(''a'', 0), (''b'', 1)]"
  by (simp_all add: events_example_state_def events_example_def event_at_def events_simps hook_run_simps
      initial_events_def events_options_def)

text \<open>C18: \<open>useSyncEvents\<close> leaks no listener. However mounts, unmounts and late registrations
  interleave, in every reachable state each listener the hook registered is either the one its
  current run holds or has been passed to \<open>removeSyncEventListener\<close>; after an unmount, all have.\<close>

theorem events_no_leak:
  assumes "hook_reachable useSyncEvents (initial_events options) s" and "(i, n) \<in> set (registered s)"
  shows "i \<in> set (removed s) \<or>
    (mounted s \<and> n = length (runs s) - 1 \<and> subscriptionId (runs s ! n) = Some i)"
proof -
  have inv: "single_inv useSyncEvents events_weight s" by (rule events_sub.single_inv_reachable [OF assms(1)])
  then have "n < length (runs s)" using assms(2) by (force simp: single_inv_def hook_inv_def)
  then show ?thesis
    using inv assms(2) events_sub.no_leak [OF assms] closed_or_last [of useSyncEvents s n] by (auto simp: single_inv_def)
qed

lemma events_no_leak_witness: "''a'' \<in> set (removed events_example_state)"
  using events_no_leak [OF hook_run_initial [OF events_example_run], of "''a''" 0] by (simp add: events_example_facts)

fun rerenders :: "(bool \<times> bool option, unit, events_act) hook_event \<Rightarrow> bool" where
  "rerenders (Act n a) = True"
| "rerenders _ = False"

definition wanted :: "sync_event_type list option \<Rightarrow> sync_event \<Rightarrow> bool" where
  "wanted ts e = (case ts of None \<Rightarrow> True | Some ts \<Rightarrow> ev_type e \<in> set ts)"

lemma events_step:
  assumes "hook_handle useSyncEvents e s = Some t" and "\<not> rerenders e"
  shows "typesRef (vals t) = typesRef (vals s) \<and> onEventRef (vals t) = onEventRef (vals s) \<and>
    invoked (vals t) = invoked (vals s) @ map (Pair (onEventRef (vals s))) (filter (wanted (typesRef (vals s))) (delivered [e]))"
  using assms(1)
proof (cases rule: hook_handle_cases)
  case (Act n a)
  with assms(2) show ?thesis by simp
qed (auto simp: useSyncEvents_def events_start_def events_on_event_def wanted_def Let_def split: option.splits)

lemma events_run:
  "hook_run useSyncEvents es s = Some t \<Longrightarrow> \<forall>e \<in> set es. \<not> rerenders e \<Longrightarrow>
     invoked (vals t) = invoked (vals s) @ map (Pair (onEventRef (vals s))) (filter (wanted (typesRef (vals s))) (delivered es))"
proof (induction es arbitrary: s)
  case (Cons e es)
  then obtain u where u: "hook_handle useSyncEvents e s = Some u" "hook_run useSyncEvents es u = Some t"
    by (auto split: option.splits)
  have "delivered (e # es) = delivered [e] @ delivered es" by (cases e) simp_all
  then show ?case using Cons.IH [OF u(2)] events_step [OF u(1)] Cons.prems(2) by simp
qed simp

text \<open>the consumer's callback is called exactly once, in order, for each delivered event whose type
  is in \<open>types\<close> (for every event without \<open>types\<close>), across re-subscriptions, as long as the props
  stay; a re-render only changes the callback and the filter of later events.\<close>

theorem events_delivered_in_order:
  assumes "hook_run useSyncEvents es s = Some t" and "\<forall>e \<in> set es. \<not> rerenders e"
  shows "invoked (vals t) =
    invoked (vals s) @ map (Pair (onEventRef (vals s))) (filter (wanted (typesRef (vals s))) (delivered es))"
  using assms by (rule events_run)

lemma events_delivered_in_order_witness:
  "invoked (vals events_example_state) = [(7, event_at SYNC_FAILED None)]"
proof -
  have "\<forall>e \<in> set events_example. \<not> rerenders e" by (simp add: events_example_def)
  from events_delivered_in_order [OF events_example_run this] show ?thesis
    by (simp add: events_example_def event_at_def initial_events_def events_options_def wanted_def)
qed

definition auto_options :: use_auto_sync_extra_options where
  "auto_options =
     \<lparr>ua_enabled = Some True, ua_flushOnReconnect = None, ua_flushOnMetered = None, ua_flushOnForeground = None,
      ua_backgroundSync = None, ux_intervalMs = Some (num 0), ux_flushOnAppForeground = None\<rparr>"

definition auto_example_props :: auto_props where
  "auto_example_props = \<lparr>ap_native = True, ap_options = auto_options\<rparr>"

definition state_with :: "connection_status \<Rightarrow> connection_state" where
  "state_with k = \<lparr>conn_status = k, conn_type = WIFI, conn_isInternetReachable = None, conn_isExpensive = None\<rparr>"

definition auto_example :: "(auto_props, auto_reply, auto_act) hook_event list" where
  "auto_example =
     [Mount auto_example_props, Act 0 TimerTick, Act 0 TimerTick,
      Reply 0 (ConnectionReply Tick (Inr (state_with METERED))), Reply 0 (ConnectionReply Tick (Inr (state_with DISCONNECTED))),
      Reply 0 (SyncingReply Tick (Inr False))]"

definition auto_example_state :: "(auto_props, auto_vals, auto_await) hook_state" where
  "auto_example_state = the (hook_run useAutoSync auto_example (initial_hook initial_auto))"

lemma auto_example_run:
  "hook_run useAutoSync auto_example (initial_hook initial_auto) = Some auto_example_state"
  by (simp add: auto_example_state_def auto_example_def auto_simps auto_example_props_def auto_options_def hook_run_simps
      initial_auto_def state_with_def)

lemma auto_example_facts:
  "pending auto_example_state = [(0, AutoSubscribe), (0, FlushCall Tick)]" "mounted auto_example_state"
  "length (runs auto_example_state) = 1" "timer (vals auto_example_state) = Some (num 60000)"
  by (simp_all add: auto_example_state_def auto_example_def auto_simps auto_example_props_def auto_options_def hook_run_simps
      initial_auto_def state_with_def auto_period_def DEFAULT_INTERVAL_MS_def)

text \<open>C19: \<open>useAutoSync\<close> never flushes offline from its timer or from the foreground: each flush these
  triggers start has used up a read of its own of a connection that is not \<open>DISCONNECTED\<close>; and no
  trigger, reconnection included, starts a flush without a read of its own that found no cycle in
  flight. Failed reads lead to no flush.\<close>

theorem auto_flushes_have_reads:
  assumes "hook_run useAutoSync es (initial_hook initial_auto) = Some t"
  shows "(g \<noteq> Reconnect \<longrightarrow> flushes n g es t \<le> length (filter (online_read n g) es)) \<and>
    flushes n g es t \<le> length (filter (idle_read n g) es)"
  using flushes_online [OF _ assms, of g n] flushes_idle [OF assms, of n g] by auto

lemma auto_flushes_have_reads_witness:
  "flushes 0 Tick auto_example auto_example_state \<le> 1"
  using auto_flushes_have_reads [OF auto_example_run, of Tick 0]
  by (simp add: auto_example_def state_with_def)

text \<open>C20: after its cleanup a run of \<open>useAutoSync\<close> starts no flush any more, whatever happens next: late
  replies, events to a listener that is still registered, later runs of the effect. The flushes of
  the run stay those that were in flight.\<close>

theorem auto_stops_at_cleanup:
  assumes "hook_reachable useAutoSync initial_auto s" and "mounted s"
    and "hook_run useAutoSync es (cleanup useAutoSync s) = Some t"
  shows "flushes (length (runs s) - 1) g es t = count_list (pending s) (length (runs s) - 1, FlushCall g)"
proof -
  have inv: "hook_inv useAutoSync s" by (rule hook.reachable_inv [OF assms(1)])
  have h: "hook_handle useAutoSync Cleanup s = Some (cleanup useAutoSync s)" using assms(2) by simp
  have "runs s \<noteq> []" using assms(2) by (simp add: mounted_def)
  then have "flushes (length (runs s) - 1) g es t =
      count_list (pending (cleanup useAutoSync s)) (length (runs s) - 1, FlushCall g)"
    by (intro flushes_closed [OF assms(3) hook_inv_handle [OF inv h]]) simp_all
  then show ?thesis by simp
qed

lemma auto_stops_at_cleanup_witness:
  "\<exists>t. hook_run useAutoSync
       [SubscribeReply 0 (Inr ''s''), Deliver 0 (event_at CONNECTION_CHANGED (Some CONNECTED)), Reply 0 (SyncingReply Reconnect (Inr False))]
       (cleanup useAutoSync auto_example_state) = Some t \<and> count_list (pending t) (0, FlushCall Reconnect) = 0"
proof -
  let ?es = "[SubscribeReply 0 (Inr ''s''), Deliver 0 (event_at CONNECTION_CHANGED (Some CONNECTED)), Reply 0 (SyncingReply Reconnect (Inr False))]"
  obtain t where t: "hook_run useAutoSync ?es (cleanup useAutoSync auto_example_state) = Some t"
    by (simp add: auto_example_state_def auto_example_def auto_simps auto_example_props_def auto_options_def hook_run_simps
      initial_auto_def state_with_def event_at_def)
  have "flushes 0 Reconnect ?es t = 0"
    using auto_stops_at_cleanup [OF hook_run_initial [OF auto_example_run] auto_example_facts(2) t, of Reconnect]
    by (simp add: auto_example_facts)
  then show ?thesis using t by (auto simp: flushes_def)
qed

text \<open>The period is positive, but it is not bounded: an infinite interval is passed on.\<close>

lemma auto_period_positive: "num_lt (num 0) (auto_period options)"
  by (simp add: auto_period_def DEFAULT_INTERVAL_MS_def split: option.split)

lemma auto_period_infinite: "auto_period (auto_options\<lparr>ux_intervalMs := Some PosInf\<rparr>) = PosInf"
  by (simp add: auto_period_def auto_options_def)

text \<open>The status of the last event outlives the run: after the hook was off while the device went
  offline, the transition back to \<open>CONNECTED\<close> is taken for none and triggers no flush.\<close>

lemma auto_missed_reconnect:
  "\<exists>t. hook_run useAutoSync
       [Mount auto_example_props, SubscribeReply 0 (Inr ''a''),
        Deliver 0 (event_at CONNECTION_CHANGED (Some CONNECTED)), Reply 0 (SyncingReply Reconnect (Inr True)), Cleanup,
        Mount auto_example_props, SubscribeReply 1 (Inr ''b''), Deliver 1 (event_at CONNECTION_CHANGED (Some CONNECTED))]
       (initial_hook initial_auto) = Some t \<and> pending t = []"
  by (simp add: auto_simps auto_example_props_def auto_options_def hook_run_simps initial_auto_def event_at_def)

lemma auto_listener_leak:
  "\<exists>t. hook_run useAutoSync [Mount auto_example_props, Cleanup, SubscribeReply 0 (Inr ''s'')] (initial_hook initial_auto) = Some t \<and>
     \<not> mounted t \<and> registered t = [(''s'', 0)] \<and> removed t = []"
  by (simp add: auto_simps auto_example_props_def auto_options_def hook_run_simps initial_auto_def)

end
