(* ===== verification/Hook_Parity.thy ===== *)
theory Hook_Parity
  imports Web_Entry Queue_Hooks Config_Hooks Event_Hooks
begin

text \<open>
  The hooks of the native entry on a device without the native module, against the hooks of the web
  entry (\<open>src/index.web.tsx\<close>), which return fixed values. Availability is final
  (\<open>probe_first_outcome_is_final\<close>), so every run of an effect sees the same answer.
\<close>

section \<open>The contract of an inert hook\<close>

text \<open>A run of a hook in which no render sees the native module.\<close>

definition run_off ::
  "('p \<Rightarrow> bool) \<Rightarrow> ('p, 'v, 'k, 'r, 'a) hook_code \<Rightarrow> 'v \<Rightarrow> ('p, 'r, 'a) hook_event list \<Rightarrow> ('p, 'v, 'k) hook_state \<Rightarrow> bool" where
  "run_off off c v es s \<longleftrightarrow> (\<forall>p. Mount p \<in> set es \<longrightarrow> off p) \<and> hook_run c es (initial_hook v) = Some s"

definition no_listener :: "('p, 'v, 'k, 'r, 'a) hook_code \<Rightarrow> ('p, 'v, 'k) hook_state \<Rightarrow> bool" where
  "no_listener c s \<longleftrightarrow> registered s = [] \<and> removed s = [] \<and> (\<forall>n. (n, subscribe_await c) \<notin> set (pending s))"

text \<open>
  \<open>off\<close>: the props of a render without the native module. \<open>quiet\<close>: the waits that stay possible,
  those of actions the consumer calls.
\<close>

locale inert_hook =
  fixes c :: "('p, 'v, 'k, 'r, 'a) hook_code" and good :: "'v \<Rightarrow> bool" and off :: "'p \<Rightarrow> bool" and quiet :: "'k \<Rightarrow> bool"
  assumes start_off: "off p \<Longrightarrow> good v \<Longrightarrow> good (fst (start_effect c p v)) \<and> snd (start_effect c p v) = None"
    and act_off: "off p \<Longrightarrow> good v \<Longrightarrow> act_enabled c True p a \<Longrightarrow>
      good (fst (on_act c p a v)) \<and> (\<forall>k \<in> set (snd (on_act c p a v)). quiet k)"
    and reply_off: "off p \<Longrightarrow> good v \<Longrightarrow> quiet (await_of c r) \<Longrightarrow>
      good (fst (on_reply c p b r v)) \<and> (\<forall>k \<in> set (snd (on_reply c p b r v)). quiet k)"
    and subscribe_loud: "\<not> quiet (subscribe_await c)"
begin

definition inert :: "('p, 'v, 'k) hook_state \<Rightarrow> bool" where
  "inert s \<longleftrightarrow> good (vals s) \<and> (\<forall>(n, k) \<in> set (pending s). n < length (runs s) \<and> quiet k) \<and> registered s = [] \<and> removed s = [] \<and>
     (\<forall>r \<in> set (runs s). closed r \<and> off (run_props r))"

lemma inert_unmounted: "inert s \<Longrightarrow> \<not> mounted s"
  by (auto simp: inert_def mounted_def dest: bspec [OF _ last_in_set])

lemma inert_step:
  assumes "inert s" and step: "hook_handle c e s = Some t" and "\<forall>p. e = Mount p \<longrightarrow> off p"
  shows "inert t"
  using step
proof (cases rule: hook_handle_cases)
  case (Mount p)
  then show ?thesis using assms start_off [of p "vals s"] by (fastforce simp: inert_def)
next
  case Cleanup
  then show ?thesis using inert_unmounted [OF assms(1)] by simp
next
  case (Reply n r)
  then have "n < length (runs s)" "quiet (await_of c r)" using assms(1) by (auto simp: inert_def)
  then show ?thesis
    using Reply(3) assms(1) reply_off [of "run_props (runs s ! n)" "vals s" r "is_cancelled c s n"]
    by (auto simp: inert_def dest: notin_set_remove1)
next
  case (SubscribeReply n res)
  then show ?thesis using assms(1) subscribe_loud by (auto simp: inert_def)
next
  case (Deliver n ev)
  then show ?thesis using assms(1) subscribe_loud by (auto simp: inert_def)
next
  case (Act n a)
  then have "closed (runs s ! n)" "off (run_props (runs s ! n))" using assms(1) by (auto simp: inert_def)
  then show ?thesis
    using Act assms(1) act_off [of "run_props (runs s ! n)" "vals s" a] by (auto simp: inert_def)
qed

lemma inert_run: "inert s \<Longrightarrow> \<forall>p. Mount p \<in> set es \<longrightarrow> off p \<Longrightarrow> hook_run c es s = Some t \<Longrightarrow> inert t"
proof (induction es arbitrary: s)
  case (Cons e es)
  then obtain u where u: "hook_handle c e s = Some u" "hook_run c es u = Some t" by (auto split: option.splits)
  have "inert u" using Cons.prems by (intro inert_step [OF _ u(1)]) auto
  then show ?case using Cons.prems u(2) by (intro Cons.IH) auto
qed simp

lemma inert_from_start:
  assumes "run_off off c v es t" and "good v"
  shows "good (vals t)" and "no_listener c t" and "\<not> mounted t"
proof -
  have "inert t" using assms inert_run [of "initial_hook v" es t] by (simp add: run_off_def inert_def)
  then show "good (vals t)" "no_listener c t" "\<not> mounted t"
    using subscribe_loud inert_unmounted by (auto simp: inert_def no_listener_def)
qed

end

section \<open>Every hook is inert without the native module\<close>

abbreviation silent :: "'k \<Rightarrow> bool" where
  "silent \<equiv> \<lambda>_. False"

interpretation connection_inert: inert_hook useConnection "\<lambda>v. v = initial_connection" Not silent
  by unfold_locales (simp_all add: useConnection_def connection_start_def)

interpretation status_inert: inert_hook useSyncStatus "\<lambda>v. v = initial_status" Not silent
  by unfold_locales (simp_all add: useSyncStatus_def status_start_def)

interpretation snapshot_inert: inert_hook useSyncSnapshot "\<lambda>v. v = initial_snapshot" Not silent
  by unfold_locales (simp_all add: useSyncSnapshot_def snapshot_start_def)

interpretation offline_inert: inert_hook useOfflineQueue "\<lambda>v. v = initial_offline" Not silent
  by unfold_locales (simp_all add: useOfflineQueue_def offline_start_def)

lemma queue_act_off: "queue_on_act False a v = (v, [])"
  by (cases a) (simp add: queue_refresh_def)

interpretation queue_inert: inert_hook useSyncQueue "\<lambda>v. v = initial_queue" Not silent
  by unfold_locales (simp_all add: useSyncQueue_def queue_start_def queue_act_off queue_refresh_def)

text \<open>Below a provider \<open>useSyncConfig\<close> takes the provider's configuration, which is not there either.\<close>

definition config_off :: "config_props \<Rightarrow> bool" where
  "config_off p \<longleftrightarrow> \<not> cp_native p \<and> ctx_config (cp_context p) = None"

fun is_configure :: "config_await \<Rightarrow> bool" where
  "is_configure (ConfigureWait opts) = True"
| "is_configure _ = False"

definition no_config :: config_vals where
  "no_config = \<lparr>cv_config = None, cv_isLoading = False, cv_error = None\<rparr>"

lemma config_act_off:
  "\<not> cp_native p \<Longrightarrow> fst (config_on_act p a v) = v \<and> (\<forall>k \<in> set (snd (config_on_act p a v)). is_configure k)"
  by (cases a) (simp_all add: config_refresh_def)

lemma config_reply_off:
  "\<not> cp_native p \<Longrightarrow> is_configure (config_await_of r) \<Longrightarrow> config_on_reply p b r v = (v, [])"
  by (cases r) (simp_all add: config_refresh_def split: sum.split)

interpretation config_inert: inert_hook useSyncConfig "\<lambda>v. v = no_config" config_off is_configure
  by unfold_locales
    (auto simp: useSyncConfig_def config_start_def config_off_def no_config_def config_act_off config_reply_off)

interpretation provider_inert: inert_hook SyncProvider "\<lambda>v. v = initial_provider" "\<lambda>p. \<not> pp_native p" silent
  by unfold_locales (simp_all add: SyncProvider_def provider_start_def)

lemma events_act_invoked: "invoked (fst (events_on_act p a v)) = invoked v \<and> snd (events_on_act p a v) = []"
  by (cases a) simp

interpretation events_inert: inert_hook useSyncEvents "\<lambda>v. invoked v = []" "\<lambda>p. \<not> fst p" silent
  by unfold_locales (auto simp: useSyncEvents_def events_start_def events_act_invoked Let_def)

lemma auto_act_closed: "\<not> auto_act_enabled True p a"
  by (cases a) simp_all

interpretation auto_inert: inert_hook useAutoSync "\<lambda>v. timer v = None" "\<lambda>p. \<not> ap_native p" silent
  by unfold_locales (simp_all add: useAutoSync_def auto_start_def auto_act_closed)

section \<open>Concrete runs\<close>

lemma run_off_nothing: "run_off off c v [] (initial_hook v)"
  by (simp add: run_off_def)

text \<open>A mount without the native module and a call of \<open>refresh\<close>.\<close>

lemma refresh_without_native:
  "run_off Not useSyncQueue initial_queue [Mount False, Act 0 RefreshQueue]
     (initial_hook initial_queue\<lparr>runs := [\<lparr>run_props = False, closed = True, subscriptionId = None\<rparr>]\<rparr>)"
  by (simp add: run_off_def hook_run_simps useSyncQueue_def queue_start_def queue_act_off queue_refresh_def)

lemma auto_without_native:
  "run_off (\<lambda>p. \<not> ap_native p) useAutoSync initial_auto [Mount \<lparr>ap_native = False, ap_options = auto_options\<rparr>]
     (initial_hook initial_auto\<lparr>runs := [\<lparr>run_props = \<lparr>ap_native = False, ap_options = auto_options\<rparr>, closed = True,
        subscriptionId = None\<rparr>]\<rparr>)"
  by (simp add: run_off_def hook_run_simps useAutoSync_def auto_start_def)

section \<open>Properties\<close>

text \<open>without the native module no hook and no provider ever subscribes to events: whatever mounts,
  cleanups, actions and renders happen, no listener is registered and none is being registered, and
  \<open>useAutoSync\<close> has no timer and \<open>useSyncEvents\<close> never calls back.\<close>

theorem hooks_subscribe_nothing:
  assumes "run_off Not useConnection initial_connection es1 s1" and "run_off Not useSyncStatus initial_status es2 s2"
    and "run_off Not useSyncSnapshot initial_snapshot es3 s3" and "run_off Not useSyncQueue initial_queue es4 s4"
    and "run_off Not useOfflineQueue initial_offline es5 s5" and "run_off config_off useSyncConfig no_config es6 s6"
    and "run_off (\<lambda>p. \<not> pp_native p) SyncProvider initial_provider es7 s7"
    and "run_off (\<lambda>p. \<not> fst p) useSyncEvents (initial_events options) es8 s8"
    and "run_off (\<lambda>p. \<not> ap_native p) useAutoSync initial_auto es9 s9"
  shows "no_listener useConnection s1 \<and> no_listener useSyncStatus s2 \<and> no_listener useSyncSnapshot s3 \<and>
    no_listener useSyncQueue s4 \<and> no_listener useOfflineQueue s5 \<and> no_listener useSyncConfig s6 \<and>
    no_listener SyncProvider s7 \<and> no_listener useSyncEvents s8 \<and> no_listener useAutoSync s9 \<and>
    invoked (vals s8) = [] \<and> timer (vals s9) = None"
  using connection_inert.inert_from_start(2) [OF assms(1)] status_inert.inert_from_start(2) [OF assms(2)]
    snapshot_inert.inert_from_start(2) [OF assms(3)] queue_inert.inert_from_start(2) [OF assms(4)]
    offline_inert.inert_from_start(2) [OF assms(5)] config_inert.inert_from_start(2) [OF assms(6)]
    provider_inert.inert_from_start(2) [OF assms(7)] events_inert.inert_from_start(1,2) [OF assms(8)]
    auto_inert.inert_from_start(1,2) [OF assms(9)]
  by (simp add: initial_events_def initial_auto_def)

lemma hooks_subscribe_nothing_witness:
  "\<exists>s. run_off (\<lambda>p. \<not> ap_native p) useAutoSync initial_auto [Mount \<lparr>ap_native = False, ap_options = auto_options\<rparr>] s \<and>
     no_listener useAutoSync s \<and> timer (vals s) = None"
  using auto_without_native
    hooks_subscribe_nothing [OF run_off_nothing run_off_nothing run_off_nothing refresh_without_native run_off_nothing
      run_off_nothing run_off_nothing run_off_nothing auto_without_native] by blast

text \<open>C36: without the native module every hook shows for ever what the hook of the web entry returns,
  with its own actions in place of the web's; the type of the connection is the one difference,
  \<open>UNKNOWN\<close> where the web entry has \<open>NONE\<close>. The context reads the same inside and outside a provider.\<close>

theorem hooks_match_web:
  fixes outcome :: "'w native created"
  assumes "run_off Not useConnection initial_connection es1 s1" and "run_off Not useSyncStatus initial_status es2 s2"
    and "run_off Not useSyncSnapshot initial_snapshot es3 s3" and "run_off Not useSyncQueue initial_queue es4 s4"
    and "run_off Not useOfflineQueue initial_offline es5 s5" and "run_off config_off useSyncConfig no_config es6 s6"
    and "run_off (\<lambda>p. \<not> pp_native p) SyncProvider initial_provider es7 s7"
  shows "vals s1 = web_useConnection\<lparr>uc_type := UNKNOWN_TYPE\<rparr> \<and>
    status_view outcome (vals s2) =
      web_useSyncStatus\<lparr>us_flush := flush outcome, us_pause := pauseSync outcome, us_resume := resumeSync outcome\<rparr> \<and>
    snapshot_view (vals s3) = web_useSyncSnapshot\<lparr>un_connection := INERT_CONNECTION\<lparr>uc_type := UNKNOWN_TYPE\<rparr>\<rparr> \<and>
    queue_view outcome refresh (vals s4) =
      web_useSyncQueue\<lparr>uq_enqueue := enqueue outcome, uq_enqueueBatch := enqueueBatch outcome,
        uq_removeItem := removeItem outcome, uq_clearQueue := clearQueue outcome, uq_refresh := refresh\<rparr> \<and>
    offline_view outcome (vals s5) =
      web_useOfflineQueue\<lparr>uo_connection := INERT_CONNECTION\<lparr>uc_type := UNKNOWN_TYPE\<rparr>,
        uo_enqueue := enqueue outcome, uo_flush := flush outcome\<rparr> \<and>
    cv_config (vals s6) = ug_config (web_useSyncConfig :: 'w app use_sync_config_result) \<and>
    cv_isLoading (vals s6) = ug_isLoading (web_useSyncConfig :: 'w app use_sync_config_result) \<and>
    cv_error (vals s6) = ug_error (web_useSyncConfig :: 'w app use_sync_config_result) \<and>
    useSyncContext (Some (context_value (vals s7))) = web_useSyncContext (web_SyncProvider options backgroundSync) \<and>
    useSyncContext None = web_useSyncContext None"
proof (intro conjI)
  note web = web_useConnection_def INERT_CONNECTION_def
  show "vals s1 = web_useConnection\<lparr>uc_type := UNKNOWN_TYPE\<rparr>"
    using connection_inert.inert_from_start(1) [OF assms(1)] by (simp add: web initial_connection_def)
  show "status_view outcome (vals s2) =
      web_useSyncStatus\<lparr>us_flush := flush outcome, us_pause := pauseSync outcome, us_resume := resumeSync outcome\<rparr>"
    using status_inert.inert_from_start(1) [OF assms(2)] by (simp add: status_view_def initial_status_def web_useSyncStatus_def)
  show "snapshot_view (vals s3) = web_useSyncSnapshot\<lparr>un_connection := INERT_CONNECTION\<lparr>uc_type := UNKNOWN_TYPE\<rparr>\<rparr>"
    using snapshot_inert.inert_from_start(1) [OF assms(3)]
    by (simp add: snapshot_view_def initial_snapshot_def web_useSyncSnapshot_def web)
  show "queue_view outcome refresh (vals s4) =
      web_useSyncQueue\<lparr>uq_enqueue := enqueue outcome, uq_enqueueBatch := enqueueBatch outcome,
        uq_removeItem := removeItem outcome, uq_clearQueue := clearQueue outcome, uq_refresh := refresh\<rparr>"
    using queue_inert.inert_from_start(1) [OF assms(4)] by (simp add: queue_view_def initial_queue_def web_useSyncQueue_def)
  show "offline_view outcome (vals s5) =
      web_useOfflineQueue\<lparr>uo_connection := INERT_CONNECTION\<lparr>uc_type := UNKNOWN_TYPE\<rparr>,
        uo_enqueue := enqueue outcome, uo_flush := flush outcome\<rparr>"
    using offline_inert.inert_from_start(1) [OF assms(5)]
    by (simp add: offline_view_def initial_offline_def web_useOfflineQueue_def web)
  have "vals s6 = no_config" using config_inert.inert_from_start(1) [OF assms(6)] by simp
  then show "cv_config (vals s6) = ug_config (web_useSyncConfig :: 'w app use_sync_config_result)"
      "cv_isLoading (vals s6) = ug_isLoading (web_useSyncConfig :: 'w app use_sync_config_result)"
      "cv_error (vals s6) = ug_error (web_useSyncConfig :: 'w app use_sync_config_result)"
    by (simp_all add: no_config_def web_useSyncConfig_def)
  show "useSyncContext (Some (context_value (vals s7))) = web_useSyncContext (web_SyncProvider options backgroundSync)"
    using provider_inert.inert_from_start(1) [OF assms(7)]
    by (simp add: context_value_def initial_provider_def WEB_PROVIDER_VALUE_def useSyncContext_def web_useSyncContext_def
        web_SyncProvider_def)
  show "useSyncContext None = web_useSyncContext None"
    by (simp add: useSyncContext_def web_useSyncContext_def default_context_def web_default_context_def)
qed

lemma hooks_match_web_witness:
  "\<exists>s. run_off Not useSyncQueue initial_queue [Mount False, Act 0 RefreshQueue] s \<and>
     queue_view (Created example_native) (returnA ()) (vals s) =
       web_useSyncQueue\<lparr>uq_enqueue := enqueue (Created example_native), uq_enqueueBatch := enqueueBatch (Created example_native),
         uq_removeItem := removeItem (Created example_native), uq_clearQueue := clearQueue (Created example_native),
         uq_refresh := returnA ()\<rparr>"
  using refresh_without_native
    hooks_match_web [OF run_off_nothing run_off_nothing run_off_nothing refresh_without_native run_off_nothing
      run_off_nothing run_off_nothing, of "Created example_native" "returnA ()"] by blast

end
