(* ===== verification/Queue_Live.thy ===== *)
theory Queue_Live
  imports Queue_Hooks
begin

text \<open>
  \<open>useSyncQueue\<close> over the facade and a native module that changes while the hook is mounted. A read
  is the \<open>Promise.all\<close> of \<open>refresh\<close>: two facade calls that the native side answers at times of its
  own, and a promise that settles later still. Notifications wait in one queue for the listeners
  that were registered when they were sent. The state is the hook of \<open>Queue_Hooks\<close>, the process of
  \<open>Facade\<close>, the reads in flight, and the notifications under way.
\<close>

section \<open>Reads\<close>

record queue_read =
  read_run :: nat
  size_answer :: "(thrown + jsnum) option"
  items_answer :: "(thrown + sync_item list) option"
  rejected :: "thrown option"

definition new_read :: "nat \<Rightarrow> queue_read" where
  "new_read n = \<lparr>read_run = n, size_answer = None, items_answer = None, rejected = None\<rparr>"

text \<open>\<open>Promise.all\<close> keeps the first rejection.\<close>

definition note_error :: "thrown + 'a \<Rightarrow> queue_read \<Rightarrow> queue_read" where
  "note_error x r = (case x of Inl e \<Rightarrow> if rejected r = None then r\<lparr>rejected := Some e\<rparr> else r | Inr _ \<Rightarrow> r)"

definition all_of :: "queue_read \<Rightarrow> (thrown + jsnum \<times> sync_item list) option" where
  "all_of r =
     (case rejected r of
        Some e \<Rightarrow> Some (Inl e)
      | None \<Rightarrow>
          (case (size_answer r, items_answer r) of
             (Some (Inr nextSize), Some (Inr nextItems)) \<Rightarrow> Some (Inr (nextSize, nextItems))
           | _ \<Rightarrow> None))"

section \<open>State and steps\<close>

type_synonym queue_hook = "(bool, queue_vals, queue_await) hook_state"

record 'w live =
  live_hook :: queue_hook
  live_app :: "'w app"
  reads :: "queue_read list"
  listeners :: "nat list"
  subscribing :: "(nat \<times> (thrown + string)) list"
  notices :: "(nat \<times> sync_event) list"

text \<open>The module is available, so every run of the effect mounts with it.\<close>

datatype 'w live_event =
    LiveMount | LiveCleanup | LiveRefresh nat
  | AskSize nat "'w native created" | AskItems nat "'w native created" | SettleRead nat
  | Listen nat "'w native created" nat | SettleListen nat | Forget nat
  | Notify
  | LiveCall "'w native created" facade_call "sync_event list" | LiveChange 'w "sync_event list"

definition issued :: "queue_hook \<Rightarrow> queue_hook \<Rightarrow> queue_read list" where
  "issued h g = map (new_read \<circ> fst) (filter (\<lambda>(n, k). k = QueueRead) (drop (length (pending h)) (pending g)))"

text \<open>A step of the hook that can start reads.\<close>

definition hook_part :: "(bool, queue_reply, queue_act) hook_event \<Rightarrow> 'w live \<Rightarrow> 'w live option" where
  "hook_part e s =
     map_option (\<lambda>g. s\<lparr>live_hook := g, reads := reads s @ issued (live_hook s) g\<rparr>)
       (hook_handle useSyncQueue e (live_hook s))"

definition sent :: "sync_event list \<Rightarrow> 'w live \<Rightarrow> (nat \<times> sync_event) list" where
  "sent evs s = concat (map (\<lambda>ev. map (\<lambda>n. (n, ev)) (listeners s)) evs)"

fun live_handle :: "'w live_event \<Rightarrow> 'w live \<Rightarrow> 'w live option" where
  "live_handle LiveMount s = hook_part (Mount True) s"
| "live_handle LiveCleanup s = hook_part Cleanup s"
| "live_handle (LiveRefresh n) s = hook_part (Act n RefreshQueue) s"
| "live_handle (AskSize i outcome) s =
     (if i < length (reads s) \<and> size_answer (reads s ! i) = None then
        (let (x, a) = getQueueSize outcome (live_app s)
         in Some (s\<lparr>live_app := a, reads := (reads s)[i := note_error x ((reads s ! i)\<lparr>size_answer := Some x\<rparr>)]\<rparr>))
      else None)"
| "live_handle (AskItems i outcome) s =
     (if i < length (reads s) \<and> items_answer (reads s ! i) = None then
        (let (x, a) = getPendingItems outcome (live_app s)
         in Some (s\<lparr>live_app := a, reads := (reads s)[i := note_error x ((reads s ! i)\<lparr>items_answer := Some x\<rparr>)]\<rparr>))
      else None)"
| "live_handle (SettleRead i) s =
     (if i < length (reads s) then
        (case all_of (reads s ! i) of
           None \<Rightarrow> None
         | Some x \<Rightarrow>
             map_option (\<lambda>g. s\<lparr>live_hook := g, reads := take i (reads s) @ drop (Suc i) (reads s)\<rparr>)
               (hook_handle useSyncQueue (Reply (read_run (reads s ! i)) (QueueReadReply x)) (live_hook s)))
      else None)"
| "live_handle (Listen n outcome callback) s =
     (if (n, QueueSubscribe) \<in> set (pending (live_hook s)) \<and> n \<notin> fst ` set (subscribing s) then
        (let (x, a) = addSyncEventListener outcome callback (live_app s)
         in Some (s\<lparr>live_app := a, subscribing := subscribing s @ [(n, x)],
                    listeners := (case x of Inr _ \<Rightarrow> listeners s @ [n] | Inl _ \<Rightarrow> listeners s)\<rparr>))
      else None)"
| "live_handle (SettleListen i) s =
     (if i < length (subscribing s) then
        (let (n, x) = subscribing s ! i
         in map_option (\<lambda>g. s\<lparr>live_hook := g, subscribing := take i (subscribing s) @ drop (Suc i) (subscribing s)\<rparr>)
              (hook_handle useSyncQueue (SubscribeReply n x) (live_hook s)))
      else None)"
| "live_handle (Forget n) s =
     (if n < length (runs (live_hook s)) \<and> closed (runs (live_hook s) ! n)
      then Some (s\<lparr>listeners := removeAll n (listeners s)\<rparr>) else None)"
| "live_handle Notify s =
     (case notices s of [] \<Rightarrow> None | (n, ev) # ns \<Rightarrow> hook_part (Deliver n ev) (s\<lparr>notices := ns\<rparr>))"
| "live_handle (LiveCall outcome c evs) s =
     Some (s\<lparr>live_app := snd (run_facade outcome c (live_app s)), notices := notices s @ sent evs s\<rparr>)"
| "live_handle (LiveChange w evs) s =
     Some (s\<lparr>live_app := (live_app s)\<lparr>world := w\<rparr>, notices := notices s @ sent evs s\<rparr>)"

fun live_run :: "'w live_event list \<Rightarrow> 'w live \<Rightarrow> 'w live option" where
  "live_run [] s = Some s"
| "live_run (e # es) s = (case live_handle e s of None \<Rightarrow> None | Some t \<Rightarrow> live_run es t)"

inductive live_step :: "'w live \<Rightarrow> 'w live_event \<Rightarrow> 'w live \<Rightarrow> bool" where
  live_stepI: "live_handle e s = Some t \<Longrightarrow> live_step s e t"

inductive_cases live_stepE: "live_step s e t"

text \<open>Before the first render the module was probed and found, and nothing is in flight.\<close>

definition live_init :: "'w native \<Rightarrow> 'w live \<Rightarrow> bool" where
  "live_init n s \<longleftrightarrow>
     live_hook s = initial_hook initial_queue \<and> reads s = [] \<and> listeners s = [] \<and> subscribing s = [] \<and> notices s = [] \<and>
     resolved (probe (live_app s)) \<and> cachedHybrid (probe (live_app s)) = Created n \<and> probe_inv (probe (live_app s))"

section \<open>The module stays available\<close>

definition holds_native :: "'w native \<Rightarrow> 'w app \<Rightarrow> bool" where
  "holds_native n a \<longleftrightarrow> probe_inv (probe a) \<and> resolved (probe a) \<and> cachedHybrid (probe a) = Created n"

lemma holds_native_of:
  assumes "holds_native n a"
  shows "native_of outcome a = Some n" and "resolve outcome a = a" and "probe_inv (probe a)"
  using assms resolved_get [of "probe a" outcome]
  by (simp_all add: holds_native_def native_of_def resolve_def)

lemma holds_call:
  assumes "holds_native n a"
  shows "native_call outcome fallback f post a =
     (wrap_reply fallback (map_sum id post (fst (f n (world a)))), a\<lparr>world := snd (f n (world a))\<rparr>)"
  using native_call_run [OF holds_native_of(3) [OF assms], of outcome fallback f post] holds_native_of(1,2) [OF assms]
  by simp

lemma holds_world [simp]: "holds_native n (a\<lparr>world := w\<rparr>) = holds_native n a"
  by (simp add: holds_native_def)

lemma holds_facade:
  assumes "holds_native n a"
  shows "holds_native n (snd (run_facade outcome c a))"
  using assms unfolding facade.run_cases [OF holds_native_of(3) [OF assms]]
  by (simp add: holds_native_of [OF assms] split: sum.split)

lemma holds_step:
  assumes "live_handle e s = Some t" and h: "holds_native n (live_app s)"
  shows "holds_native n (live_app t)"
proof -
  have size: "holds_native n (snd (getQueueSize outcome (live_app s)))" for outcome
    using holds_facade [OF h, of outcome GetQueueSize] by (simp add: replyA_pair)
  have items: "holds_native n (snd (getPendingItems outcome (live_app s)))" for outcome
    using holds_facade [OF h, of outcome GetPendingItems] by (simp add: replyA_pair)
  have listen: "holds_native n (snd (addSyncEventListener outcome cb (live_app s)))" for outcome cb
    using holds_facade [OF h, of outcome "AddSyncEventListener cb"] by (simp add: replyA_pair)
  show ?thesis
    using assms size items listen holds_facade [OF h]
    by (cases e) (auto simp: hook_part_def case_prod_unfold Let_def simp del: hook_handle.simps run_facade.simps
        split: if_splits option.splits list.splits)
qed

section \<open>What the hook and the steps keep\<close>

text \<open>Every run of the effect saw the module.\<close>

definition live_inv :: "'w live \<Rightarrow> bool" where
  "live_inv s \<longleftrightarrow> hook_inv useSyncQueue (live_hook s) \<and> (\<forall>r \<in> set (runs (live_hook s)). run_props r)"

lemma props_step:
  assumes "hook_handle c e h = Some g" and "\<forall>r \<in> set (runs h). run_props r" and "\<forall>p. e = Mount p \<longrightarrow> p"
    and inv: "hook_inv c h"
  shows "\<forall>r \<in> set (runs g). run_props r"
  using assms(1)
proof (cases rule: hook_handle_cases)
  case (Mount p)
  with assms show ?thesis by auto
next
  case Cleanup
  with assms show ?thesis by (auto simp: mounted_def nth_mem dest!: subsetD [OF set_update_subset_insert])
next
  case (SubscribeReply n res)
  with assms pending_run [OF inv] show ?thesis
    by (cases res) (auto dest!: subsetD [OF set_update_subset_insert])
qed (use assms in simp_all)

text \<open>The event of the hook a step is, if it is one.\<close>

fun hook_event_of :: "'w live_event \<Rightarrow> 'w live \<Rightarrow> (bool, queue_reply, queue_act) hook_event option" where
  "hook_event_of LiveMount s = Some (Mount True)"
| "hook_event_of LiveCleanup s = Some Cleanup"
| "hook_event_of (LiveRefresh n) s = Some (Act n RefreshQueue)"
| "hook_event_of (SettleRead i) s =
     map_option (\<lambda>x. Reply (read_run (reads s ! i)) (QueueReadReply x)) (all_of (reads s ! i))"
| "hook_event_of (SettleListen i) s = Some (SubscribeReply (fst (subscribing s ! i)) (snd (subscribing s ! i)))"
| "hook_event_of Notify s = Some (Deliver (fst (hd (notices s))) (snd (hd (notices s))))"
| "hook_event_of _ s = None"

lemma hook_live_step:
  assumes "live_handle e s = Some t"
  shows "case hook_event_of e s of None \<Rightarrow> live_hook t = live_hook s
     | Some x \<Rightarrow> hook_handle useSyncQueue x (live_hook s) = Some (live_hook t)"
  using assms
  by (cases e) (auto simp: hook_part_def case_prod_unfold Let_def simp del: hook_handle.simps run_facade.simps
      split: if_splits option.splits list.splits)

lemma hook_event_mount: "hook_event_of e s = Some (Mount p) \<Longrightarrow> p"
  by (cases e) (auto split: option.splits)

lemma live_inv_step:
  assumes "live_handle e s = Some t" and "live_inv s"
  shows "live_inv t"
proof (cases "hook_event_of e s")
  case None
  with hook_live_step [OF assms(1)] assms(2) show ?thesis by (simp add: live_inv_def)
next
  case (Some x)
  with hook_live_step [OF assms(1)] have "hook_handle useSyncQueue x (live_hook s) = Some (live_hook t)" by simp
  with assms(2) hook_event_mount [of e s] Some show ?thesis
    by (auto simp: live_inv_def intro: hook_inv_handle dest: props_step)
qed

lemma live_inv_init: "live_init n s \<Longrightarrow> live_inv s \<and> holds_native n (live_app s)"
  by (simp add: live_init_def live_inv_def holds_native_def hook_inv_initial)

lemma live_reachable_inv:
  "reachable (live_init n) live_step s \<Longrightarrow> live_inv s \<and> holds_native n (live_app s)"
proof (induction rule: reachable.induct)
  case (reach_init s)
  then show ?case by (rule live_inv_init)
next
  case (reach_step s e t)
  then show ?case by (auto elim!: live_stepE intro: live_inv_step holds_step)
qed

section \<open>Convergence\<close>

text \<open>
  What the interface documents of the native side: reading the queue returns its size and its items
  and, like the registration of a listener, changes neither.
\<close>

definition reader :: "'w native \<Rightarrow> ('w \<Rightarrow> jsnum \<times> sync_item list) \<Rightarrow> bool" where
  "reader n view \<longleftrightarrow>
     (\<forall>w. \<exists>u. native_getQueueSize n w = (Inr (fst (view w)), u) \<and> view u = view w) \<and>
     (\<forall>w. \<exists>u. native_getPendingItems n w = (Inr (snd (view w)), u) \<and> view u = view w) \<and>
     (\<forall>w ch cb. view (snd (native_addListener n ch cb w)) = view w)"

definition refreshing :: "sync_event \<Rightarrow> bool" where
  "refreshing ev \<longleftrightarrow> ev_type ev \<in> set REFRESH_EVENTS"

definition queue_now :: "('w \<Rightarrow> jsnum \<times> sync_item list) \<Rightarrow> 'w live \<Rightarrow> jsnum \<times> sync_item list" where
  "queue_now view s = view (world (live_app s))"

definition showing :: "jsnum \<times> sync_item list \<Rightarrow> queue_vals" where
  "showing q = \<lparr>qv_size = fst q, qv_items = snd q, qv_isLoading = False, qv_error = None\<rparr>"

text \<open>
  A step the convergence allows: the hook stays mounted, promises settle in the order of their calls,
  and a change of the queue is announced to a listener by an event the hook refreshes on.
\<close>

definition announced :: "('w \<Rightarrow> jsnum \<times> sync_item list) \<Rightarrow> sync_event list \<Rightarrow> 'w live \<Rightarrow> 'w live \<Rightarrow> bool" where
  "announced view evs s t \<longleftrightarrow>
     (queue_now view t \<noteq> queue_now view s \<longrightarrow> listeners s \<noteq> [] \<and> (\<exists>ev \<in> set evs. refreshing ev))"

fun calm_step :: "('w \<Rightarrow> jsnum \<times> sync_item list) \<Rightarrow> 'w live_event \<Rightarrow> 'w live \<Rightarrow> 'w live \<Rightarrow> bool" where
  "calm_step view LiveMount s t = False"
| "calm_step view LiveCleanup s t = False"
| "calm_step view (SettleRead i) s t = (i = 0)"
| "calm_step view (LiveCall outcome c evs) s t = announced view evs s t"
| "calm_step view (LiveChange w evs) s t = announced view evs s t"
| "calm_step view _ s t = True"

fun calm :: "('w \<Rightarrow> jsnum \<times> sync_item list) \<Rightarrow> 'w live_event list \<Rightarrow> 'w live \<Rightarrow> bool" where
  "calm view [] s = True"
| "calm view (e # es) s =
     (case live_handle e s of None \<Rightarrow> True | Some t \<Rightarrow> calm_step view e s t \<and> calm view es t)"

lemma live_run_append: "live_run (es @ es') s = (case live_run es s of None \<Rightarrow> None | Some t \<Rightarrow> live_run es' t)"
  by (induction es arbitrary: s) (auto split: option.split)

lemma calm_append:
  "live_run es s = Some t \<Longrightarrow> calm view (es @ es') s = (calm view es s \<and> calm view es' t)"
  by (induction es arbitrary: s) (auto split: option.splits)

text \<open>
  What the hook will show is the queue: a refreshing notification is under way, or the last read
  has seen nothing but the present queue, or nothing is in flight and the hook shows it.
\<close>

definition good_read :: "jsnum \<times> sync_item list \<Rightarrow> queue_read \<Rightarrow> bool" where
  "good_read q r \<longleftrightarrow> rejected r = None \<and> size_answer r \<in> {None, Some (Inr (fst q))} \<and> items_answer r \<in> {None, Some (Inr (snd q))}"

definition covered :: "('w \<Rightarrow> jsnum \<times> sync_item list) \<Rightarrow> 'w live \<Rightarrow> bool" where
  "covered view s \<longleftrightarrow>
     (\<exists>(n, ev) \<in> set (notices s). refreshing ev) \<or>
     (if reads s = [] then vals (live_hook s) = showing (queue_now view s) else good_read (queue_now view s) (last (reads s)))"

lemma good_new [simp]: "good_read q (new_read n)"
  by (simp add: good_read_def new_read_def)

lemma reader_asks:
  assumes "reader n view" and "holds_native n a"
  shows "\<exists>u. getQueueSize outcome a = (Inr (fst (view (world a))), a\<lparr>world := u\<rparr>) \<and> view u = view (world a)"
    and "\<exists>u. getPendingItems outcome a = (Inr (snd (view (world a))), a\<lparr>world := u\<rparr>) \<and> view u = view (world a)"
    and "view (world (snd (addSyncEventListener outcome cb a))) = view (world a)"
proof -
  obtain u where "native_getQueueSize n (world a) = (Inr (fst (view (world a))), u)" "view u = view (world a)"
    using assms(1) unfolding reader_def by blast
  then show "\<exists>u. getQueueSize outcome a = (Inr (fst (view (world a))), a\<lparr>world := u\<rparr>) \<and> view u = view (world a)"
    unfolding getQueueSize_def holds_call [OF assms(2)] by (intro exI [of _ u]) (simp add: wrap_reply_def)
  obtain u where "native_getPendingItems n (world a) = (Inr (snd (view (world a))), u)" "view u = view (world a)"
    using assms(1) unfolding reader_def by blast
  then show "\<exists>u. getPendingItems outcome a = (Inr (snd (view (world a))), a\<lparr>world := u\<rparr>) \<and> view u = view (world a)"
    unfolding getPendingItems_def holds_call [OF assms(2)] by (intro exI [of _ u]) (simp add: wrap_reply_def)
  show "view (world (snd (addSyncEventListener outcome cb a))) = view (world a)"
    using assms(1) unfolding addSyncEventListener_def holds_call [OF assms(2)] by (simp add: reader_def)
qed

text \<open>What each event of the hook issues.\<close>

lemma refresh_issues:
  assumes "hook_handle useSyncQueue (Act n RefreshQueue) h = Some g" and "\<forall>r \<in> set (runs h). run_props r"
  shows "issued h g = [new_read n]"
  using assms by (auto simp: issued_def queue_simps split: if_splits)

lemma deliver_issues:
  assumes "hook_handle useSyncQueue (Deliver n ev) h = Some g" and "\<forall>r \<in> set (runs h). run_props r"
    and "hook_inv useSyncQueue h"
  shows "issued h g = (if refreshing ev then [new_read n] else [])"
    and "\<not> refreshing ev \<Longrightarrow> vals g = vals h"
proof -
  have "n < length (runs h)" using assms(1,3) by (force simp: hook_inv_def split: if_splits)
  then have "run_props (runs h ! n)" using assms(2) by simp
  then show "issued h g = (if refreshing ev then [new_read n] else [])" "\<not> refreshing ev \<Longrightarrow> vals g = vals h"
    using assms(1) by (auto simp: issued_def refreshing_def queue_simps split: if_splits)
qed

lemma mount_issues:
  "hook_handle useSyncQueue (Mount True) h = Some g \<Longrightarrow> issued h g = [new_read (length (runs h))]"
  by (auto simp: issued_def queue_simps split: if_splits)

lemma settle_vals:
  assumes "hook_handle useSyncQueue (Reply n (QueueReadReply (Inr q))) h = Some g" and "mounted h" and "hook_inv useSyncQueue h"
  shows "vals g = showing q"
proof -
  have "\<not> is_cancelled useSyncQueue h n" using assms(2,3) by (simp add: hook_inv_def is_cancelled_def useSyncQueue_def)
  then show ?thesis
    using assms(1) by (cases q) (auto simp: useSyncQueue_def showing_def Let_def split: if_splits)
qed

lemma good_read_settles: "good_read q r \<Longrightarrow> all_of r = Some x \<Longrightarrow> x = Inr q"
  by (auto simp: good_read_def all_of_def split: option.splits sum.splits)

text \<open>An answer of the native side never spoils a read, and a new read can only be right.\<close>

lemma covered_asked:
  assumes "covered view s" and "t = s\<lparr>live_app := a, reads := (reads s)[i := f (reads s ! i)]\<rparr>" and "i < length (reads s)"
    and "view (world a) = queue_now view s" and "good_read (queue_now view s) (reads s ! i) \<Longrightarrow> good_read (queue_now view s) (f (reads s ! i))"
  shows "covered view t"
proof -
  have q: "queue_now view t = queue_now view s" using assms(2,4) by (simp add: queue_now_def)
  have "reads s \<noteq> []" using assms(3) by auto
  then have "last (reads t) = last (reads s) \<or> last (reads t) = f (last (reads s)) \<and> reads s ! i = last (reads s)"
    using assms(2,3) by (cases "i = length (reads s) - 1") (simp_all add: last_conv_nth)
  moreover have "reads t \<noteq> []" "notices t = notices s" using \<open>reads s \<noteq> []\<close> assms(2) by auto
  ultimately show ?thesis
    using assms(1,5) \<open>reads s \<noteq> []\<close> unfolding covered_def q by (elim disjE conjE) simp_all
qed

lemma covered_issue: "reads t = rs @ [new_read n] \<Longrightarrow> covered view t"
  by (simp add: covered_def)

lemma covered_same:
  assumes "covered view s" and "reads t = reads s" and "set (notices s) \<subseteq> set (notices t)"
    and "vals (live_hook t) = vals (live_hook s)" and "queue_now view t = queue_now view s"
  shows "covered view t"
  using assms unfolding covered_def by auto

lemma sent_refresh:
  assumes "ev \<in> set evs" and "refreshing ev" and "listeners s \<noteq> []"
  shows "\<exists>(n, ev) \<in> set (sent evs s). refreshing ev"
proof -
  have "(hd (listeners s), ev) \<in> set (sent evs s)" using assms(1,3) by (force simp: sent_def)
  with assms(2) show ?thesis by blast
qed

lemma covered_change:
  assumes "covered view s" and "t = s\<lparr>live_app := a, notices := notices s @ sent evs s\<rparr>" and "announced view evs s t"
  shows "covered view t"
proof (cases "queue_now view t = queue_now view s")
  case True
  then show ?thesis using assms(2) by (intro covered_same [OF assms(1)]) auto
next
  case False
  then obtain ev where "ev \<in> set evs" "refreshing ev" "listeners s \<noteq> []"
    using assms(3) by (auto simp: announced_def)
  with sent_refresh have "\<exists>(n, ev) \<in> set (sent evs s). refreshing ev" by blast
  then show ?thesis using assms(2) by (auto simp: covered_def)
qed

lemma covered_settle:
  assumes "covered view s" and inv: "live_inv s" and m: "mounted (live_hook s)"
    and step: "live_handle (SettleRead 0) s = Some t"
  shows "covered view t"
proof -
  obtain x g where r: "reads s \<noteq> []" and x: "all_of (reads s ! 0) = Some x"
    and g: "hook_handle useSyncQueue (Reply (read_run (reads s ! 0)) (QueueReadReply x)) (live_hook s) = Some g"
    and t: "t = s\<lparr>live_hook := g, reads := drop 1 (reads s)\<rparr>"
    using step by (auto simp del: hook_handle.simps split: if_splits option.splits)
  have q: "queue_now view t = queue_now view s" using t by (simp add: queue_now_def)
  show ?thesis
  proof (cases "\<exists>(n, ev) \<in> set (notices s). refreshing ev")
    case True
    then show ?thesis using t by (simp add: covered_def)
  next
    case False
    then have good: "good_read (queue_now view s) (last (reads s))" using assms(1) r by (simp add: covered_def)
    show ?thesis
    proof (cases "length (reads s) = 1")
      case True
      then have "last (reads s) = reads s ! 0" by (cases "reads s") auto
      then have "x = Inr (queue_now view s)" using good_read_settles [OF good] x by simp
      then have "vals g = showing (queue_now view s)"
        using settle_vals [of _ "queue_now view s" "live_hook s" g] g m inv by (simp add: live_inv_def)
      then show ?thesis using True t q by (simp add: covered_def)
    next
      case False
      then have "drop 1 (reads s) \<noteq> []" "last (drop 1 (reads s)) = last (reads s)"
        using r by (cases "reads s"; cases "tl (reads s)"; simp)+
      then show ?thesis using good t q by (simp add: covered_def)
    qed
  qed
qed

lemma covered_step:
  assumes cov: "covered view s" and inv: "live_inv s" and m: "mounted (live_hook s)" and h: "holds_native n (live_app s)"
    and rd: "reader n view" and calm: "calm_step view e s t" and step: "live_handle e s = Some t"
  shows "covered view t"
proof (cases e)
  case (LiveRefresh i)
  then obtain g where "hook_handle useSyncQueue (Act i RefreshQueue) (live_hook s) = Some g"
      "t = s\<lparr>live_hook := g, reads := reads s @ issued (live_hook s) g\<rparr>"
    using step by (auto simp: hook_part_def simp del: hook_handle.simps)
  then show ?thesis using refresh_issues [of i "live_hook s" g] inv by (intro covered_issue) (simp add: live_inv_def)
next
  case (AskSize i outcome)
  with reader_asks(1) [OF rd h, of outcome] step show ?thesis
    by (auto simp: queue_now_def good_read_def note_error_def split: if_splits intro!: covered_asked [OF cov])
next
  case (AskItems i outcome)
  with reader_asks(2) [OF rd h, of outcome] step show ?thesis
    by (auto simp: queue_now_def good_read_def note_error_def split: if_splits intro!: covered_asked [OF cov])
next
  case (SettleRead i)
  then show ?thesis using covered_settle [OF cov inv m] calm step by simp
next
  case (Listen i outcome cb)
  with reader_asks(3) [OF rd h, of outcome cb] step show ?thesis
    by (intro covered_same [OF cov]) (auto simp: queue_now_def case_prod_unfold Let_def split: if_splits)
next
  case (SettleListen i)
  with step show ?thesis
    by (intro covered_same [OF cov]) (auto simp: queue_now_def case_prod_unfold Let_def split: if_splits)
next
  case (Forget i)
  with step show ?thesis by (intro covered_same [OF cov]) (auto simp: queue_now_def split: if_splits)
next
  case Notify
  then obtain i ev ns g where n: "notices s = (i, ev) # ns"
    and g: "hook_handle useSyncQueue (Deliver i ev) (live_hook s) = Some g"
    and t: "t = s\<lparr>notices := ns, live_hook := g, reads := reads s @ issued (live_hook s) g\<rparr>"
    using step by (auto simp: hook_part_def simp del: hook_handle.simps split: list.splits)
  note d = deliver_issues [OF g] 
  show ?thesis
  proof (cases "refreshing ev")
    case True
    then show ?thesis using d inv t by (intro covered_issue) (simp add: live_inv_def)
  next
    case False
    then show ?thesis using d inv t n cov by (auto simp: covered_def queue_now_def live_inv_def)
  qed
next
  case (LiveCall outcome c evs)
  then show ?thesis using step calm by (intro covered_change [OF cov]) (auto simp del: run_facade.simps)
next
  case (LiveChange w evs)
  then show ?thesis using step calm by (intro covered_change [OF cov]) auto
qed (use calm in simp_all)

lemma calm_mounted:
  assumes "calm_step view e s t" and "live_handle e s = Some t" and "mounted (live_hook s)" and "live_inv s"
  shows "mounted (live_hook t)"
proof (cases "hook_event_of e s")
  case None
  with hook_live_step [OF assms(2)] assms(3) show ?thesis by simp
next
  case (Some x)
  with hook_live_step [OF assms(2)] have x: "hook_handle useSyncQueue x (live_hook s) = Some (live_hook t)" by simp
  have other: "x \<noteq> Cleanup" "\<And>p. x \<noteq> Mount p" using Some assms(1) by (cases e; auto)+
  show ?thesis using x
  proof (cases rule: hook_handle_cases)
    case (SubscribeReply n res)
    then have "n < length (runs (live_hook s))"
      using pending_run [of useSyncQueue "live_hook s"] assms(4) by (auto simp: live_inv_def)
    then show ?thesis using SubscribeReply(3) assms(3) by simp
  qed (use other assms(3) in \<open>simp_all add: mounted_def\<close>)
qed

lemma calm_run_covered:
  "live_run es s = Some t \<Longrightarrow> calm view es s \<Longrightarrow> covered view s \<Longrightarrow> live_inv s \<Longrightarrow> mounted (live_hook s) \<Longrightarrow>
     holds_native n (live_app s) \<Longrightarrow> reader n view \<Longrightarrow> covered view t"
proof (induction es arbitrary: s)
  case (Cons e es)
  then obtain u where u: "live_handle e s = Some u" "live_run es u = Some t" by (auto split: option.splits)
  then have c: "calm_step view e s u" "calm view es u" using Cons.prems(2) by simp_all
  show ?case
    by (rule Cons.IH [OF u(2) c(2) covered_step [OF Cons.prems(3,4,5,6,7) c(1) u(1)] live_inv_step [OF u(1) Cons.prems(4)]
          calm_mounted [OF c(1) u(1) Cons.prems(5,4)] holds_step [OF u(1) Cons.prems(6)] Cons.prems(7)])
qed simp

section \<open>The parts fit\<close>

text \<open>
  Each read belongs to a wait of the hook, each subscription under way too, and every listener and
  every notification to a run the hook would hear.
\<close>

definition heard :: "'w live \<Rightarrow> nat set" where
  "heard s = {n. \<exists>i. (n, Inr i) \<in> set (subscribing s)} \<union> snd ` set (registered (live_hook s))"

definition read_ok :: "queue_read \<Rightarrow> bool" where
  "read_ok r \<longleftrightarrow>
     (\<forall>e. size_answer r = Some (Inl e) \<or> items_answer r = Some (Inl e) \<longrightarrow> rejected r \<noteq> None)"

definition live_links :: "'w live \<Rightarrow> bool" where
  "live_links s \<longleftrightarrow>
     (\<forall>n. count_list (map read_run (reads s)) n = count_list (pending (live_hook s)) (n, QueueRead)) \<and>
     (\<forall>r \<in> set (reads s). read_ok r) \<and>
     distinct (map fst (subscribing s)) \<and>
     (\<forall>n \<in> fst ` set (subscribing s). (n, QueueSubscribe) \<in> set (pending (live_hook s))) \<and>
     set (listeners s) \<union> fst ` set (notices s) \<subseteq> heard s"

lemma heard_updates [simp]:
  "heard (s\<lparr>live_app := a\<rparr>) = heard s" "heard (s\<lparr>reads := rs\<rparr>) = heard s"
  "heard (s\<lparr>listeners := ns\<rparr>) = heard s" "heard (s\<lparr>notices := evs\<rparr>) = heard s"
  by (simp_all add: heard_def)

lemma hook_part_pending:
  assumes "hook_handle useSyncQueue x h = Some g" and "x = Mount True \<or> x = Cleanup \<or> x = Act n RefreshQueue \<or> x = Deliver n ev"
  shows "\<exists>ks. pending g = pending h @ ks" and "registered g = registered h"
  using assms by (auto simp: queue_simps split: if_splits)

lemma count_waits:
  "count_list (map fst (filter (\<lambda>(n, k). k = QueueRead) ks)) m = count_list ks (m, QueueRead)"
  by (induction ks) auto

lemma hook_part_links:
  assumes links: "live_links s" and step: "hook_part x s = Some t"
    and x: "x = Mount True \<or> x = Cleanup \<or> x = Act n RefreshQueue \<or> x = Deliver n ev"
  shows "live_links t"
proof -
  obtain g where g: "hook_handle useSyncQueue x (live_hook s) = Some g"
    and t: "t = s\<lparr>live_hook := g, reads := reads s @ issued (live_hook s) g\<rparr>"
    using step by (auto simp: hook_part_def simp del: hook_handle.simps)
  obtain ks where ks: "pending g = pending (live_hook s) @ ks" using hook_part_pending(1) [OF g x] by blast
  have "map read_run (issued (live_hook s) g) = map fst (filter (\<lambda>(n, k). k = QueueRead) ks)"
    by (simp add: issued_def ks new_read_def comp_def)
  then have "count_list (map read_run (reads t)) m = count_list (pending (live_hook t)) (m, QueueRead)" for m
    using links t ks by (simp add: live_links_def count_waits)
  moreover have "\<forall>r \<in> set (issued (live_hook s) g). read_ok r"
    by (auto simp: issued_def new_read_def read_ok_def)
  moreover have "heard t = heard s" using t hook_part_pending(2) [OF g x] by (simp add: heard_def)
  ultimately show ?thesis using links t ks by (auto simp: live_links_def)
qed

lemma links_asked:
  assumes "live_links s" and "read_run r = read_run (reads s ! i)" and "i < length (reads s)"
    and "read_ok (reads s ! i) \<Longrightarrow> read_ok r"
  shows "live_links (s\<lparr>live_app := a, reads := (reads s)[i := r]\<rparr>)"
proof -
  have "map read_run ((reads s)[i := r]) = map read_run (reads s)"
    using assms(2,3) by (metis list_update_id map_update)
  moreover have "read_ok r" using assms(1,3,4) by (simp add: live_links_def)
  ultimately show ?thesis using assms(1) by (auto simp: live_links_def heard_def dest!: subsetD [OF set_update_subset_insert])
qed

lemma note_error_keeps [simp]:
  "read_run (note_error x r) = read_run r" "size_answer (note_error x r) = size_answer r"
  "items_answer (note_error x r) = items_answer r"
  by (simp_all add: note_error_def split: sum.split)

lemma links_settle:
  assumes links: "live_links s" and i: "i < length (reads s)"
    and g: "hook_handle useSyncQueue (Reply (read_run (reads s ! i)) (QueueReadReply x)) (live_hook s) = Some g"
  shows "live_links (s\<lparr>live_hook := g, reads := take i (reads s) @ drop (Suc i) (reads s)\<rparr>)"
proof -
  let ?n = "read_run (reads s ! i)"
  have p: "(?n, QueueRead) \<in> set (pending (live_hook s))" "pending g = remove1 (?n, QueueRead) (pending (live_hook s))"
      "registered g = registered (live_hook s)"
    using g by (auto simp: useSyncQueue_def queue_reply_quiet Let_def split: if_splits)
  have "count_list (map read_run (take i (reads s) @ drop (Suc i) (reads s))) m = count_list (pending g) (m, QueueRead)" for m
  proof -
    have "count_list (map read_run (reads s)) m =
        (if m = ?n then 1 else 0) + count_list (map read_run (take i (reads s) @ drop (Suc i) (reads s))) m"
      using arg_cong [OF id_take_nth_drop [OF i], of "\<lambda>rs. count_list (map read_run rs) m"] by (simp del: append_take_drop_id)
    moreover have "count_list (map read_run (reads s)) m = count_list (pending (live_hook s)) (m, QueueRead)"
      using links by (simp add: live_links_def)
    ultimately show ?thesis
      using count_list_taken [OF p(1)] unfolding p(2) by (cases "m = ?n") (simp_all add: count_list_remove1)
  qed
  moreover have "(n, QueueSubscribe) \<in> set (pending g)" if "(n, QueueSubscribe) \<in> set (pending (live_hook s))" for n
    using that p(2) by (simp add: in_set_remove1)
  ultimately show ?thesis using links p(3) by (auto simp: live_links_def heard_def dest: in_set_takeD in_set_dropD)
qed

lemma note_error_ok:
  "read_ok r \<Longrightarrow> read_ok (note_error x (r\<lparr>size_answer := Some x\<rparr>))"
  "read_ok r \<Longrightarrow> read_ok (note_error y (r\<lparr>items_answer := Some y\<rparr>))"
  by (auto simp: read_ok_def note_error_def split: sum.splits)

lemma sent_listeners: "fst ` set (sent evs s) \<subseteq> set (listeners s)"
  by (auto simp: sent_def)

lemma links_settle_listen:
  assumes links: "live_links s" and i: "i < length (subscribing s)" and nx: "subscribing s ! i = (n, x)"
    and g: "hook_handle useSyncQueue (SubscribeReply n x) (live_hook s) = Some g"
  shows "live_links (s\<lparr>live_hook := g, subscribing := take i (subscribing s) @ drop (Suc i) (subscribing s)\<rparr>)" (is "live_links ?t")
proof -
  have g': "g = subscribe_reply useSyncQueue n x (live_hook s)" using g by (simp split: if_splits)
  have p: "pending g = remove1 (n, QueueSubscribe) (pending (live_hook s))"
    unfolding g' by (simp add: useSyncQueue_def)
  have reg: "snd ` set (registered g) = snd ` set (registered (live_hook s)) \<union> (case x of Inl _ \<Rightarrow> {} | Inr _ \<Rightarrow> {n})"
    unfolding g' by (cases x) auto
  have split: "subscribing s = take i (subscribing s) @ (n, x) # drop (Suc i) (subscribing s)"
    using id_take_nth_drop [OF i] nx by simp
  then have d: "distinct (map fst (take i (subscribing s) @ (n, x) # drop (Suc i) (subscribing s)))"
    using links unfolding live_links_def by metis
  then have others: "m \<noteq> n" if "m \<in> fst ` set (take i (subscribing s) @ drop (Suc i) (subscribing s))" for m
    using that by (auto simp del: append_take_drop_id)
  have sets: "set (subscribing s) = insert (n, x) (set (take i (subscribing s) @ drop (Suc i) (subscribing s)))"
    using arg_cong [OF split, of set] by (simp del: append_take_drop_id)
  have "heard s \<subseteq> heard ?t"
    using reg unfolding heard_def sets by (cases x) auto
  moreover have "(m, QueueSubscribe) \<in> set (pending g)" if "m \<in> fst ` set (take i (subscribing s) @ drop (Suc i) (subscribing s))" for m
  proof -
    have "(m, QueueSubscribe) \<in> set (pending (live_hook s))"
      using links that unfolding live_links_def sets by auto
    then show ?thesis using others [OF that] p by (simp add: in_set_remove1)
  qed
  moreover have "distinct (map fst (take i (subscribing s) @ drop (Suc i) (subscribing s)))"
    using d by (simp del: append_take_drop_id)
  ultimately show ?thesis
    using links p by (auto simp: live_links_def count_list_remove1 simp del: append_take_drop_id)
qed

lemma links_listen:
  assumes "live_links s" and "(n, QueueSubscribe) \<in> set (pending (live_hook s))" and "n \<notin> fst ` set (subscribing s)"
  shows "live_links (s\<lparr>live_app := a, subscribing := subscribing s @ [(n, x)],
      listeners := (case x of Inr _ \<Rightarrow> listeners s @ [n] | Inl _ \<Rightarrow> listeners s)\<rparr>)" (is "live_links ?t")
proof -
  have h: "heard ?t = heard s \<union> (case x of Inr _ \<Rightarrow> {n} | Inl _ \<Rightarrow> {})"
    by (cases x) (auto simp: heard_def)
  then show ?thesis using assms unfolding live_links_def h by (cases x) auto
qed

lemma links_forget:
  assumes "live_links s" and "set ns \<subseteq> set (listeners s)"
  shows "live_links (s\<lparr>listeners := ns\<rparr>)"
proof -
  have "set ns \<subseteq> heard s" using assms by (auto simp: live_links_def)
  then show ?thesis using assms(1) by (simp add: live_links_def)
qed

lemma links_sent:
  assumes "live_links s"
  shows "live_links (s\<lparr>live_app := a, notices := notices s @ sent evs s\<rparr>)"
proof -
  have "fst ` set (sent evs s) \<subseteq> heard s" using assms sent_listeners [of evs s] by (auto simp: live_links_def)
  then show ?thesis using assms by (simp add: live_links_def image_Un)
qed

lemma links_step:
  assumes step: "live_handle e s = Some t" and links: "live_links s"
  shows "live_links t"
proof (cases e)
  case (AskSize i outcome)
  then show ?thesis using step links
    by (auto simp: case_prod_unfold Let_def note_error_ok split: if_splits intro!: links_asked [OF links])
next
  case (AskItems i outcome)
  then show ?thesis using step links
    by (auto simp: case_prod_unfold Let_def note_error_ok split: if_splits intro!: links_asked [OF links])
next
  case (SettleRead i)
  then show ?thesis using step links_settle [OF links]
    by (auto simp del: hook_handle.simps append_take_drop_id split: if_splits option.splits)
next
  case (Listen i outcome cb)
  then show ?thesis using step links
    by (auto simp: case_prod_unfold Let_def split: if_splits intro!: links_listen [OF links])
next
  case (SettleListen i)
  then show ?thesis using step links_settle_listen [OF links, of i "fst (subscribing s ! i)" "snd (subscribing s ! i)"]
    by (auto simp: case_prod_unfold Let_def simp del: hook_handle.simps append_take_drop_id split: if_splits)
next
  case (Forget n)
  then show ?thesis using step links_forget [OF links, of "removeAll n (listeners s)"] by (auto split: if_splits)
next
  case Notify
  then obtain n ev ns where "notices s = (n, ev) # ns" "hook_part (Deliver n ev) (s\<lparr>notices := ns\<rparr>) = Some t"
    using step by (auto split: list.splits)
  moreover from this have "live_links (s\<lparr>notices := ns\<rparr>)" using links by (simp add: live_links_def heard_def)
  ultimately show ?thesis using hook_part_links by blast
next
  case (LiveCall outcome c evs)
  then show ?thesis using step links_sent [OF links] by (auto simp del: run_facade.simps)
next
  case (LiveChange w evs)
  then show ?thesis using step links_sent [OF links] by auto
qed (use step hook_part_links [OF links] in \<open>auto simp del: hook_handle.simps\<close>)

lemma live_reachable_links: "reachable (live_init n) live_step s \<Longrightarrow> live_links s"
proof (induction rule: reachable.induct)
  case (reach_init s)
  then show ?case by (simp add: live_init_def live_links_def heard_def)
next
  case (reach_step s e t)
  then show ?case by (auto elim!: live_stepE intro: links_step)
qed

section \<open>Settling\<close>

text \<open>With the native side at rest, answering and settling what is in flight comes to an end.\<close>

definition todo :: "queue_read \<Rightarrow> nat" where
  "todo r = Suc ((if size_answer r = None then 1 else 0) + (if items_answer r = None then 1 else 0))"

definition work :: "'w live \<Rightarrow> nat" where
  "work s = 4 * length (notices s) + sum_list (map todo (reads s))"

fun at_rest :: "'w live_event \<Rightarrow> bool" where
  "at_rest (AskSize i outcome) = True"
| "at_rest (AskItems i outcome) = True"
| "at_rest (SettleRead i) = (i = 0)"
| "at_rest Notify = True"
| "at_rest _ = False"

lemma todo_note [simp]: "todo (note_error x r) = todo r"
  by (simp add: todo_def)

lemma read_settles:
  assumes links: "live_links s" and r: "reads s = r # rs" and answered: "size_answer r \<noteq> None" "items_answer r \<noteq> None"
  shows "\<exists>t. live_handle (SettleRead 0) s = Some t \<and> work t < work s"
proof -
  have "read_ok r" using links r by (simp add: live_links_def)
  moreover obtain y z where "size_answer r = Some y" "items_answer r = Some z" using answered by blast
  ultimately obtain x where x: "all_of r = Some x"
    by (cases "rejected r"; cases y; cases z) (auto simp: all_of_def read_ok_def)
  have "count_list (map read_run (reads s)) (read_run r) = count_list (pending (live_hook s)) (read_run r, QueueRead)"
    using links by (simp add: live_links_def)
  then have "count_list (pending (live_hook s)) (read_run r, QueueRead) \<noteq> 0" using r by simp
  then have "(read_run r, QueueRead) \<in> set (pending (live_hook s))" by (simp add: count_list_0_iff)
  then obtain g where "hook_handle useSyncQueue (Reply (read_run r) (QueueReadReply x)) (live_hook s) = Some g"
    by (simp add: useSyncQueue_def)
  then have "live_handle (SettleRead 0) s = Some (s\<lparr>live_hook := g, reads := rs\<rparr>)"
    using r x by (simp del: hook_handle.simps)
  then show ?thesis using r by (simp add: work_def todo_def)
qed

lemma notice_delivers:
  assumes links: "live_links s" and inv: "live_inv s" and n: "notices s = (n, ev) # ns"
  shows "\<exists>t. live_handle Notify s = Some t \<and> work t < work s"
proof -
  have "n \<in> heard s" using links n by (simp add: live_links_def)
  then have "(n, QueueSubscribe) \<in> set (pending (live_hook s)) \<or> n \<in> snd ` set (registered (live_hook s))"
    using links by (force simp: heard_def live_links_def)
  then obtain g where g: "hook_handle useSyncQueue (Deliver n ev) (live_hook s) = Some g"
    by (auto simp: useSyncQueue_def)
  have "length (issued (live_hook s) g) \<le> 1" "\<forall>r \<in> set (issued (live_hook s) g). todo r = 3"
    using deliver_issues(1) [OF g] inv by (auto simp: live_inv_def new_read_def todo_def)
  then have "sum_list (map todo (issued (live_hook s) g)) \<le> 3"
    by (cases "issued (live_hook s) g") auto
  then show ?thesis using g n by (simp add: hook_part_def work_def del: hook_handle.simps)
qed

lemma work_step:
  assumes links: "live_links s" and inv: "live_inv s" and busy: "notices s \<noteq> [] \<or> reads s \<noteq> []"
  shows "\<exists>e t. at_rest e \<and> live_handle e s = Some t \<and> work t < work s"
proof (cases "reads s")
  case Nil
  then obtain n ev ns where "notices s = (n, ev) # ns" using busy by (cases "notices s") auto
  from notice_delivers [OF links inv this] show ?thesis by (meson at_rest.simps(4))
next
  case (Cons r rs)
  consider "size_answer r = None" | "items_answer r = None" | "size_answer r \<noteq> None" "items_answer r \<noteq> None" by blast
  then show ?thesis
  proof cases
    case 1
    then show ?thesis
      by (intro exI [of _ "AskSize 0 Null"] exI conjI)
        (auto simp: case_prod_unfold Let_def Cons todo_def work_def)
  next
    case 2
    then show ?thesis
      by (intro exI [of _ "AskItems 0 Null"] exI conjI)
        (auto simp: case_prod_unfold Let_def Cons todo_def work_def)
  next
    case 3
    from read_settles [OF links Cons 3] show ?thesis by (meson at_rest.simps(3))
  qed
qed

lemma rest_calm: "at_rest e \<Longrightarrow> calm_step view e s t"
  by (cases e) simp_all

lemma rest_queue:
  assumes "at_rest e" and "live_handle e s = Some t" and "reader n view" and "holds_native n (live_app s)"
  shows "queue_now view t = queue_now view s"
proof (cases e)
  case (AskSize i outcome)
  with reader_asks(1) [OF assms(3,4), of outcome] assms(2) show ?thesis by (auto simp: queue_now_def split: if_splits)
next
  case (AskItems i outcome)
  with reader_asks(2) [OF assms(3,4), of outcome] assms(2) show ?thesis by (auto simp: queue_now_def split: if_splits)
next
  case (SettleRead i)
  with assms(2) show ?thesis by (auto simp: queue_now_def simp del: hook_handle.simps split: if_splits option.splits)
next
  case Notify
  with assms(2) show ?thesis by (auto simp: queue_now_def hook_part_def simp del: hook_handle.simps split: list.splits)
qed (use assms(1) in simp_all)

lemma settles:
  assumes "reader n view"
  shows "live_links s \<Longrightarrow> live_inv s \<Longrightarrow> holds_native n (live_app s) \<Longrightarrow>
    \<exists>es t. live_run es s = Some t \<and> (\<forall>e \<in> set es. at_rest e) \<and> calm view es s \<and> notices t = [] \<and> reads t = [] \<and>
      queue_now view t = queue_now view s"
proof (induction "work s" arbitrary: s rule: less_induct)
  case less
  show ?case
  proof (cases "notices s = [] \<and> reads s = []")
    case True
    then show ?thesis by (intro exI [of _ "[]"]) simp
  next
    case False
    then obtain e u where e: "at_rest e" "live_handle e s = Some u" "work u < work s"
      using work_step [OF less.prems(1,2)] by blast
    obtain es t where es: "live_run es u = Some t" "\<forall>e \<in> set es. at_rest e" "calm view es u" "notices t = []" "reads t = []"
        "queue_now view t = queue_now view u"
      using less.hyps [OF e(3) links_step [OF e(2) less.prems(1)] live_inv_step [OF e(2) less.prems(2)] holds_step [OF e(2) less.prems(3)]]
      by blast
    then show ?thesis
      using e rest_calm rest_queue [OF e(1,2) assms less.prems(3)] by (intro exI [of _ "e # es"]) simp
  qed
qed

lemma mount_covers:
  assumes "live_handle LiveMount s = Some u"
  shows "covered view u" and "mounted (live_hook u)"
proof -
  obtain g where g: "hook_handle useSyncQueue (Mount True) (live_hook s) = Some g"
      "u = s\<lparr>live_hook := g, reads := reads s @ issued (live_hook s) g\<rparr>"
    using assms by (auto simp: hook_part_def simp del: hook_handle.simps)
  then show "covered view u" by (intro covered_issue) (simp add: mount_issues)
  show "mounted (live_hook u)"
    using g by (auto simp: mounted_def queue_simps split: if_splits)
qed

lemma live_run_keeps:
  "live_run es s = Some t \<Longrightarrow> live_links s \<and> live_inv s \<and> holds_native n (live_app s) \<Longrightarrow>
     live_links t \<and> live_inv t \<and> holds_native n (live_app t)"
  by (induction es arbitrary: s) (auto split: option.splits dest: links_step live_inv_step holds_step)

section \<open>Concrete runs\<close>

text \<open>A native module whose world is the size of the queue.\<close>

definition sized_native :: "nat native" where
  "sized_native = example_native
     \<lparr>native_getQueueSize := (\<lambda>w. (Inr (num (int w)), w)), native_getPendingItems := (\<lambda>w. (Inr [], w)),
      native_addListener := (\<lambda>_ _ w. (Inr ''sub'', w))\<rparr>"

definition sized_view :: "nat \<Rightarrow> jsnum \<times> sync_item list" where
  "sized_view w = (num (int w), [])"

definition sized_app :: "nat \<Rightarrow> nat app" where
  "sized_app w =
     \<lparr>probe = \<lparr>cachedHybrid = Created sized_native, resolved = True, available = True, constructed = 1\<rparr>, world = w\<rparr>"

definition sized_live :: "nat live" where
  "sized_live =
     \<lparr>live_hook = initial_hook initial_queue, live_app = sized_app 0, reads = [], listeners = [], subscribing = [], notices = []\<rparr>"

lemma sized_reader: "reader sized_native sized_view"
  by (simp add: reader_def sized_native_def sized_view_def)

lemma sized_init: "live_init sized_native sized_live"
  by (simp add: live_init_def sized_live_def sized_app_def probe_inv_def)

lemma sized_calls:
  "getQueueSize outcome (sized_app w) = (Inr (num (int w)), sized_app w)"
  "getPendingItems outcome (sized_app w) = (Inr [], sized_app w)"
  "addSyncEventListener outcome cb (sized_app w) = (Inr ''sub'', sized_app w)"
  "(sized_app w)\<lparr>world := u\<rparr> = sized_app u" "world (sized_app w) = w"
proof -
  have h: "holds_native sized_native (sized_app w)"
    by (simp add: holds_native_def sized_app_def probe_inv_def)
  show "getQueueSize outcome (sized_app w) = (Inr (num (int w)), sized_app w)"
    unfolding getQueueSize_def holds_call [OF h] by (simp add: sized_native_def sized_app_def wrap_reply_def)
  show "getPendingItems outcome (sized_app w) = (Inr [], sized_app w)"
    unfolding getPendingItems_def holds_call [OF h] by (simp add: sized_native_def sized_app_def wrap_reply_def)
  show "addSyncEventListener outcome cb (sized_app w) = (Inr ''sub'', sized_app w)"
    unfolding addSyncEventListener_def holds_call [OF h] by (simp add: sized_native_def sized_app_def wrap_reply_def)
qed (simp_all add: sized_app_def)

lemmas live_run_simps =
  queue_simps hook_run_simps hook_part_def issued_def new_read_def note_error_def all_of_def sent_def
  sized_live_def sized_calls initial_queue_def REFRESH_EVENTS_def event_at_def

text \<open>The read answers, an item arrives before the listener is registered, and nothing is in flight:
  the hook shows the old size until the next event.\<close>

lemma queue_missed_change:
  "\<exists>t. live_run [LiveMount, AskSize 0 Null, AskItems 0 Null, SettleRead 0,
       LiveChange 1 [event_at ITEM_ENQUEUED None], Listen 0 Null 7, SettleListen 0] sized_live = Some t \<and>
     reads t = [] \<and> notices t = [] \<and> mounted (live_hook t) \<and> qv_size (vals (live_hook t)) = num 0 \<and>
     queue_now sized_view t = (num 1, [])"
  by (simp add: live_run_simps queue_now_def sized_view_def)

text \<open>Two reads in flight settle in the other order: the older answer stays on the screen.\<close>

lemma queue_stale_read_wins:
  "\<exists>t. live_run [LiveMount, Listen 0 Null 7, SettleListen 0, AskSize 0 Null, AskItems 0 Null,
       LiveChange 1 [event_at ITEM_ENQUEUED None], Notify, AskSize 1 Null, AskItems 1 Null, SettleRead 1, SettleRead 0]
       sized_live = Some t \<and>
     reads t = [] \<and> notices t = [] \<and> mounted (live_hook t) \<and> qv_size (vals (live_hook t)) = num 0 \<and>
     queue_now sized_view t = (num 1, [])"
  by (simp add: live_run_simps queue_now_def sized_view_def)

section \<open>Properties\<close>

text \<open>C11: \<open>useSyncQueue\<close> catches up with the native queue. After a mount, as long as the hook stays
  mounted, reads settle in the order they were issued and every change of the queue is announced
  to a listener: whenever nothing is in flight the hook shows the queue, without error and not
  loading; and from any moment on, if the native side rests, answering and settling what is in
  flight comes to an end and leaves the hook showing the queue.\<close>

theorem queue_catches_up:
  assumes "reachable (live_init n) live_step s0" and "reader n view" and "live_handle LiveMount s0 = Some u"
    and "live_run es u = Some s" and "calm view es u"
  shows "(notices s = [] \<and> reads s = [] \<longrightarrow> vals (live_hook s) = showing (queue_now view s)) \<and>
    (\<exists>es' t. live_run es' s = Some t \<and> (\<forall>e \<in> set es'. at_rest e) \<and> notices t = [] \<and> reads t = [] \<and>
      queue_now view t = queue_now view s \<and> vals (live_hook t) = showing (queue_now view s))"
proof -
  have k0: "live_links s0 \<and> live_inv s0 \<and> holds_native n (live_app s0)"
    using live_reachable_links [OF assms(1)] live_reachable_inv [OF assms(1)] by blast
  have "live_run (LiveMount # es) s0 = Some s" using assms(3,4) by simp
  from live_run_keeps [OF this k0] have k: "live_links s" "live_inv s" "holds_native n (live_app s)" by blast+
  have ku: "live_inv u" "holds_native n (live_app u)" using live_inv_step holds_step assms(3) k0 by blast+
  have cov: "covered view t" if "live_run es'' u = Some t" "calm view es'' u" for es'' t
    by (rule calm_run_covered [OF that mount_covers(1) [OF assms(3)] ku(1) mount_covers(2) [OF assms(3)] ku(2) assms(2)])
  have shown: "vals (live_hook t) = showing (queue_now view t)" if "covered view t" "notices t = []" "reads t = []" for t
    using that by (simp add: covered_def)
  obtain es' t where t: "live_run es' s = Some t" "\<forall>e \<in> set es'. at_rest e" "calm view es' s" "notices t = []" "reads t = []"
      "queue_now view t = queue_now view s"
    using settles [OF assms(2) k] by blast
  have "covered view t" by (rule cov [of "es @ es'"]) (use assms(4,5) t in \<open>simp_all add: live_run_append calm_append\<close>)
  then show ?thesis using shown [OF cov [OF assms(4,5)]] shown [of t] t by metis
qed

definition sized_events :: "nat live_event list" where
  "sized_events =
     [Listen 0 Null 7, LiveChange 1 [event_at ITEM_ENQUEUED None], AskSize 0 Null, Notify, AskItems 0 Null, SettleRead 0,
      AskItems 0 Null, SettleListen 0, AskSize 0 Null, SettleRead 0]"

lemma sized_run:
  "\<exists>u t. live_handle LiveMount sized_live = Some u \<and> live_run sized_events u = Some t \<and> calm sized_view sized_events u \<and>
     notices t = [] \<and> reads t = [] \<and> queue_now sized_view t = (num 1, [])"
  by (simp add: live_run_simps sized_events_def queue_now_def sized_view_def announced_def refreshing_def)

lemma queue_catches_up_witness:
  "\<exists>t. live_run (LiveMount # sized_events) sized_live = Some t \<and> vals (live_hook t) = showing (num 1, [])"
proof -
  obtain u t where "live_handle LiveMount sized_live = Some u" "live_run sized_events u = Some t" "calm sized_view sized_events u"
    "notices t = []" "reads t = []" "queue_now sized_view t = (num 1, [])"
    using sized_run by blast
  with queue_catches_up [OF reachable.reach_init, of sized_native, OF sized_init sized_reader] show ?thesis by fastforce
qed

end
