(* ===== verification/Hook_Alone.thy ===== *)
theory Hook_Alone
  imports Hook_Parity Queue_Live
begin

text \<open>
  A hook left alone with the facade: after a mount or a delivered event the facade answers the
  waits of the hook, the oldest first, until none is left. What the hook then shows is compared
  with what the native module holds.
\<close>

section \<open>Answering the waits of a hook\<close>

text \<open>\<open>drive\<close> answers the oldest wait until none is left; \<open>fuel\<close> bounds the answers.\<close>

type_synonym ('w, 'k, 'r) ask = "'k \<Rightarrow> 'w app \<Rightarrow> 'r \<times> 'w app"

fun drive ::
  "nat \<Rightarrow> ('p, 'v, 'k, 'r, 'a) hook_code \<Rightarrow> ('w, 'k, 'r) ask \<Rightarrow> ('w app, thrown, string) act \<Rightarrow>
   'w app \<Rightarrow> ('p, 'v, 'k) hook_state \<Rightarrow> ('w app \<times> ('p, 'v, 'k) hook_state) option" where
  "drive fuel c ask subscribe a s =
     (case pending s of
        [] \<Rightarrow> Some (a, s)
      | (n, k) # _ \<Rightarrow>
          (case fuel of
             0 \<Rightarrow> None
           | Suc fuel \<Rightarrow>
               if k = subscribe_await c then
                 (let (i, a) = subscribe a
                  in case hook_handle c (SubscribeReply n i) s of None \<Rightarrow> None | Some t \<Rightarrow> drive fuel c ask subscribe a t)
               else
                 (let (r, a) = ask k a
                  in case hook_handle c (Reply n r) s of None \<Rightarrow> None | Some t \<Rightarrow> drive fuel c ask subscribe a t)))"

declare drive.simps [simp del]

definition longest_body :: nat where
  "longest_body = 6"

definition alone ::
  "('p, 'v, 'k, 'r, 'a) hook_code \<Rightarrow> ('w, 'k, 'r) ask \<Rightarrow> ('w app, thrown, string) act \<Rightarrow>
   ('p, 'r, 'a) hook_event \<Rightarrow> 'w app \<Rightarrow> ('p, 'v, 'k) hook_state \<Rightarrow> ('w app \<times> ('p, 'v, 'k) hook_state) option" where
  "alone c ask subscribe e a s =
     (case hook_handle c e s of None \<Rightarrow> None | Some t \<Rightarrow> drive longest_body c ask subscribe a t)"

text \<open>The call behind each wait.\<close>

definition reply_with :: "(thrown + 'b \<Rightarrow> 'r) \<Rightarrow> ('w app, thrown, 'b) act \<Rightarrow> 'w app \<Rightarrow> 'r \<times> 'w app" where
  "reply_with f m a = (let (r, a) = m a in (f r, a))"


fun provider_ask :: "'w native created \<Rightarrow> ('w, provider_await, provider_reply) ask" where
  "provider_ask outcome (ProviderConfigure opts) = reply_with (ProviderConfiguredReply opts) (configureSync outcome opts)"
| "provider_ask outcome (ProviderInitialRead ok) = reply_with (ProviderInitialReadReply ok) (getSyncConfig outcome)"
| "provider_ask outcome ProviderResumedRead = reply_with ProviderResumedReadReply (getSyncConfig outcome)"
| "provider_ask outcome (ProviderEnable b) = reply_with (ProviderEnabledReply b) (enableBackgroundSync outcome b)"
| "provider_ask outcome _ = reply_with ProviderDisabledReply (disableBackgroundSync outcome)"






section \<open>Equations of the driver\<close>

lemma drive_done [simp]: "pending s = [] \<Longrightarrow> drive fuel c ask subscribe a s = Some (a, s)"
  by (simp add: drive.simps)

lemma drive_subscribe [simp]:
  "pending s = (n, subscribe_await c) # ks \<Longrightarrow> drive (Suc fuel) c ask subscribe a s =
     drive fuel c ask subscribe (snd (subscribe a)) (subscribe_reply c n (fst (subscribe a)) s)"
  by (simp add: drive.simps [of "Suc fuel"] split: prod.split)

lemma drive_ask [simp]:
  assumes "pending s = (n, k) # ks" and "k \<noteq> subscribe_await c" and "await_of c (fst (ask k a)) = k"
  shows "drive (Suc fuel) c ask subscribe a s = drive fuel c ask subscribe (snd (ask k a))
     (continue n (on_reply c (run_props (runs s ! n)) (is_cancelled c s n) (fst (ask k a)) (vals s)) (s\<lparr>pending := ks\<rparr>))"
  using assms by (cases "ask k a") (simp add: drive.simps [of "Suc fuel"])

lemma longest_body_Suc: "longest_body = Suc (Suc (Suc (Suc (Suc (Suc 0)))))"
  by (simp add: longest_body_def)

definition subscribed_as :: "thrown + string \<Rightarrow> string option \<Rightarrow> string option" where
  "subscribed_as res old = (case res of Inl e \<Rightarrow> old | Inr i \<Rightarrow> Some i)"

lemma subscribed_run [simp]:
  "on_subscribed c = keep_subscription \<Longrightarrow> n < length (runs s) \<Longrightarrow>
   subscriptionId (runs (subscribe_reply c n res s) ! n) =
     subscribed_as res (subscriptionId (runs s ! n))"
  by (cases res) (simp_all add: keep_subscription_def subscribed_as_def)

lemma reply_with_simps [simp]:
  "fst (reply_with f m a) = f (fst (m a))" "snd (reply_with f m a) = snd (m a)"
  by (simp_all add: reply_with_def split: prod.split)

lemma connection_code_fields [simp]:
  "\<not> uses_ref useConnection" "start_effect useConnection = connection_start" "on_reply useConnection = connection_on_reply"
  "on_event useConnection = connection_on_event" "await_of useConnection = connection_await_of"
  "subscribe_await useConnection = ConnectionSubscribe" "on_subscribed useConnection = keep_subscription"
  by (simp_all add: useConnection_def)

lemma status_code_fields [simp]:
  "uses_ref useSyncStatus" "start_effect useSyncStatus = status_start" "on_reply useSyncStatus = status_on_reply"
  "on_event useSyncStatus = status_on_event" "await_of useSyncStatus = status_await_of"
  "subscribe_await useSyncStatus = StatusSubscribe" "on_subscribed useSyncStatus = keep_subscription"
  by (simp_all add: useSyncStatus_def)

lemma snapshot_code_fields [simp]:
  "uses_ref useSyncSnapshot" "start_effect useSyncSnapshot = snapshot_start" "on_reply useSyncSnapshot = snapshot_on_reply"
  "on_event useSyncSnapshot = snapshot_on_event" "await_of useSyncSnapshot = snapshot_await_of"
  "subscribe_await useSyncSnapshot = SnapshotSubscribe" "on_subscribed useSyncSnapshot = keep_subscription"
  by (simp_all add: useSyncSnapshot_def)

lemma offline_code_fields [simp]:
  "uses_ref useOfflineQueue" "start_effect useOfflineQueue = offline_start" "on_reply useOfflineQueue = offline_on_reply"
  "on_event useOfflineQueue = offline_on_event" "await_of useOfflineQueue = offline_await_of"
  "subscribe_await useOfflineQueue = OfflineSubscribe" "on_subscribed useOfflineQueue = keep_subscription"
  by (simp_all add: useOfflineQueue_def)

lemma queue_code_fields [simp]:
  "uses_ref useSyncQueue" "start_effect useSyncQueue = queue_start" "on_reply useSyncQueue = queue_on_reply"
  "on_event useSyncQueue = queue_on_event" "await_of useSyncQueue = queue_await_of" "on_act useSyncQueue = queue_on_act"
  "act_enabled useSyncQueue b p x" "subscribe_await useSyncQueue = QueueSubscribe" "on_subscribed useSyncQueue = keep_subscription"
  by (simp_all add: useSyncQueue_def)

lemma provider_code_fields [simp]:
  "uses_ref SyncProvider" "start_effect SyncProvider = provider_start" "on_reply SyncProvider = provider_on_reply"
  "on_event SyncProvider = provider_on_event" "await_of SyncProvider = provider_await_of"
  "subscribe_await SyncProvider = ProviderSubscribe" "on_subscribed SyncProvider = keep_subscription"
  by (simp_all add: SyncProvider_def)

lemmas alone_simps = alone_def longest_body_Suc is_cancelled_def

section \<open>Properties\<close>

definition at_rest :: "('p, 'v, 'k) hook_state \<Rightarrow> bool" where
  "at_rest s \<longleftrightarrow> pending s = [] \<and> \<not> mounted s"


lemma at_rest_initial: "at_rest (initial_hook v)"
  by (simp add: at_rest_def)



































text \<open>C22: after a mount the provider's context, and \<open>useSyncConfig\<close> below it, show the configuration the native
  module reports, whether \<open>configureSync\<close> succeeded or not; after a failure neither the background
  task is touched nor a listener registered, and the task is owned only if it was enabled.\<close>

theorem provider_shows_live_config:
  assumes "holds_native n a" and "at_rest s" and "pp_native p"
    and "native_configureSync n (pp_options p) (world a) = (r, w1)" and "native_getSyncConfig n w1 = (Inr live, w2)"
  shows "\<exists>b t. alone SyncProvider (provider_ask outcome) (addSyncEventListener outcome k) (Mount p) a s = Some (b, t) \<and>
     useSyncContext (Some (context_value (vals t))) = \<lparr>ctx_config = Some live, ctx_hasProvider = True\<rparr> \<and>
     cv_config (fst (config_start \<lparr>cp_native = native, cp_context = useSyncContext (Some (context_value (vals t)))\<rparr> v)) = Some live \<and>
     (ownsBackgroundRef (vals t) \<longleftrightarrow> ownsBackgroundRef (vals s) \<or>
        (r = Inr () \<and> (\<exists>bg. pp_backgroundSync p = Some bg \<and> fst (native_enableBackgroundSync n bg w2) = Inr ()))) \<and>
     (r \<noteq> Inr () \<longrightarrow> b = a\<lparr>world := w2\<rparr> \<and> registered t = registered s)"
proof -
  have configure: "configureSync outcome (pp_options p) a = (wrap_reply INVALID_PAYLOAD r, a\<lparr>world := w1\<rparr>)"
    using assms(4) by (simp add: holds_call [OF assms(1)] configureSync_def sum.map_id)
  have read: "getSyncConfig outcome (a\<lparr>world := w1\<rparr>) = (Inr live, a\<lparr>world := w2\<rparr>)"
    using assms(1,5) by (simp add: holds_call [where n = n] getSyncConfig_def wrap_reply_def)
  have enable: "enableBackgroundSync outcome bg (a\<lparr>world := w2\<rparr>) =
      (wrap_reply BACKGROUND_TASK_REGISTRATION_FAILED (fst (native_enableBackgroundSync n bg w2)),
       a\<lparr>world := snd (native_enableBackgroundSync n bg w2)\<rparr>)" for bg
    using assms(1) by (simp add: holds_call [where n = n] enableBackgroundSync_def sum.map_id)
  have rest: "pending s = []" "\<not> mounted s" using assms(2) by (simp_all add: at_rest_def)
  note start = rest assms(3) alone_simps provider_start_def provider_store_def configure read enable wrap_reply_def
    useSyncContext_def context_value_def config_start_def hasProvider_def
  show ?thesis
  proof (cases r)
    case (Inl e)
    then show ?thesis by (simp add: start)
  next
    case (Inr u)
    show ?thesis
    proof (cases "pp_backgroundSync p")
      case None
      then show ?thesis using Inr by (simp add: start)
    next
      case (Some bg)
      then show ?thesis using Inr by (cases "fst (native_enableBackgroundSync n bg w2)") (simp_all add: start)
    qed
  qed
qed

text \<open>A native module that refuses every configuration and keeps its own.\<close>

definition refusing_native :: "nat native" where
  "refusing_native = example_native\<lparr>native_configureSync := (\<lambda>_ w. (Inl (OtherValue JNull), w)),
     native_getSyncConfig := (\<lambda>w. (Inr example_options, w))\<rparr>"

definition refusing_app :: "nat app" where
  "refusing_app =
     \<lparr>probe = \<lparr>cachedHybrid = Created refusing_native, resolved = True, available = True, constructed = 1\<rparr>, world = 0\<rparr>"

definition refused_props :: provider_props where
  "refused_props = \<lparr>pp_native = True, pp_options = example_options\<lparr>opt_strategy := AUTOMATIC\<rparr>,
     pp_backgroundSync = Some \<lparr>bg_minimumIntervalMs = num 900000, bg_requiresCharging = None, bg_requiresUnmeteredNetwork = None,
       bg_requiresDeviceIdle = None, bg_foregroundOnly = None, bg_taskIdentifier = None\<rparr>\<rparr>"

lemma provider_shows_live_config_witness:
  "\<exists>b t. alone SyncProvider (provider_ask (Created refusing_native)) (addSyncEventListener (Created refusing_native) 0)
       (Mount refused_props) refusing_app (initial_hook initial_provider) = Some (b, t) \<and>
     ctx_config (useSyncContext (Some (context_value (vals t)))) = Some example_options \<and> registered t = []"
proof -
  have "holds_native refusing_native refusing_app" by (simp add: holds_native_def refusing_app_def probe_inv_def)
  moreover have "native_configureSync refusing_native (pp_options refused_props) (world refusing_app) = (Inl (OtherValue JNull), 0)"
    "native_getSyncConfig refusing_native 0 = (Inr example_options, 0)" "pp_native refused_props"
    by (simp_all add: refusing_native_def refusing_app_def refused_props_def)
  ultimately show ?thesis
    using provider_shows_live_config [of refusing_native refusing_app "initial_hook initial_provider" refused_props
        "Inl (OtherValue JNull)" 0 example_options 0 "Created refusing_native" 0] at_rest_initial
    by fastforce
qed

end
