(* ===== verification/Number_Text.thy ===== *)
theory Number_Text
  imports Sync_Prelude
begin

text \<open>
  Numbers as text: \<open>String(x)\<close> of a JavaScript number, which template strings use too, and
  \<open>Number.parseInt(s, 10)\<close>. The digits of \<open>String(x)\<close> are the fewest that read back as \<open>x\<close>; 17
  always do, so the search stops there.
\<close>

section \<open>Digits\<close>

text \<open>The number of digits of \<open>x\<close> before the decimal point, or minus the zeros after it.\<close>

fun leading_zeros :: "nat \<Rightarrow> rat \<Rightarrow> int" where
  "leading_zeros 0 x = 0"
| "leading_zeros (Suc fuel) x = (if 1 \<le> 10 * x then 0 else 1 + leading_zeros fuel (10 * x))"

definition point_of :: "rat \<Rightarrow> int" where
  "point_of x = (if 1 \<le> x then int (length (show_nat (nat \<lfloor>x\<rfloor>))) else - leading_zeros 400 x)"

definition pow10 :: "int \<Rightarrow> rat" where
  "pow10 e = (if 0 \<le> e then 10 ^ nat e else 1 / 10 ^ nat (- e))"

text \<open>The \<open>k\<close>-digit decimals on either side of \<open>x\<close>, the nearer one first.\<close>

definition candidates :: "rat \<Rightarrow> nat \<Rightarrow> nat list" where
  "candidates x k =
     (let y = x * pow10 (int k - point_of x); s = nat \<lfloor>y\<rfloor>
      in if y - of_nat s \<le> of_nat (Suc s) - y then [s, Suc s] else [Suc s, s])"

definition reads_back :: "rat \<Rightarrow> nat \<Rightarrow> nat \<Rightarrow> bool" where
  "reads_back x k s \<longleftrightarrow> dround (of_nat s * pow10 (point_of x - int k)) = Fin x"

fun shortest :: "nat \<Rightarrow> rat \<Rightarrow> nat \<Rightarrow> nat \<times> nat" where
  "shortest fuel x k =
     (case filter (reads_back x k) (candidates x k) of
        s # _ \<Rightarrow> (k, s)
      | [] \<Rightarrow> (case fuel of 0 \<Rightarrow> (k, hd (candidates x k)) | Suc fuel' \<Rightarrow> shortest fuel' x (Suc k)))"

declare shortest.simps [simp del]

text \<open>A candidate that rounded up to \<open>10 ^ k\<close> is one digit with the point moved.\<close>

definition digits_of :: "rat \<Rightarrow> string \<times> int" where
  "digits_of x =
     (let (k, s) = shortest 16 x 1
      in if s = 10 ^ k then (''1'', point_of x + 1) else (show_nat s, point_of x))"

section \<open>String(x)\<close>

definition zeros :: "int \<Rightarrow> string" where
  "zeros n = replicate (nat n) (CHR ''0'')"

text \<open>The four shapes: digits with zeros appended, with a point inside, after leading zeros, or with
  an exponent.\<close>

definition positive_string :: "rat \<Rightarrow> string" where
  "positive_string x =
     (let (ds, n) = digits_of x; k = int (length ds)
      in if k \<le> n \<and> n \<le> 21 then ds @ zeros (n - k)
         else if 0 < n \<and> n \<le> 21 then take (nat n) ds @ ''.'' @ drop (nat n) ds
         else if - 6 < n \<and> n \<le> 0 then ''0.'' @ zeros (- n) @ ds
         else take 1 ds @ (if k = 1 then [] else ''.'' @ drop 1 ds) @ ''e'' @
           (if 1 \<le> n then ''+'' else ''-'') @ show_nat (nat \<bar>n - 1\<bar>))"

fun num_string :: "jsnum \<Rightarrow> string" where
  "num_string NaN = ''NaN''"
| "num_string PosInf = ''Infinity''"
| "num_string NegInf = ''-Infinity''"
| "num_string (Fin x) =
     (if x = 0 then ''0'' else if x < 0 then ''-'' @ positive_string (- x) else positive_string x)"

section \<open>Number.parseInt(s, 10)\<close>

definition digit_value :: "char \<Rightarrow> nat" where
  "digit_value c = of_char c - 48"

definition decimal :: "string \<Rightarrow> nat" where
  "decimal = foldl (\<lambda>n c. 10 * n + digit_value c) 0"

definition parse_digits :: "string \<Rightarrow> nat option" where
  "parse_digits s = (let ds = takeWhile is_digit s in if ds = [] then None else Some (decimal ds))"

definition parseInt :: "string \<Rightarrow> jsnum" where
  "parseInt s =
     (let t = dropWhile is_space s;
          (neg, u) = (case t of c # r \<Rightarrow> if c = CHR ''-'' then (True, r) else if c = CHR ''+'' then (False, r) else (False, t)
                      | [] \<Rightarrow> (False, t))
      in case parse_digits u of
           None \<Rightarrow> NaN
         | Some n \<Rightarrow> dround (if neg then - of_nat n else of_nat n))"

section \<open>Reading digits\<close>

lemma digit_value_digit [simp]: "d < 10 \<Longrightarrow> digit_value (digit d) = d"
  by (simp add: digit_value_def digit_def of_char_of take_bit_eq_mod)

lemma is_digit_digit [simp]: "d < 10 \<Longrightarrow> is_digit (digit d)"
  by (auto simp: is_digit_def)

lemma is_digit_zero [simp]: "is_digit (CHR ''0'')"
  by (simp add: is_digit_code)

lemma digit_value_zero [simp]: "digit_value (CHR ''0'') = 0"
  by (simp add: digit_value_def)

lemma decimal_append: "decimal (s @ t) = decimal s * 10 ^ length t + decimal t"
proof (induction t rule: rev_induct)
  case (snoc c t)
  have step: "decimal (u @ [c]) = 10 * decimal u + digit_value c" for u by (simp add: decimal_def)
  show ?case using snoc step [of "s @ t"] step [of t] by (simp add: algebra_simps)
qed (simp add: decimal_def)

lemma show_nat_digits: "\<forall>c \<in> set (show_nat n). is_digit c"
proof (induction n rule: show_nat.induct)
  case (1 n)
  then show ?case by (subst show_nat.simps) auto
qed

lemma decimal_show_nat [simp]: "decimal (show_nat n) = n"
proof (induction n rule: show_nat.induct)
  case (1 n)
  then show ?case by (subst show_nat.simps) (auto simp: decimal_append, simp_all add: decimal_def)
qed

lemma decimal_zeros [simp]: "decimal (zeros n) = 0"
proof -
  have "decimal (replicate m (CHR ''0'')) = 0" for m
    by (induction m) (auto simp: decimal_append decimal_def simp flip: replicate_append_same)
  then show ?thesis by (simp add: zeros_def)
qed

lemma zeros_digits: "c \<in> set (zeros n) \<Longrightarrow> is_digit c"
  by (simp add: zeros_def)

lemma length_zeros [simp]: "length (zeros n) = nat n"
  by (simp add: zeros_def)

lemma decimal_power: "decimal (CHR ''1'' # zeros n) = 10 ^ nat n"
  using decimal_append [of "''1''" "zeros n"] by (simp, simp add: decimal_def digit_value_def)

lemma parse_digits_all: "s \<noteq> [] \<Longrightarrow> \<forall>c \<in> set s. is_digit c \<Longrightarrow> parse_digits s = Some (decimal s)"
  by (simp add: parse_digits_def takeWhile_eq_all_conv [THEN iffD2])

lemma parseInt_digits:
  assumes "s \<noteq> []" and "\<forall>c \<in> set s. is_digit c"
  shows "parseInt s = dround (of_nat (decimal s))"
proof -
  obtain c r where s: "s = c # r" using assms(1) by (cases s) auto
  then have "(of_char c :: nat) \<in> {48..57}" using assms(2) is_digit_code by simp
  then have "\<not> is_space c" "c \<noteq> CHR ''-''" "c \<noteq> CHR ''+''" by (auto simp: is_space_def)
  then show ?thesis using parse_digits_all [OF assms] by (simp add: parseInt_def s)
qed

section \<open>A whole number reads back\<close>

lemma show_nat_upper: "n < 10 ^ length (show_nat n)"
proof (induction n rule: show_nat.induct)
  case (1 n)
  show ?case
  proof (cases "n < 10")
    case False
    then have "n div 10 < 10 ^ length (show_nat (n div 10))" using 1 by simp
    then have "n < 10 * 10 ^ length (show_nat (n div 10))" by linarith
    then show ?thesis using False by (subst show_nat.simps) simp
  qed (simp add: show_nat.simps [of n])
qed

lemma show_nat_lower: "0 < n \<Longrightarrow> 10 ^ (length (show_nat n) - 1) \<le> n"
proof (induction n rule: show_nat.induct)
  case (1 n)
  show ?case
  proof (cases "n < 10")
    case False
    then have "10 ^ (length (show_nat (n div 10)) - 1) \<le> n div 10" using 1 by simp
    then have "10 * 10 ^ (length (show_nat (n div 10)) - 1) \<le> n" by linarith
    moreover have "10 * 10 ^ (length (show_nat (n div 10)) - 1) = (10 :: nat) ^ length (show_nat (n div 10))"
      by (simp flip: power_Suc)
    ultimately show ?thesis using False by (subst show_nat.simps) simp
  qed (use 1 in \<open>simp add: show_nat.simps [of n]\<close>)
qed

lemma length_show_nat:
  assumes "10 ^ (k - 1) \<le> n" and "n < 10 ^ k" and "0 < k"
  shows "length (show_nat n) = k"
proof (rule antisym)
  have n: "0 < n" using assms(1) by (metis gr0I not_le zero_less_numeral zero_less_power)
  have "(10 :: nat) ^ (length (show_nat n) - 1) < 10 ^ k" using show_nat_lower [OF n] assms(2) by linarith
  then show "length (show_nat n) \<le> k" by simp
  have "(10 :: nat) ^ (k - 1) < 10 ^ length (show_nat n)" using show_nat_upper [of n] assms(1) by linarith
  then show "k \<le> length (show_nat n)" using assms(3) by simp
qed

lemma shortest_reads:
  assumes "c \<in> set (candidates x m)" and "reads_back x m c"
  shows "k \<le> m \<Longrightarrow> m \<le> k + fuel \<Longrightarrow>
    \<exists>j s. shortest fuel x k = (j, s) \<and> reads_back x j s \<and> s \<in> set (candidates x j) \<and> k \<le> j \<and> j \<le> m"
proof (induction fuel arbitrary: k)
  case 0
  then have "k = m" by simp
  then obtain s ss where "filter (reads_back x k) (candidates x k) = s # ss"
    using assms by (metis filter_empty_conv list.exhaust)
  then have "s \<in> set (filter (reads_back x k) (candidates x k))" by simp
  then have "reads_back x k s" "s \<in> set (candidates x k)" by auto
  then show ?case using 0 \<open>k = m\<close> \<open>filter (reads_back x k) (candidates x k) = s # ss\<close> by (simp add: shortest.simps)
next
  case (Suc fuel)
  show ?case
  proof (cases "filter (reads_back x k) (candidates x k)")
    case Nil
    then have "k \<noteq> m" using assms by (auto simp: filter_empty_conv)
    then show ?thesis using Suc.IH [of "Suc k"] Suc.prems Nil by (auto simp: shortest.simps [of "Suc fuel"])
  next
    case (Cons s ss)
    then have "s \<in> set (filter (reads_back x k) (candidates x k))" by simp
    then have "reads_back x k s" "s \<in> set (candidates x k)" by auto
    then show ?thesis using Cons Suc.prems by (simp add: shortest.simps [of "Suc fuel"])
  qed
qed

lemma pow10_diff: "k \<le> n \<Longrightarrow> pow10 (int n - int k) = 10 ^ (n - k)" "k \<le> n \<Longrightarrow> pow10 (int k - int n) = 1 / 10 ^ (n - k)"
  by (auto simp: pow10_def nat_diff_distrib simp flip: of_nat_diff)

text \<open>A candidate for a whole number of \<open>n\<close> digits has its \<open>k\<close> digits, or is \<open>10 ^ k\<close>.\<close>

lemma candidate_range:
  assumes m: "0 < m" and n: "n = length (show_nat m)" and k: "0 < k" "k \<le> n" and s: "s \<in> set (candidates (of_nat m) k)"
  shows "10 ^ (k - 1) \<le> s" and "s \<le> 10 ^ k"
proof -
  let ?y = "of_nat m * pow10 (int k - point_of (of_nat m))"
  have p: "point_of (of_nat m) = int n" using m n by (simp add: point_of_def)
  have y: "?y = of_nat m / 10 ^ (n - k)" using k by (simp add: p pow10_diff)
  have "10 ^ (n - 1) \<le> m" "m < 10 ^ n" using show_nat_lower [OF m] show_nat_upper [of m] n by simp_all
  then have "(10 :: rat) ^ (n - 1) \<le> of_nat m" "(of_nat m :: rat) < 10 ^ n"
    by (metis of_nat_le_iff of_nat_numeral of_nat_power) (metis \<open>m < 10 ^ n\<close> of_nat_less_iff of_nat_numeral of_nat_power)
  moreover have "(10 :: rat) ^ (n - 1) = 10 ^ (k - 1) * 10 ^ (n - k)" "(10 :: rat) ^ n = 10 ^ k * 10 ^ (n - k)"
    using k by (simp_all flip: power_add)
  ultimately have "10 ^ (k - 1) * 10 ^ (n - k) \<le> (of_nat m :: rat)" "(of_nat m :: rat) < 10 ^ k * 10 ^ (n - k)"
    by linarith+
  then have b: "10 ^ (k - 1) \<le> ?y" "?y < 10 ^ k" unfolding y by (simp_all only: pos_le_divide_eq pos_divide_less_eq zero_less_power zero_less_numeral)
  define f where "f = nat \<lfloor>?y\<rfloor>"
  have "10 ^ (k - 1) \<le> f" using b(1) by (simp add: f_def le_nat_iff le_floor_iff)
  moreover have "f < 10 ^ k" using b(2) by (simp add: f_def nat_less_iff floor_less_iff)
  moreover have "s = f \<or> s = Suc f" using s by (auto simp: candidates_def Let_def f_def split: if_splits)
  ultimately show "10 ^ (k - 1) \<le> s" "s \<le> 10 ^ k" by linarith+
qed

lemma positive_string_whole:
  assumes m: "0 < m" "m \<le> 2 ^ 53"
  shows "positive_string (of_nat m) \<noteq> []" and "\<forall>c \<in> set (positive_string (of_nat m)). is_digit c"
    and "dround (of_nat (decimal (positive_string (of_nat m)))) = Fin (of_nat m)"
proof -
  let ?n = "length (show_nat m)" and ?x = "of_nat m :: rat"
  have p: "point_of ?x = int ?n" using m by (simp add: point_of_def)
  have "(2 :: nat) ^ 53 < 10 ^ 16" by simp
  then have "(10 :: nat) ^ (?n - 1) < 10 ^ 16" using show_nat_lower [OF m(1)] m(2) by linarith
  then have "?n - 1 < 16" by (rule power_less_imp_less_exp [rotated]) simp
  then have n16: "?n \<le> 16" by simp
  have n1: "1 \<le> ?n" by (simp add: Suc_le_eq)
  have self: "m \<in> set (candidates ?x ?n)" by (simp add: candidates_def p pow10_def Let_def)
  have "reads_back ?x ?n m" using dround_int [of "int m"] m(2) by (simp add: reads_back_def p pow10_def)
  from shortest_reads [OF self this, of 1 16] n1 n16 obtain k s where
    ks: "shortest 16 ?x 1 = (k, s)" "reads_back ?x k s" "s \<in> set (candidates ?x k)" "1 \<le> k" "k \<le> ?n" by auto
  have range: "10 ^ (k - 1) \<le> s" "s \<le> 10 ^ k"
    using candidate_range [OF m(1) refl _ ks(5,3)] ks(4) by simp_all
  have rb: "dround (of_nat s * 10 ^ (?n - k)) = Fin ?x" using ks(2,5) by (simp add: reads_back_def p pow10_diff)
  have "positive_string ?x = (if s = 10 ^ k then ''1'' @ zeros (int ?n) else show_nat s @ zeros (int ?n - int k))"
    using ks(1,4,5) n16 n1 range length_show_nat [of k s]
    by (auto simp: positive_string_def digits_of_def p Let_def)
  moreover have "of_nat (10 ^ k) * 10 ^ (?n - k) = (10 :: rat) ^ ?n" using ks(5) by (simp flip: power_add)
  moreover have "nat (int ?n - int k) = ?n - k" using ks(5) by simp
  ultimately show "positive_string ?x \<noteq> []" "\<forall>c \<in> set (positive_string ?x). is_digit c"
      "dround (of_nat (decimal (positive_string ?x))) = Fin ?x"
    using rb show_nat_digits [of s]
    by (auto simp: decimal_append decimal_power is_digit_code [of "CHR ''1''"] dest: zeros_digits split: if_splits)
qed

theorem parseInt_num_string:
  assumes "0 \<le> i" and "i \<le> 2 ^ 53"
  shows "parseInt (num_string (num i)) = num i"
proof (cases "i = 0")
  case True
  have "parseInt ''0'' = dround (of_nat (decimal ''0''))" by (rule parseInt_digits) simp_all
  then show ?thesis using True by (simp add: decimal_def)
next
  case False
  define m where "m = nat i"
  then have m: "0 < m" "m \<le> 2 ^ 53" "i = int m" using assms False by auto
  have "num_string (num i) = positive_string (of_nat m)" using m by simp
  then show ?thesis using parseInt_digits [OF positive_string_whole(1,2) [OF m(1,2)]] positive_string_whole(3) [OF m(1,2)] m(3) by simp
qed

text \<open>The numbers whose text is read back without loss.\<close>

definition whole_number :: "jsnum \<Rightarrow> bool" where
  "whole_number x \<longleftrightarrow> (\<exists>i. 0 \<le> i \<and> i \<le> 2 ^ 53 \<and> x = num i)"

lemma whole_num_whole [simp]: "0 \<le> i \<Longrightarrow> i \<le> 2 ^ 53 \<Longrightarrow> whole_number (num i)"
  unfolding whole_number_def by blast

lemma whole_numeral [simp]: "(numeral n :: int) \<le> 2 ^ 53 \<Longrightarrow> whole_number (Fin (numeral n))"
  using whole_num_whole [of "numeral n"] by simp

end
