(* ===== verification/Example_Config.thy ===== *)
theory Example_Config
  imports Number_Text Serialization Facade
begin

text \<open>
  The configuration screen of the example application (\<open>example/src/screens/ConfigScreen.tsx\<close>): the
  form and its two conversions, what the screen shows, and the screen as a state machine over the
  replies of \<open>setConfig\<close>, \<open>isBackgroundSyncEnabled\<close>, \<open>enableBackgroundSync\<close> and
  \<open>disableBackgroundSync\<close>.
\<close>

section \<open>Defaults\<close>

definition DEFAULT_ENDPOINT :: string where
  "DEFAULT_ENDPOINT = ''https://httpbin.org/post''"

definition DEFAULT_RETRY_POLICY :: retry_policy where
  "DEFAULT_RETRY_POLICY =
     \<lparr>maxAttempts = num 5, backoff = ''EXPONENTIAL'', baseDelayMs = num 1000, maxDelayMs = num 60000, jitter = True,
      retryOnStatusCodes = [num 408, num 425, num 429, num 500, num 502, num 503, num 504]\<rparr>"

definition DEFAULT_CONFIG :: sync_options where
  "DEFAULT_CONFIG =
     \<lparr>opt_strategy = AUTOMATIC, opt_retryPolicy = DEFAULT_RETRY_POLICY, opt_batchSize = Some (num 10),
      opt_requestTimeoutMs = Some (num 30000), opt_maxQueueSize = Some (num 1000), opt_persistQueue = Some True,
      opt_defaultHeaders = Some [(''endpoint'', DEFAULT_ENDPOINT)]\<rparr>"

section \<open>The form\<close>

record form_state =
  f_endpoint :: string
  f_batchSize :: string
  f_requestTimeoutMs :: string
  f_maxQueueSize :: string
  f_persistQueue :: bool
  f_syncStrategy :: sync_strategy
  f_retryMaxAttempts :: string
  f_retryBackoff :: string
  f_retryBaseDelayMs :: string
  f_retryMaxDelayMs :: string
  f_retryJitter :: bool

text \<open>\<open>a ?? b\<close>\<close>

definition nullish :: "'a option \<Rightarrow> 'a \<Rightarrow> 'a" where
  "nullish x d = (case x of None \<Rightarrow> d | Some a \<Rightarrow> a)"

definition endpoint_of :: "sync_options \<Rightarrow> string option" where
  "endpoint_of config = (case opt_defaultHeaders config of None \<Rightarrow> None | Some h \<Rightarrow> map_of h ''endpoint'')"

definition configToForm :: "sync_options \<Rightarrow> form_state" where
  "configToForm config =
     \<lparr>f_endpoint = nullish (endpoint_of config) DEFAULT_ENDPOINT,
      f_batchSize = num_string (nullish (opt_batchSize config) (num 10)),
      f_requestTimeoutMs = num_string (nullish (opt_requestTimeoutMs config) (num 30000)),
      f_maxQueueSize = num_string (nullish (opt_maxQueueSize config) (num 1000)),
      f_persistQueue = nullish (opt_persistQueue config) True,
      f_syncStrategy = opt_strategy config,
      f_retryMaxAttempts = num_string (maxAttempts (opt_retryPolicy config)),
      f_retryBackoff = backoff (opt_retryPolicy config),
      f_retryBaseDelayMs = num_string (baseDelayMs (opt_retryPolicy config)),
      f_retryMaxDelayMs = num_string (maxDelayMs (opt_retryPolicy config)),
      f_retryJitter = jitter (opt_retryPolicy config)\<rparr>"

definition parsePositiveInt :: "string \<Rightarrow> jsnum \<Rightarrow> jsnum" where
  "parsePositiveInt value fallback =
     (let parsed = parseInt value
      in if \<not> num_is_finite parsed \<or> num_lt parsed (num 0) then fallback else parsed)"

definition formToConfig :: "form_state \<Rightarrow> sync_options \<Rightarrow> sync_options" where
  "formToConfig form base =
     \<lparr>opt_strategy = f_syncStrategy form,
      opt_retryPolicy = (opt_retryPolicy base)
        \<lparr>maxAttempts := parsePositiveInt (f_retryMaxAttempts form) (maxAttempts (opt_retryPolicy base)),
         backoff := f_retryBackoff form,
         baseDelayMs := parsePositiveInt (f_retryBaseDelayMs form) (baseDelayMs (opt_retryPolicy base)),
         maxDelayMs := parsePositiveInt (f_retryMaxDelayMs form) (maxDelayMs (opt_retryPolicy base)),
         jitter := f_retryJitter form\<rparr>,
      opt_batchSize = Some (parsePositiveInt (f_batchSize form) (nullish (opt_batchSize base) (num 10))),
      opt_requestTimeoutMs = Some (parsePositiveInt (f_requestTimeoutMs form) (nullish (opt_requestTimeoutMs base) (num 30000))),
      opt_maxQueueSize = Some (parsePositiveInt (f_maxQueueSize form) (nullish (opt_maxQueueSize base) (num 1000))),
      opt_persistQueue = Some (f_persistQueue form),
      opt_defaultHeaders =
        Some (set_prop (nullish (opt_defaultHeaders base) []) ''endpoint''
          (if f_endpoint form \<noteq> [] then f_endpoint form else DEFAULT_ENDPOINT))\<rparr>"

section \<open>Reading back what the form shows\<close>

lemma parse_whole [simp]: "whole_number x \<Longrightarrow> parsePositiveInt (num_string x) d = x"
  by (auto simp: whole_number_def parsePositiveInt_def parseInt_num_string Let_def simp del: num_string.simps)

definition form_numbers :: "sync_options \<Rightarrow> jsnum list" where
  "form_numbers c =
     [nullish (opt_batchSize c) (num 10), nullish (opt_requestTimeoutMs c) (num 30000), nullish (opt_maxQueueSize c) (num 1000),
      maxAttempts (opt_retryPolicy c), baseDelayMs (opt_retryPolicy c), maxDelayMs (opt_retryPolicy c)]"

text \<open>A configuration with every optional part written out.\<close>

definition filled :: "sync_options \<Rightarrow> sync_options" where
  "filled c = c
     \<lparr>opt_batchSize := Some (nullish (opt_batchSize c) (num 10)),
      opt_requestTimeoutMs := Some (nullish (opt_requestTimeoutMs c) (num 30000)),
      opt_maxQueueSize := Some (nullish (opt_maxQueueSize c) (num 1000)),
      opt_persistQueue := Some (nullish (opt_persistQueue c) True),
      opt_defaultHeaders := Some (set_prop (nullish (opt_defaultHeaders c) []) ''endpoint'' (nullish (endpoint_of c) DEFAULT_ENDPOINT))\<rparr>"

lemma filled_complete:
  assumes "opt_batchSize c \<noteq> None" and "opt_requestTimeoutMs c \<noteq> None" and "opt_maxQueueSize c \<noteq> None"
    and "opt_persistQueue c \<noteq> None" and "endpoint_of c \<noteq> None"
  shows "filled c = c"
  using assms by (cases c) (auto simp: filled_def nullish_def endpoint_of_def set_prop_id split: option.splits)

text \<open>Every number a saved form holds comes from its text or from the configuration below it.\<close>

lemma parsePositiveInt_cases:
  obtains "parsePositiveInt s d = d" | x where "parsePositiveInt s d = Fin x" "0 \<le> x" "is_double (Fin x)" "parseInt s = Fin x"
proof (cases "num_is_finite (parseInt s) \<and> \<not> num_lt (parseInt s) (num 0)")
  case True
  then obtain x where "parseInt s = Fin x" "0 \<le> x" by (cases "parseInt s") auto
  moreover have "is_double (parseInt s)"
    by (auto simp: parseInt_def Let_def is_double_def split: option.splits prod.splits dest: dround_idem)
  ultimately show ?thesis using that(2) [of x] by (simp add: parsePositiveInt_def)
qed (auto simp: parsePositiveInt_def Let_def intro: that)

section \<open>What the screen shows\<close>

text \<open>\<open>updateField(key, value)\<close>, one constructor per key.\<close>

datatype field_edit =
    EditEndpoint string | EditStrategy string | EditBatchSize string | EditRequestTimeout string
  | EditMaxQueueSize string | EditPersistQueue bool | EditMaxAttempts string | EditBackoff string
  | EditBaseDelay string | EditMaxDelay string | EditJitter bool

fun updateField :: "field_edit \<Rightarrow> form_state \<Rightarrow> form_state" where
  "updateField (EditEndpoint v) f = f\<lparr>f_endpoint := v\<rparr>"
| "updateField (EditStrategy v) f =
     (case parse_wire strategy_values strategy_wire v of Some st \<Rightarrow> f\<lparr>f_syncStrategy := st\<rparr> | None \<Rightarrow> f)"
| "updateField (EditBatchSize v) f = f\<lparr>f_batchSize := v\<rparr>"
| "updateField (EditRequestTimeout v) f = f\<lparr>f_requestTimeoutMs := v\<rparr>"
| "updateField (EditMaxQueueSize v) f = f\<lparr>f_maxQueueSize := v\<rparr>"
| "updateField (EditPersistQueue b) f = f\<lparr>f_persistQueue := b\<rparr>"
| "updateField (EditMaxAttempts v) f = f\<lparr>f_retryMaxAttempts := v\<rparr>"
| "updateField (EditBackoff v) f = f\<lparr>f_retryBackoff := v\<rparr>"
| "updateField (EditBaseDelay v) f = f\<lparr>f_retryBaseDelayMs := v\<rparr>"
| "updateField (EditMaxDelay v) f = f\<lparr>f_retryMaxDelayMs := v\<rparr>"
| "updateField (EditJitter b) f = f\<lparr>f_retryJitter := b\<rparr>"

datatype press = Edit field_edit | ToggleBackground bool | ToggleAutoSync bool | Save

text \<open>
  The controls of the screen with what they show and what using them does; styling and fixed help
  texts are left out. A control of \<open>Segmented\<close> offers its options.
\<close>

datatype control =
    TextField string string "string \<Rightarrow> press"
  | Toggle string bool "bool \<Rightarrow> press"
  | Segments string "string list" string "string \<Rightarrow> press"
  | PushButton string press
  | Spinner
  | Toast string
  | ErrorBanner string

definition SYNC_STRATEGY_OPTIONS :: "sync_strategy list" where
  "SYNC_STRATEGY_OPTIONS = [AUTOMATIC, MANUAL, OPPORTUNISTIC]"

definition BACKOFF_OPTIONS :: "backoff_strategy list" where
  "BACKOFF_OPTIONS = [LINEAR, EXPONENTIAL, FIBONACCI]"

definition Segmented :: "string list \<Rightarrow> string \<Rightarrow> (string \<Rightarrow> press) \<Rightarrow> (string \<times> bool \<times> press) list" where
  "Segmented options value onChange = map (\<lambda>opt. (opt, opt = value, onChange opt)) options"

record config_screen =
  cs_form :: form_state
  cs_savedAt :: "jsnum option"
  cs_savedRecently :: bool
  cs_autoSync :: bool
  cs_background :: bool

definition field_controls :: "form_state \<Rightarrow> control list" where
  "field_controls f =
     [TextField ''Endpoint URL'' (f_endpoint f) (Edit \<circ> EditEndpoint),
      Segments ''Sync strategy'' (map strategy_wire SYNC_STRATEGY_OPTIONS) (strategy_wire (f_syncStrategy f)) (Edit \<circ> EditStrategy),
      TextField ''Batch size'' (f_batchSize f) (Edit \<circ> EditBatchSize),
      TextField ''Request timeout (ms)'' (f_requestTimeoutMs f) (Edit \<circ> EditRequestTimeout),
      TextField ''Max queue size (0 = unlimited)'' (f_maxQueueSize f) (Edit \<circ> EditMaxQueueSize),
      Toggle ''Persist queue to disk'' (f_persistQueue f) (Edit \<circ> EditPersistQueue),
      TextField ''Max attempts'' (f_retryMaxAttempts f) (Edit \<circ> EditMaxAttempts),
      Segments ''Backoff strategy'' (map backoff_wire BACKOFF_OPTIONS) (f_retryBackoff f) (Edit \<circ> EditBackoff),
      TextField ''Base delay (ms)'' (f_retryBaseDelayMs f) (Edit \<circ> EditBaseDelay),
      TextField ''Max delay (ms)'' (f_retryMaxDelayMs f) (Edit \<circ> EditMaxDelay),
      Toggle ''Apply jitter'' (f_retryJitter f) (Edit \<circ> EditJitter)]"

text \<open>\<open>error\<close> is what \<open>useSyncConfig\<close> returns; it is always a \<open>SyncError\<close>.\<close>

definition error_text :: "thrown \<Rightarrow> string" where
  "error_text e =
     (case e of SyncError c m _ _ \<Rightarrow> code_wire c @ '': '' @ m | _ \<Rightarrow> [])"

definition screen_controls :: "bool \<Rightarrow> thrown option \<Rightarrow> config_screen \<Rightarrow> control list" where
  "screen_controls isLoading err s =
     (if isLoading then [Spinner] else []) @ field_controls (cs_form s) @
     [Toggle ''OS-level background sync'' (cs_background s) ToggleBackground,
      Toggle ''useAutoSync orchestrator'' (cs_autoSync s) ToggleAutoSync,
      PushButton ''Save configuration'' Save] @
     (if cs_savedRecently s then [Toast ''Configuration saved.''] else []) @
     (case err of Some e \<Rightarrow> [ErrorBanner (error_text e)] | None \<Rightarrow> [])"

text \<open>What a control shows, and the presses it offers: an input offers the value it is given.\<close>

datatype shown_value = Words string | Switched bool | Nothing

fun shows_value :: "control \<Rightarrow> shown_value" where
  "shows_value (TextField l v c) = Words v"
| "shows_value (Toggle l b c) = Switched b"
| "shows_value (Segments l os v c) = Words v"
| "shows_value _ = Nothing"

fun offers :: "control \<Rightarrow> shown_value \<Rightarrow> press option" where
  "offers (TextField l v c) (Words w) = Some (c w)"
| "offers (Toggle l b c) (Switched w) = Some (c w)"
| "offers (Segments l os v c) (Words w) =
     map_option (\<lambda>(opt, selected, p). p) (find (\<lambda>(opt, selected, p). opt = w) (Segmented os v c))"
| "offers _ _ = None"

lemma segment_offers:
  "map_option (\<lambda>(opt, selected, p). p) (find (\<lambda>(opt, selected, p). opt = w) (Segmented os v c)) =
     (if w \<in> set os then Some (c w) else None)"
  by (induction os) (auto simp: Segmented_def)

section \<open>The screen as a state machine\<close>

text \<open>\<open>ProbeWait\<close> is the effect's \<open>isBackgroundSyncEnabled\<close>; a toggle waits with the value it asked for.\<close>

datatype screen_wait = ProbeWait | SaveWait | ToggleWait bool

datatype screen_call =
    CallIsBackgroundEnabled
  | CallSetConfig sync_options
  | CallEnableBackground background_sync_options
  | CallDisableBackground

record config_machine =
  cm_screen :: config_screen
  cm_config :: "sync_options option"
  cm_cancelled :: bool
  cm_waits :: "screen_wait list"
  cm_calls :: "screen_call list"
  cm_alerts :: "(string \<times> jsval) list"

datatype screen_event =
    ConfigIs "sync_options option"
  | Press press
  | ProbeReply "thrown + bool"
  | SaveReply jsnum jsnum "thrown + unit"
  | ToggleReply bool "thrown + unit"
  | ScreenUnmount

definition initial_screen :: config_screen where
  "initial_screen =
     \<lparr>cs_form = configToForm DEFAULT_CONFIG, cs_savedAt = None, cs_savedRecently = False, cs_autoSync = False,
      cs_background = False\<rparr>"

text \<open>The first render and its effects, below \<open>useSyncConfig\<close> with the configuration it has by then.\<close>

definition mirror :: "sync_options option \<Rightarrow> config_screen \<Rightarrow> config_screen" where
  "mirror config s = (case config of Some c \<Rightarrow> s\<lparr>cs_form := configToForm c\<rparr> | None \<Rightarrow> s)"

definition ConfigScreen :: "sync_options option \<Rightarrow> config_machine" where
  "ConfigScreen config =
     \<lparr>cm_screen = mirror config initial_screen, cm_config = config, cm_cancelled = False, cm_waits = [ProbeWait],
      cm_calls = [CallIsBackgroundEnabled], cm_alerts = []\<rparr>"

text \<open>\<open>err instanceof Error ? err.message : 'Unknown error.'\<close>\<close>

definition alert_message :: "thrown \<Rightarrow> jsval" where
  "alert_message err =
     (case err of SyncError _ m _ _ \<Rightarrow> JStr m | ErrorObject m \<Rightarrow> m | OtherValue _ \<Rightarrow> JStr ''Unknown error.'')"

definition background_options :: background_sync_options where
  "background_options =
     \<lparr>bg_minimumIntervalMs = num (15 * 60 * 1000), bg_requiresCharging = None, bg_requiresUnmeteredNetwork = Some True,
      bg_requiresDeviceIdle = None, bg_foregroundOnly = None, bg_taskIdentifier = None\<rparr>"

text \<open>
  \<open>setSavedAt(now)\<close> and the render after it, at time \<open>shown\<close>: the \<open>useMemo\<close> runs again only when
  \<open>savedAt\<close> has changed.
\<close>

definition savedRecently :: "jsnum option \<Rightarrow> jsnum \<Rightarrow> bool" where
  "savedRecently savedAt now = (case savedAt of None \<Rightarrow> False | Some t \<Rightarrow> num_lt (num_sub now t) (num 4000))"

definition set_saved :: "jsnum \<Rightarrow> jsnum \<Rightarrow> config_screen \<Rightarrow> config_screen" where
  "set_saved now shown s =
     (if cs_savedAt s = Some now then s
      else s\<lparr>cs_savedAt := Some now, cs_savedRecently := savedRecently (Some now) shown\<rparr>)"

lemma set_saved_background [simp]: "cs_background (set_saved now shown s) = cs_background s"
  by (simp add: set_saved_def)

fun on_press :: "press \<Rightarrow> config_machine \<Rightarrow> config_machine" where
  "on_press (Edit e) m = m\<lparr>cm_screen := (cm_screen m)\<lparr>cs_form := updateField e (cs_form (cm_screen m))\<rparr>\<rparr>"
| "on_press (ToggleAutoSync b) m = m\<lparr>cm_screen := (cm_screen m)\<lparr>cs_autoSync := b\<rparr>\<rparr>"
| "on_press Save m =
     m\<lparr>cm_waits := cm_waits m @ [SaveWait],
       cm_calls := cm_calls m @ [CallSetConfig (formToConfig (cs_form (cm_screen m)) (nullish (cm_config m) DEFAULT_CONFIG))]\<rparr>"
| "on_press (ToggleBackground nxt) m =
     m\<lparr>cm_screen := (cm_screen m)\<lparr>cs_background := nxt\<rparr>, cm_waits := cm_waits m @ [ToggleWait nxt],
       cm_calls := cm_calls m @ [if nxt then CallEnableBackground background_options else CallDisableBackground]\<rparr>"

fun screen_handle :: "screen_event \<Rightarrow> config_machine \<Rightarrow> config_machine option" where
  "screen_handle (ConfigIs config) m =
     (if cm_cancelled m then None else Some (m\<lparr>cm_config := config, cm_screen := mirror config (cm_screen m)\<rparr>))"
| "screen_handle (Press p) m = (if cm_cancelled m then None else Some (on_press p m))"
| "screen_handle (ProbeReply r) m =
     (if ProbeWait \<in> set (cm_waits m) then
        (let m = m\<lparr>cm_waits := remove1 ProbeWait (cm_waits m)\<rparr>
         in case r of
              Inr enabled \<Rightarrow> Some (if \<not> cm_cancelled m then m\<lparr>cm_screen := (cm_screen m)\<lparr>cs_background := enabled\<rparr>\<rparr> else m)
            | Inl err \<Rightarrow> Some m)
      else None)"
| "screen_handle (SaveReply now shown r) m =
     (if SaveWait \<in> set (cm_waits m) then
        (let m = m\<lparr>cm_waits := remove1 SaveWait (cm_waits m)\<rparr>
         in case r of
              Inr _ \<Rightarrow> Some (m\<lparr>cm_screen := set_saved now shown (cm_screen m)\<rparr>)
            | Inl err \<Rightarrow> Some (m\<lparr>cm_alerts := cm_alerts m @ [(''Save failed'', alert_message err)]\<rparr>))
      else None)"
| "screen_handle (ToggleReply nxt r) m =
     (if ToggleWait nxt \<in> set (cm_waits m) then
        (let m = m\<lparr>cm_waits := remove1 (ToggleWait nxt) (cm_waits m)\<rparr>
         in case r of
              Inr _ \<Rightarrow> Some m
            | Inl err \<Rightarrow>
                Some (m\<lparr>cm_screen := (cm_screen m)\<lparr>cs_background := \<not> nxt\<rparr>,
                        cm_alerts := cm_alerts m @ [(''Background sync toggle failed'', alert_message err)]\<rparr>))
      else None)"
| "screen_handle ScreenUnmount m = (if cm_cancelled m then None else Some (m\<lparr>cm_cancelled := True\<rparr>))"

section \<open>The background switch and the device\<close>

definition is_background :: "screen_wait \<Rightarrow> bool" where
  "is_background w \<longleftrightarrow> w \<noteq> SaveWait"

definition background_waits :: "config_machine \<Rightarrow> screen_wait list" where
  "background_waits m = filter is_background (cm_waits m)"

text \<open>
  A run in which the background calls do not overlap: the probe settles, with the device's answer,
  before the first toggle, and each toggle before the next. \<open>flag\<close> is the device's registration,
  which a call changes when it succeeds.
\<close>

fun alone_step :: "screen_event \<Rightarrow> config_machine \<times> bool \<Rightarrow> (config_machine \<times> bool) option" where
  "alone_step (Press (ToggleBackground nxt)) (m, flag) =
     (if background_waits m = [] \<and> nxt = (\<not> cs_background (cm_screen m))
      then map_option (\<lambda>m'. (m', flag)) (screen_handle (Press (ToggleBackground nxt)) m) else None)"
| "alone_step (ProbeReply r) (m, flag) =
     (if r = Inr flag then map_option (\<lambda>m'. (m', flag)) (screen_handle (ProbeReply r) m) else None)"
| "alone_step (ToggleReply nxt r) (m, flag) =
     map_option (\<lambda>m'. (m', case r of Inr _ \<Rightarrow> nxt | Inl _ \<Rightarrow> flag)) (screen_handle (ToggleReply nxt r) m)"
| "alone_step ScreenUnmount (m, flag) = None"
| "alone_step e (m, flag) = map_option (\<lambda>m'. (m', flag)) (screen_handle e m)"

fun one_at_a_time :: "screen_event list \<Rightarrow> config_machine \<times> bool \<Rightarrow> (config_machine \<times> bool) option" where
  "one_at_a_time [] s = Some s"
| "one_at_a_time (e # es) s = (case alone_step e s of None \<Rightarrow> None | Some s' \<Rightarrow> one_at_a_time es s')"

definition switch_inv :: "config_machine \<times> bool \<Rightarrow> bool" where
  "switch_inv s =
     (case s of (m, flag) \<Rightarrow> \<not> cm_cancelled m \<and>
        (background_waits m = [ProbeWait] \<or>
         (background_waits m = [] \<and> cs_background (cm_screen m) = flag) \<or>
         (\<exists>nxt. background_waits m = [ToggleWait nxt] \<and> cs_background (cm_screen m) = nxt \<and> flag = (\<not> nxt))))"

lemma background_remove:
  "is_background w \<Longrightarrow> filter is_background (remove1 w ws) = remove1 w (filter is_background ws)"
  "filter is_background (remove1 SaveWait ws) = filter is_background ws"
  by (induction ws) (auto simp: is_background_def)

lemma is_background_simps [simp]: "is_background ProbeWait" "is_background (ToggleWait b)" "\<not> is_background SaveWait"
  by (simp_all add: is_background_def)

lemma mirror_background [simp]: "cs_background (mirror config s) = cs_background s"
  by (simp add: mirror_def split: option.split)

lemma only_background:
  "ProbeWait \<in> set ws \<Longrightarrow> filter is_background ws = vs \<Longrightarrow> ProbeWait \<in> set vs"
  "ToggleWait b \<in> set ws \<Longrightarrow> filter is_background ws = vs \<Longrightarrow> ToggleWait b \<in> set vs"
  by auto

lemma switch_step: "alone_step e s = Some t \<Longrightarrow> switch_inv s \<Longrightarrow> switch_inv t"
proof (induction e s rule: alone_step.induct)
  case (1 nxt m flag)
  then show ?case by (auto simp: switch_inv_def background_waits_def split: if_splits)
next
  case (2 r m flag)
  then show ?case
    by (auto simp: switch_inv_def background_waits_def background_remove Let_def dest: only_background split: if_splits)
next
  case (3 nxt r m flag)
  then show ?case
    by (cases r) (auto simp: switch_inv_def background_waits_def background_remove Let_def dest: only_background split: if_splits)
qed (auto simp: switch_inv_def background_waits_def background_remove Let_def split: if_splits sum.splits)

lemma switch_run: "one_at_a_time es s = Some t \<Longrightarrow> switch_inv s \<Longrightarrow> switch_inv t"
  by (induction es s rule: one_at_a_time.induct) (auto split: option.splits dest: switch_step)

section \<open>Runs of the screen\<close>

fun screen_run :: "screen_event list \<Rightarrow> config_machine \<Rightarrow> config_machine option" where
  "screen_run [] m = Some m"
| "screen_run (e # es) m = (case screen_handle e m of None \<Rightarrow> None | Some m' \<Rightarrow> screen_run es m')"

text \<open>A number a saved configuration may hold.\<close>

definition usable_number :: "jsnum \<Rightarrow> bool" where
  "usable_number x \<longleftrightarrow> num_is_finite x \<and> \<not> num_lt x (num 0)"

lemma usable_parse [simp]: "usable_number d \<Longrightarrow> usable_number (parsePositiveInt s d)"
  by (simp add: usable_number_def parsePositiveInt_def Let_def)

text \<open>The toast is shown from the first save on: no event but another save touches what decides it.\<close>

fun is_save_reply :: "screen_event \<Rightarrow> bool" where
  "is_save_reply (SaveReply now shown r) = True"
| "is_save_reply _ = False"

lemma toast_step:
  "screen_handle e m = Some m' \<Longrightarrow> \<not> is_save_reply e \<Longrightarrow> cs_savedRecently (cm_screen m') = cs_savedRecently (cm_screen m)"
proof (induction e m rule: screen_handle.induct)
  case (2 p m)
  then show ?case by (cases p) (auto split: if_splits)
qed (auto simp: mirror_def Let_def split: if_splits sum.splits option.splits)

lemma saved_toast_stays:
  "screen_run es m = Some m' \<Longrightarrow> \<forall>e\<in>set es. \<not> is_save_reply e \<Longrightarrow> cs_savedRecently (cm_screen m') = cs_savedRecently (cm_screen m)"
  by (induction es m rule: screen_run.induct) (auto split: option.splits dest: toast_step)

text \<open>
  A probe asked before a toggle and answered after it sets the switch back to what the device was,
  though the toggle has succeeded.
\<close>

lemma late_probe_overrides_toggle:
  "map_option (\<lambda>m. (cs_background (cm_screen m), last (cm_calls m), cm_waits m))
     (screen_run [Press (ToggleBackground True), ToggleReply True (Inr ()), ProbeReply (Inr False)] (ConfigScreen None)) =
   Some (False, CallEnableBackground background_options, [])"
  by (simp add: ConfigScreen_def initial_screen_def mirror_def)

text \<open>A text that is not an integer is cut at its first character that is no digit, and saved.\<close>

lemma parse_int_text:
  "parseInt ''2.5'' = num 2" "parseInt ''1e3'' = num 1" "parseInt ''30s'' = num 30"
  using dround_int [of 1] dround_int [of 2] dround_int [of 30]
  by (simp_all add: parseInt_def is_space_def digit_value_def decimal_def parse_digits_def is_digit_code)

lemma field_text_is_cut: "parsePositiveInt ''2.5'' d = num 2 \<and> parsePositiveInt ''1e3'' d = num 1 \<and> parsePositiveInt ''30s'' d = num 30"
  by (simp add: parsePositiveInt_def parse_int_text)

lemma empty_endpoint_is_replaced:
  "endpoint_of (DEFAULT_CONFIG\<lparr>opt_defaultHeaders := Some [(''endpoint'', [])]\<rparr>) = Some [] \<and>
   endpoint_of (formToConfig (configToForm (DEFAULT_CONFIG\<lparr>opt_defaultHeaders := Some [(''endpoint'', [])]\<rparr>))
     (DEFAULT_CONFIG\<lparr>opt_defaultHeaders := Some [(''endpoint'', [])]\<rparr>)) = Some DEFAULT_ENDPOINT"
  by (simp add: endpoint_of_def formToConfig_def configToForm_def nullish_def)

text \<open>An edit is one a control offers.\<close>

lemma field_count [simp]: "length (field_controls f) = 11"
  by (simp add: field_controls_def)

lemma shows_after_edit:
  "map shows_value (field_controls f) =
     [Words (f_endpoint f), Words (strategy_wire (f_syncStrategy f)), Words (f_batchSize f), Words (f_requestTimeoutMs f),
      Words (f_maxQueueSize f), Switched (f_persistQueue f), Words (f_retryMaxAttempts f), Words (f_retryBackoff f),
      Words (f_retryBaseDelayMs f), Words (f_retryMaxDelayMs f), Switched (f_retryJitter f)]"
  by (simp add: field_controls_def)

text \<open>Where an edit shows, and what it shows there.\<close>

fun edit_place :: "field_edit \<Rightarrow> nat \<times> shown_value" where
  "edit_place (EditEndpoint v) = (0, Words v)"
| "edit_place (EditStrategy v) = (1, Words v)"
| "edit_place (EditBatchSize v) = (2, Words v)"
| "edit_place (EditRequestTimeout v) = (3, Words v)"
| "edit_place (EditMaxQueueSize v) = (4, Words v)"
| "edit_place (EditPersistQueue b) = (5, Switched b)"
| "edit_place (EditMaxAttempts v) = (6, Words v)"
| "edit_place (EditBackoff v) = (7, Words v)"
| "edit_place (EditBaseDelay v) = (8, Words v)"
| "edit_place (EditMaxDelay v) = (9, Words v)"
| "edit_place (EditJitter b) = (10, Switched b)"

lemma place_bound: "fst (edit_place e) < 11"
  by (cases e) simp_all

definition offered :: "field_edit \<Rightarrow> bool" where
  "offered e = (case e of EditStrategy w \<Rightarrow> w \<in> set (map strategy_wire SYNC_STRATEGY_OPTIONS) | _ \<Rightarrow> True)"

lemma offers_place:
  assumes "i < 11" and "offers (field_controls f ! i) v = Some p"
  obtains e where "p = Edit e" "edit_place e = (i, v)" "offered e"
proof -
  have i: "i = 0 \<or> i = 1 \<or> i = 2 \<or> i = 3 \<or> i = 4 \<or> i = 5 \<or> i = 6 \<or> i = 7 \<or> i = 8 \<or> i = 9 \<or> i = 10"
    using assms(1) by presburger
  show thesis
    using i assms(2)
    by (elim disjE; cases v)
      (auto simp: field_controls_def segment_offers offered_def SYNC_STRATEGY_OPTIONS_def split: if_splits intro!: that)
qed

lemma edit_shows:
  "offered e \<Longrightarrow>
   map shows_value (field_controls (updateField e f)) = (map shows_value (field_controls f)) [fst (edit_place e) := snd (edit_place e)]"
  by (cases e) (auto simp: offered_def shows_after_edit eval_nat_numeral SYNC_STRATEGY_OPTIONS_def parse_wire_def strategy_values_def)

section \<open>Properties\<close>

text \<open>C37: the form carries a configuration without loss: saved over any base, the untouched form of a
  configuration with whole numbers up to \<open>2^53\<close> and a non-empty endpoint yields that configuration, with
  the screen's defaults for its absent parts and the base's status codes and other headers; saved on
  the screen itself it hands \<open>setConfig\<close> the very configuration shown, which is unchanged when complete.\<close>

theorem config_form_roundtrip:
  assumes "\<forall>x\<in>set (form_numbers c). whole_number x" and "endpoint_of c \<noteq> Some []"
  shows "formToConfig (configToForm c) base = (filled c)
      \<lparr>opt_retryPolicy := (opt_retryPolicy c)\<lparr>retryOnStatusCodes := retryOnStatusCodes (opt_retryPolicy base)\<rparr>,
       opt_defaultHeaders := Some (set_prop (nullish (opt_defaultHeaders base) []) ''endpoint'' (nullish (endpoint_of c) DEFAULT_ENDPOINT))\<rparr> \<and>
    screen_run [Press Save] (ConfigScreen (Some c)) =
      Some ((ConfigScreen (Some c))
        \<lparr>cm_waits := [ProbeWait, SaveWait], cm_calls := [CallIsBackgroundEnabled, CallSetConfig (filled c)]\<rparr>) \<and>
    (opt_batchSize c \<noteq> None \<and> opt_requestTimeoutMs c \<noteq> None \<and> opt_maxQueueSize c \<noteq> None \<and>
      opt_persistQueue c \<noteq> None \<and> endpoint_of c \<noteq> None \<longrightarrow> filled c = c)"
proof -
  have form: "formToConfig (configToForm c) base = (filled c)
      \<lparr>opt_retryPolicy := (opt_retryPolicy c)\<lparr>retryOnStatusCodes := retryOnStatusCodes (opt_retryPolicy base)\<rparr>,
       opt_defaultHeaders := Some (set_prop (nullish (opt_defaultHeaders base) []) ''endpoint'' (nullish (endpoint_of c) DEFAULT_ENDPOINT))\<rparr>"
    for base
    using assms
    by (cases c; cases "opt_retryPolicy c"; cases "opt_retryPolicy base")
      (auto simp: formToConfig_def configToForm_def filled_def form_numbers_def nullish_def DEFAULT_ENDPOINT_def
            split: option.splits simp del: num_string.simps)
  have "formToConfig (configToForm c) c = filled c" unfolding form by (simp add: filled_def)
  then have "screen_run [Press Save] (ConfigScreen (Some c)) =
    Some ((ConfigScreen (Some c))
      \<lparr>cm_waits := [ProbeWait, SaveWait], cm_calls := [CallIsBackgroundEnabled, CallSetConfig (filled c)]\<rparr>)"
    by (simp add: ConfigScreen_def mirror_def nullish_def)
  then show ?thesis using form [of base] filled_complete [of c] by blast
qed

theorem config_form_roundtrip_witness:
  "(let c = DEFAULT_CONFIG\<lparr>opt_batchSize := None\<rparr>
    in screen_run [Press Save] (ConfigScreen (Some c)) =
         Some ((ConfigScreen (Some c))\<lparr>cm_waits := [ProbeWait, SaveWait], cm_calls := [CallIsBackgroundEnabled, CallSetConfig (filled c)]\<rparr>)) \<and>
   formToConfig (configToForm DEFAULT_CONFIG) DEFAULT_CONFIG = DEFAULT_CONFIG \<and> filled DEFAULT_CONFIG = DEFAULT_CONFIG"
proof -
  let ?c = "DEFAULT_CONFIG\<lparr>opt_batchSize := None\<rparr>"
  have n: "\<forall>x\<in>set (form_numbers ?c). whole_number x" "\<forall>x\<in>set (form_numbers DEFAULT_CONFIG). whole_number x"
    by (simp_all add: form_numbers_def DEFAULT_CONFIG_def DEFAULT_RETRY_POLICY_def nullish_def)
  have e: "endpoint_of ?c \<noteq> Some []" "endpoint_of DEFAULT_CONFIG = Some DEFAULT_ENDPOINT" "DEFAULT_ENDPOINT \<noteq> []"
    by (simp_all add: endpoint_of_def DEFAULT_CONFIG_def DEFAULT_ENDPOINT_def)
  then have d: "endpoint_of DEFAULT_CONFIG \<noteq> Some []" by simp
  have full: "filled DEFAULT_CONFIG = DEFAULT_CONFIG"
    using config_form_roundtrip [OF n(2) d] e by (simp add: DEFAULT_CONFIG_def)
  have "formToConfig (configToForm DEFAULT_CONFIG) DEFAULT_CONFIG = DEFAULT_CONFIG"
    using conjunct1 [OF config_form_roundtrip [OF n(2) d, of DEFAULT_CONFIG]] unfolding full
    by (simp add: DEFAULT_CONFIG_def DEFAULT_RETRY_POLICY_def nullish_def endpoint_of_def DEFAULT_ENDPOINT_def)
  then show ?thesis using full config_form_roundtrip [OF n(1) e(1)] unfolding Let_def by blast
qed

text \<open>whatever is typed into the form, saving it over a configuration with finite, non-negative numbers
  yields one with finite, non-negative numbers, a non-empty endpoint, the same retryable status codes
  and the same other headers.\<close>

theorem form_config_safe:
  assumes "\<forall>x\<in>set (form_numbers base). usable_number x"
  shows "(\<forall>x\<in>set (form_numbers (formToConfig form base)). usable_number x) \<and>
    (\<exists>e. endpoint_of (formToConfig form base) = Some e \<and> e \<noteq> []) \<and>
    retryOnStatusCodes (opt_retryPolicy (formToConfig form base)) = retryOnStatusCodes (opt_retryPolicy base) \<and>
    (\<forall>h. h \<noteq> ''endpoint'' \<longrightarrow>
       map_of (the (opt_defaultHeaders (formToConfig form base))) h = map_of (nullish (opt_defaultHeaders base) []) h)"
  using assms
  by (simp add: formToConfig_def form_numbers_def nullish_def endpoint_of_def DEFAULT_ENDPOINT_def map_of_set_prop)

theorem form_config_safe_witness:
  "\<forall>x\<in>set (form_numbers (formToConfig ((configToForm DEFAULT_CONFIG)\<lparr>f_batchSize := ''-3'', f_endpoint := []\<rparr>) DEFAULT_CONFIG)).
     usable_number x"
  using form_config_safe [of DEFAULT_CONFIG "(configToForm DEFAULT_CONFIG)\<lparr>f_batchSize := ''-3'', f_endpoint := []\<rparr>"]
  by (simp add: form_numbers_def DEFAULT_CONFIG_def DEFAULT_RETRY_POLICY_def nullish_def usable_number_def)

text \<open>using an input of the form with a value makes that input show the value, and changes what no
  other input shows; an option outside a segmented control is not offered.\<close>

theorem form_fields_independent:
  assumes "i < length (field_controls f)" and "offers (field_controls f ! i) v = Some p"
  shows "\<exists>e. p = Edit e \<and> map shows_value (field_controls (updateField e f)) = (map shows_value (field_controls f))[i := v]"
proof -
  from assms have "i < 11" by simp
  from offers_place [OF this assms(2)] obtain e where "p = Edit e" "edit_place e = (i, v)" "offered e" .
  then show ?thesis using edit_shows [of e f] by auto
qed

theorem form_fields_independent_witness:
  "\<exists>e. Edit (EditBackoff ''LINEAR'') = Edit e \<and> map shows_value (field_controls (updateField e (configToForm DEFAULT_CONFIG))) =
     (map shows_value (field_controls (configToForm DEFAULT_CONFIG)))[7 := Words ''LINEAR'']"
  by (rule form_fields_independent [where i = 7 and v = "Words ''LINEAR''" and p = "Edit (EditBackoff ''LINEAR'')"])
    (simp_all add: field_controls_def segment_offers BACKOFF_OPTIONS_def)

text \<open>as long as the probe has answered with the device's registration and no background call overlaps
  another, the switch shows the registration whenever no call is in flight, failed toggles included.\<close>

theorem background_switch_follows:
  assumes "one_at_a_time es (ConfigScreen config, flag0) = Some (m, flag)" and "background_waits m = []"
  shows "cs_background (cm_screen m) = flag"
proof -
  have "switch_inv (ConfigScreen config, flag0)"
    by (simp add: switch_inv_def ConfigScreen_def background_waits_def)
  then have "switch_inv (m, flag)" using switch_run assms(1) by blast
  then show ?thesis using assms(2) by (auto simp: switch_inv_def)
qed

theorem background_switch_follows_witness:
  "\<exists>m. one_at_a_time [ProbeReply (Inr True), Press (ToggleBackground False), ToggleReply False (Inl (OtherValue JNull))]
        (ConfigScreen None, True) = Some (m, True) \<and> cs_background (cm_screen m) = True"
proof -
  obtain m where m: "one_at_a_time [ProbeReply (Inr True), Press (ToggleBackground False), ToggleReply False (Inl (OtherValue JNull))]
        (ConfigScreen None, True) = Some (m, True)" and "background_waits m = []"
    by (auto simp: ConfigScreen_def mirror_def initial_screen_def background_waits_def)
  then show ?thesis using background_switch_follows by blast
qed

end
