(* ===== verification/Example_Queue.thy ===== *)
theory Example_Queue
  imports Example_Config Queue_Hooks Config_Hooks
begin

text \<open>
  The queue screen of the example application (\<open>example/src/screens/QueueScreen.tsx\<close>) with the row
  and the badge it shows (\<open>example/src/components/SyncItemRow.tsx\<close>, \<open>ConnectionBadge.tsx\<close>): its
  handlers over the facade, and what it renders from the values of the hooks.
\<close>

section \<open>Handlers\<close>

text \<open>
  The text of \<open>JSON.stringify\<close> for the body: \<open>ts\<close> is the clock, \<open>nonce\<close> the base-36 digits of
  \<open>Math.random()\<close> and \<open>requestId\<close> an identifier, none of which needs an escape.
\<close>

definition buildRandomBody :: "jsnum \<Rightarrow> string \<Rightarrow> string \<Rightarrow> string" where
  "buildRandomBody ts nonce requestId =
     ''{\"ts\":'' @ num_string ts @ '',\"nonce\":\"'' @ nonce @ ''\",\"requestId\":\"'' @ requestId @ ''\"}''"

definition queue_endpoint :: "sync_options option \<Rightarrow> string" where
  "queue_endpoint config = nullish (case config of None \<Rightarrow> None | Some c \<Rightarrow> endpoint_of c) DEFAULT_ENDPOINT"

definition random_item :: "string \<Rightarrow> string \<Rightarrow> sync_item_input" where
  "random_item endpoint body =
     \<lparr>in_method = POST, in_url = endpoint, in_headers = None, in_body = Some body,
      in_contentType = Some ''application/json'', in_priority = Some NORMAL,
      in_metadata = Some [(''source'', ''example-app''), (''screen'', ''queue'')]\<rparr>"

text \<open>A call in a \<open>try\<close> whose \<open>catch\<close> raises an alert: the alerts shown, and the state after it.\<close>

definition alert_on ::
  "string \<Rightarrow> (thrown \<Rightarrow> jsval) \<Rightarrow> ('s, thrown, 'a) act \<Rightarrow> 's \<Rightarrow> (string \<times> jsval) list \<times> 's" where
  "alert_on title message call s =
     (case call s of (Inl err, s) \<Rightarrow> ([(title, message err)], s) | (Inr _, s) \<Rightarrow> ([], s))"

definition coded_message :: "thrown \<Rightarrow> jsval" where
  "coded_message err =
     (case err of SyncError c m _ _ \<Rightarrow> JStr (code_wire c @ '': '' @ m) | ErrorObject m \<Rightarrow> m
      | OtherValue _ \<Rightarrow> JStr ''Unknown error.'')"

definition handleEnqueue ::
  "'w native created \<Rightarrow> sync_options option \<Rightarrow> string \<Rightarrow> 'w app \<Rightarrow> (string \<times> jsval) list \<times> 'w app" where
  "handleEnqueue outcome config body =
     alert_on ''Enqueue failed'' coded_message (enqueue outcome (input_js (random_item (queue_endpoint config) body)))"

definition handleFlush :: "'w native created \<Rightarrow> 'w app \<Rightarrow> (string \<times> jsval) list \<times> 'w app" where
  "handleFlush outcome = alert_on ''Flush failed'' coded_message (flush outcome)"

text \<open>The dialog of \<open>handleClear\<close> first: only its \<open>Clear\<close> button calls the facade.\<close>

datatype dialog_button = CancelButton | ClearButton

fun handleClear :: "'w native created \<Rightarrow> dialog_button \<Rightarrow> 'w app \<Rightarrow> (string \<times> jsval) list \<times> 'w app" where
  "handleClear outcome CancelButton s = ([], s)"
| "handleClear outcome ClearButton s = alert_on ''Clear failed'' alert_message (clearQueue outcome) s"

definition handleRemove :: "'w native created \<Rightarrow> string \<Rightarrow> 'w app \<Rightarrow> (string \<times> jsval) list \<times> 'w app" where
  "handleRemove outcome i = alert_on ''Remove failed'' alert_message (removeItem outcome i)"

section \<open>The age of an item\<close>

text \<open>Division by a positive constant.\<close>

fun num_over :: "jsnum \<Rightarrow> rat \<Rightarrow> jsnum" where
  "num_over (Fin x) c = dround (x / c)"
| "num_over v c = v"

definition formatRelative :: "jsnum \<Rightarrow> jsnum \<Rightarrow> string" where
  "formatRelative timestampMs nowMs =
     (let diff = num_max (num 0) (num_sub nowMs timestampMs)
      in if num_lt diff (num 1000) then ''just now''
         else let seconds = num_floor (num_over diff 1000)
              in if num_lt seconds (num 60) then num_string seconds @ ''s ago''
                 else let minutes = num_floor (num_over seconds 60)
                      in if num_lt minutes (num 60) then num_string minutes @ ''m ago''
                         else let hours = num_floor (num_over minutes 60)
                              in if num_lt hours (num 24) then num_string hours @ ''h ago''
                                 else num_string (num_floor (num_over hours 24)) @ ''d ago'')"

text \<open>The same over whole numbers.\<close>

definition age_text :: "int \<Rightarrow> string" where
  "age_text ms =
     (if ms < 1000 then ''just now''
      else if ms < 60000 then num_string (num (ms div 1000)) @ ''s ago''
      else if ms < 3600000 then num_string (num (ms div 60000)) @ ''m ago''
      else if ms < 86400000 then num_string (num (ms div 3600000)) @ ''h ago''
      else num_string (num (ms div 86400000)) @ ''d ago'')"

text \<open>
  The quotient is rounded before it is floored. Below \<open>2^50\<close> the rounding cannot reach the next
  integer: the largest quotient below an integer \<open>k\<close> is at most \<open>k - 1/1000\<close>, and \<open>k - 2^(-10)\<close> is a
  double.
\<close>

lemma below_integer_double:
  assumes "1 \<le> k" and "k \<le> 2 ^ 43"
  shows "dround (of_int k - 1 / 1024) = Fin (of_int k - 1 / 1024)"
proof (rule dround_exact [where m = "1024 * k - 1" and e = "- 10"])
  show "of_int k - 1 / 1024 = of_int (1024 * k - 1) * (2::rat) powi - 10"
    by (simp add: power_int_def field_simps)
  have "\<bar>1024 * k - 1\<bar> \<le> 1024 * 2 ^ 43" using assms by linarith
  then show "\<bar>1024 * k - 1\<bar> \<le> 2 ^ 53" by simp
  have "\<bar>of_int k - 1 / 1024 :: rat\<bar> \<le> of_int (2 ^ 43)"
    using assms by (simp add: abs_if)
  then show "\<bar>of_int k - 1 / 1024 :: rat\<bar> < 2 ^ 1024" using big_2_1024 by simp
qed simp_all

lemma floor_over:
  assumes n: "0 \<le> n" and c: "1 < c" "c \<le> 1000" and q: "n div c < 2 ^ 43"
  shows "num_floor (num_over (num n) (of_int c)) = num (n div c)"
proof -
  let ?q = "n div c" and ?x = "of_int n / of_int c :: rat"
  have q0: "0 \<le> ?q" using n c by (simp add: pos_imp_zdiv_nonneg_iff)
  have "n = ?q * c + n mod c" "0 \<le> n mod c" "n mod c \<le> c - 1" using c by (simp_all add: pos_mod_bound zle_diff1_eq)
  then have b: "?q * c \<le> n" "n \<le> (?q + 1) * c - 1" unfolding distrib_right by linarith+
  have "of_int (?q * c) \<le> (of_int n :: rat)" using b(1) by (simp only: of_int_le_iff)
  then have low: "of_int ?q \<le> ?x" using c by (simp add: pos_le_divide_eq)
  have "of_int n \<le> (of_int ((?q + 1) * c - 1) :: rat)" using b(2) by (simp only: of_int_le_iff)
  then have "?x \<le> (of_int ((?q + 1) * c - 1) :: rat) / of_int c" using c by (intro divide_right_mono) simp_all
  also have "\<dots> = of_int (?q + 1) - 1 / of_int c" using c by (simp add: diff_divide_distrib)
  finally have "?x \<le> of_int (?q + 1) - 1 / of_int c" .
  moreover have "(of_int c :: rat) \<le> of_int 1000" using c by (simp only: of_int_le_iff)
  then have "(1 :: rat) / 1024 \<le> 1 / of_int c" using c by (intro divide_left_mono) simp_all
  ultimately have high: "?x \<le> of_int (?q + 1) - 1 / 1024" by linarith
  have "num_le (num ?q) (dround ?x)" using dround_mono [OF low] dround_int [of ?q] q q0 by simp
  moreover have "num_le (dround ?x) (Fin (of_int (?q + 1) - 1 / 1024))"
    using dround_mono [OF high] below_integer_double [of "?q + 1"] q q0 by simp
  ultimately obtain y where y: "dround ?x = Fin y" "of_int ?q \<le> y" "y \<le> of_int (?q + 1) - 1 / 1024"
    by (cases "dround ?x") auto
  then have "\<lfloor>y\<rfloor> = ?q" by (simp add: floor_eq_iff)
  then show ?thesis using y(1) by simp
qed

lemma div_small: "0 \<le> n \<Longrightarrow> n \<le> 2 ^ 50 \<Longrightarrow> 1000 dvd c \<Longrightarrow> 0 < c \<Longrightarrow> n div c < 2 ^ 42" for n c :: int
proof -
  assume n: "0 \<le> n" "n \<le> 2 ^ 50" and c: "1000 dvd c" "0 < c"
  then have "1000 \<le> c" by (simp add: zdvd_imp_le)
  then have "n div c \<le> n div 1000" using n by (simp add: zdiv_mono2)
  also have "\<dots> \<le> 2 ^ 50 div 1000" using n by (intro zdiv_mono1) simp_all
  finally show ?thesis by simp
qed

lemma div_less: "0 < c \<Longrightarrow> a div c < b \<longleftrightarrow> a < b * c" for a b c :: int
proof
  assume c: "0 < c"
  have a: "a = a div c * c + a mod c" "0 \<le> a mod c" "a mod c < c" using c by simp_all
  show "a < b * c" if "a div c < b"
  proof -
    have "(a div c + 1) * c \<le> b * c" using that c by (intro mult_right_mono) simp_all
    then show ?thesis using a unfolding distrib_right by linarith
  qed
  show "a div c < b" if "a < b * c"
  proof -
    have "a div c * c < b * c" using that a by linarith
    then show ?thesis using c by simp
  qed
qed

lemma age_steps:
  assumes d: "0 \<le> d" "d \<le> 2 ^ 50"
  shows "(if num_lt (num d) (num 1000) then ''just now''
     else if num_lt (num_floor (num_over (num d) 1000)) (num 60) then num_string (num_floor (num_over (num d) 1000)) @ ''s ago''
     else if num_lt (num_floor (num_over (num_floor (num_over (num d) 1000)) 60)) (num 60)
       then num_string (num_floor (num_over (num_floor (num_over (num d) 1000)) 60)) @ ''m ago''
     else if num_lt (num_floor (num_over (num_floor (num_over (num_floor (num_over (num d) 1000)) 60)) 60)) (num 24)
       then num_string (num_floor (num_over (num_floor (num_over (num_floor (num_over (num d) 1000)) 60)) 60)) @ ''h ago''
     else num_string (num_floor (num_over (num_floor (num_over (num_floor (num_over (num_floor (num_over (num d) 1000)) 60)) 60)) 24)) @ ''d ago'') =
    age_text d"
proof -
  have q: "d div 1000 < 2 ^ 42" "d div 60000 < 2 ^ 42" "d div 3600000 < 2 ^ 42" "d div 86400000 < 2 ^ 42"
    by (rule div_small [OF d]; simp)+
  have dd: "d div 1000 div 60 = d div 60000" "d div 60000 div 60 = d div 3600000" "d div 3600000 div 24 = d div 86400000"
    using zdiv_zmult2_eq [of 60 d 1000] zdiv_zmult2_eq [of 60 d 60000] zdiv_zmult2_eq [of 24 d 3600000] by simp_all
  have pos: "0 \<le> d div 1000" "0 \<le> d div 60000" "0 \<le> d div 3600000"
    using d by (simp_all add: pos_imp_zdiv_nonneg_iff)
  have f1: "num_floor (num_over (num d) 1000) = num (d div 1000)"
    using floor_over [of d 1000] d q(1) by simp
  have f2: "num_floor (num_over (num (d div 1000)) 60) = num (d div 60000)"
    using floor_over [of "d div 1000" 60] pos(1) q(2) unfolding dd by simp
  have f3: "num_floor (num_over (num (d div 60000)) 60) = num (d div 3600000)"
    using floor_over [of "d div 60000" 60] pos(2) q(3) unfolding dd by simp
  have f4: "num_floor (num_over (num (d div 3600000)) 24) = num (d div 86400000)"
    using floor_over [of "d div 3600000" 24] pos(3) q(4) unfolding dd by simp
  have lt: "num_lt (num a) (num b) \<longleftrightarrow> a < b" for a b by simp
  have c: "d div 1000 < 60 \<longleftrightarrow> d < 60000" "d div 60000 < 60 \<longleftrightarrow> d < 3600000" "d div 3600000 < 24 \<longleftrightarrow> d < 86400000"
    by (simp_all add: div_less)
  show ?thesis unfolding f1 f2 f3 f4 lt c age_text_def ..
qed

section \<open>What the screen shows\<close>

text \<open>\<open>ConnectionBadge\<close>: the style's name and the label.\<close>

fun badge :: "connection_status \<Rightarrow> string \<times> string" where
  "badge CONNECTED = (''badgeOnline'', ''Online'')"
| "badge METERED = (''badgeMetered'', ''Metered'')"
| "badge DISCONNECTED = (''badgeOffline'', ''Offline'')"
| "badge UNKNOWN = (''badgeUnknown'', ''Unknown'')"

definition ConnectionBadge :: "use_connection_result \<Rightarrow> string \<times> string \<times> string" where
  "ConnectionBadge r = (fst (badge (uc_status r)), snd (badge (uc_status r)), type_wire (uc_type r))"

text \<open>\<open>SyncItemRow\<close>: key, method, URL, priority, age, and the id its button removes.\<close>

record item_row =
  row_key :: string
  row_method :: string
  row_url :: string
  row_priority :: string
  row_age :: string
  row_remove :: string

definition SyncItemRow :: "jsnum \<Rightarrow> sync_item \<Rightarrow> item_row" where
  "SyncItemRow now item =
     \<lparr>row_key = item_id item, row_method = method_wire (item_method item), row_url = item_url item,
      row_priority = ''priority: '' @ nullish (map_option priority_wire (item_priority item)) ''NORMAL'',
      row_age = formatRelative (item_createdAt item) now, row_remove = item_id item\<rparr>"

text \<open>A hint shows the number of queued items.\<close>

record queue_screen =
  qs_endpoint :: string
  qs_badge :: "string \<times> string \<times> string"
  qs_flushTitle :: string
  qs_flushDisabled :: bool
  qs_size :: string
  qs_spinner :: bool
  qs_waitingHint :: "string option"
  qs_errorBanner :: "string option"
  qs_pendingTitle :: string
  qs_rows :: "item_row list"
  qs_clearButton :: bool

definition QueueScreen ::
  "jsnum \<Rightarrow> sync_options option \<Rightarrow> use_connection_result \<Rightarrow> queue_vals \<Rightarrow> status_vals \<Rightarrow>
     'w app use_offline_queue_result \<Rightarrow> queue_screen" where
  "QueueScreen now config connection queue syncStatus offline =
     \<lparr>qs_endpoint = queue_endpoint config, qs_badge = ConnectionBadge connection,
      qs_flushTitle = (if ss_isSyncing syncStatus then ''Syncing...'' else ''Force flush''),
      qs_flushDisabled = (ss_isSyncing syncStatus \<or> \<not> uc_isOnline (uo_connection offline)),
      qs_size = ''Queue size: '' @ num_string (qv_size queue), qs_spinner = qv_isLoading queue,
      qs_waitingHint = (if uo_isWaitingForConnection offline then Some (num_string (uo_size offline)) else None),
      qs_errorBanner = map_option error_text (qv_error queue),
      qs_pendingTitle = ''Pending items ('' @ show_nat (length (qv_items queue)) @ '')'',
      qs_rows = map (SyncItemRow now) (qv_items queue), qs_clearButton = (0 < length (qv_items queue))\<rparr>"

section \<open>The item the screen enqueues\<close>

lemma typed_issues:
  "collectIssuesWithCode (input_js i) = url_issues (input_js i)"
proof -
  have "method_issues (input_js i) = []" "body_issues (input_js i) = []" "contentType_issues (input_js i) = []"
    "priority_issues (input_js i) = []"
    unfolding method_issues_Nil body_issues_Nil contentType_issues_Nil priority_issues_Nil input_js_props
    by (auto split: option.split)
  moreover have "headers_issues (input_js i) = []" "metadata_issues (input_js i) = []"
    unfolding headers_issues_def metadata_issues_def record_issues_Nil input_js_props
    by (simp_all add: record_js_string_record split: option.split)
  ultimately show ?thesis by (simp add: collectIssuesWithCode_def is_object_input_js)
qed

definition url_complaint :: "string \<Rightarrow> string" where
  "url_complaint u = (if u = [] then ''SyncItemInput.url must be a non-empty string.'' else url_message u)"

lemma validate_random_item:
  "validateSyncItem (input_js (random_item u body)) =
     (if is_http_url u then Inr ()
      else Inl (SyncError INVALID_URL (url_complaint u) None (Some (map toPublicIssue (url_issues (input_js (random_item u body)))))))"
  unfolding validateSyncItem_def typed_issues
  by (auto simp: url_issues_def input_js_props random_item_def Let_def new_SyncError_def url_complaint_def is_http_url_def
      url_rest_def)

section \<open>A saved endpoint and the other tabs\<close>

text \<open>
  The application's screens live below one provider, and each has a \<open>useSyncConfig\<close> of its own. Saving
  on the configuration screen changes the native configuration and what that screen's hook shows; the
  provider reads again only on \<open>RESUMED\<close>, and a screen mounted afterwards mirrors the provider. So
  the queue screen goes on with the endpoint of the provider's options, whatever was saved.
\<close>

definition on_tab :: "sync_provider_context_value \<Rightarrow> config_props" where
  "on_tab ctx = \<lparr>cp_native = True, cp_context = ctx\<rparr>"

lemma saved_endpoint_not_used:
  fixes opts saved :: sync_options
  assumes p: "pp = \<lparr>pp_native = True, pp_options = opts, pp_backgroundSync = None\<rparr>"
  shows "\<exists>provider configTab queueTab.
    hook_run SyncProvider
      [Mount pp, Reply 0 (ProviderConfiguredReply opts (Inr ())), Reply 0 (ProviderInitialReadReply True (Inr opts)),
       SubscribeReply 0 (Inr ''p'')] (initial_hook initial_provider) = Some provider \<and>
    (let ctx = context_value (vals provider)
     in hook_run useSyncConfig
          [Mount (on_tab ctx), Act 0 (SetConfig saved), Reply 0 (ConfiguredReply saved (Inr ())),
           Reply 0 (ConfigReadReply (Inr saved))] (initial_hook (initial_config ctx)) = Some configTab \<and>
        cv_config (vals configTab) = Some saved \<and>
        hook_run useSyncConfig [Mount (on_tab ctx)] (initial_hook (initial_config ctx)) = Some queueTab \<and>
        queue_endpoint (cv_config (vals queueTab)) = queue_endpoint (Some opts) \<and> pending queueTab = [])"
  by (simp add: p provider_simps config_simps hook_run_simps initial_provider_def context_value_def on_tab_def hasProvider_def
      initial_config_def Let_def)

section \<open>The badge and the flush button\<close>

text \<open>
  The badge reads \<open>useConnection\<close>, the button \<open>useOfflineQueue\<close>. When the device goes off-line and
  the read of the new connection is rejected, the first falls back on the event's status and the
  second keeps the old one: the badge says off-line next to an enabled button.
\<close>

lemma badge_and_button_disagree:
  fixes outcome :: "nat native created" and now :: jsnum and config :: "sync_options option" and err :: thrown
  defines "online \<equiv> initial_offline\<lparr>ov_connectionStatus := CONNECTED, ov_connectionType := WIFI\<rparr>"
    and "offline \<equiv> (\<lparr>ev_type = CONNECTION_CHANGED, ev_timestamp = num 0, ev_itemId = None, ev_progress = None, ev_errorCode = None,
      ev_statusCode = None, ev_attempt = None, ev_connectionStatus = Some DISCONNECTED, ev_metadata = None\<rparr>)"
  defines "shown \<equiv> QueueScreen now config
      (fst (connection_on_reply True False (ChangedConnectionReply DISCONNECTED (Inl err)) (deriveResult CONNECTED WIFI)))
      initial_queue initial_status (offline_view outcome (fst (offline_on_reply True False (OfflineConnectionReply (Inl err)) online)))"
  shows "connection_on_event True offline (deriveResult CONNECTED WIFI) = (deriveResult CONNECTED WIFI, [ChangedConnection DISCONNECTED])"
    and "offline_on_event True offline online = (online, [OfflineConnection])"
    and "qs_badge shown = (''badgeOffline'', ''Offline'', ''WIFI'') \<and> \<not> qs_flushDisabled shown"
  by (simp_all add: offline_def connection_on_event_def offline_on_event_def QUEUE_REFRESH_EVENTS_def shown_def online_def
      QueueScreen_def offline_view_def ConnectionBadge_def deriveResult_def initial_status_def Let_def)

section \<open>Properties\<close>

text \<open>the row's age is exact: for timestamps at most \<open>2^50\<close> milliseconds apart, the floored and
  rounded quotients name the same number of seconds, minutes, hours or days as whole division of the
  difference does, and a timestamp in the future reads as \<open>just now\<close>.\<close>

theorem formatRelative_exact:
  assumes "\<bar>now - t\<bar> \<le> 2 ^ 50"
  shows "formatRelative (num t) (num now) = age_text (max 0 (now - t))"
proof -
  define d where "d = max 0 (now - t)"
  have d: "0 \<le> d" "d \<le> 2 ^ 50" using assms by (auto simp: d_def)
  have diff: "num_max (num 0) (num_sub (num now) (num t)) = num d"
    using num_sub_int [of now t] assms by (auto simp: max_def d_def)
  show ?thesis
    unfolding formatRelative_def diff Let_def d_def [symmetric] by (rule age_steps [OF d])
qed

theorem formatRelative_exact_witness:
  "formatRelative (num 1000) (num 7201000) = num_string (num 2) @ ''h ago''"
  using formatRelative_exact [of 7201000 1000] by (simp add: age_text_def del: num_string.simps)

text \<open>C39: adding an item from the queue screen hands the native module the screen's item exactly when the
  configured endpoint is an absolute http(s) URL; otherwise nothing is called and one alert names
  \<open>INVALID_URL\<close> with the reason. A failure below is one alert too, with its code.\<close>

theorem handleEnqueue_contract:
  assumes "reachable app_init app_step s"
  shows "handleEnqueue outcome config body s =
    (let u = queue_endpoint config
     in if \<not> absolute_http_url u then ([(''Enqueue failed'', JStr (''INVALID_URL: '' @ url_complaint u))], s)
        else case native_of outcome s of
               None \<Rightarrow> ([(''Enqueue failed'', coded_message unavailable_error)], resolve outcome s)
             | Some n \<Rightarrow>
                 (let (r, w) = native_enqueue n (input_js (random_item u body)) (world s)
                  in (case r of Inr _ \<Rightarrow> []
                      | Inl e \<Rightarrow> [(''Enqueue failed'', coded_message (wrapNativeError e INVALID_PAYLOAD))],
                      (resolve outcome s)\<lparr>world := w\<rparr>)))"
proof -
  have inv: "probe_inv (probe s)" by (rule app.reachable_inv [OF assms])
  have run: "enqueue outcome (input_js (random_item u body)) s =
    (if absolute_http_url u then native_call outcome INVALID_PAYLOAD (\<lambda>n. native_enqueue n (input_js (random_item u body))) id s
     else (Inl (SyncError INVALID_URL (url_complaint u) None (Some (map toPublicIssue (url_issues (input_js (random_item u body)))))), s))" for u
    by (simp add: enqueue_def bind_guard validate_random_item is_http_url_iff)
  show ?thesis
    unfolding handleEnqueue_def alert_on_def run native_call_run [OF inv] Let_def
    by (cases "native_of outcome s"; cases "fst (native_enqueue (the (native_of outcome s))
          (input_js (random_item (queue_endpoint config) body)) (world s))")
      (simp_all add: coded_message_def wrap_reply_def case_prod_unfold)
qed

theorem handleEnqueue_contract_witness:
  "fst (handleEnqueue (Created example_native) (Some (DEFAULT_CONFIG\<lparr>opt_defaultHeaders := Some [(''endpoint'', ''ftp://x'')]\<rparr>)) [] fresh_app) =
     [(''Enqueue failed'', JStr (''INVALID_URL: '' @ url_message ''ftp://x''))]"
proof -
  have "\<not> absolute_http_url ''ftp://x''" unfolding is_http_url_iff [symmetric] by code_simp
  moreover have "queue_endpoint (Some (DEFAULT_CONFIG\<lparr>opt_defaultHeaders := Some [(''endpoint'', ''ftp://x'')]\<rparr>)) = ''ftp://x''"
    by (simp add: queue_endpoint_def endpoint_of_def nullish_def)
  ultimately show ?thesis
    unfolding handleEnqueue_contract [OF reachable_fresh] by (simp add: url_complaint_def)
qed

text \<open>The endpoint typed into the configuration screen is the one the queue screen uses.\<close>

lemma default_endpoint_http: "is_http_url DEFAULT_ENDPOINT"
  by code_simp

lemma saved_endpoint: "queue_endpoint (Some (formToConfig form base)) = (if f_endpoint form = [] then DEFAULT_ENDPOINT else f_endpoint form)"
  by (simp add: queue_endpoint_def endpoint_of_def formToConfig_def nullish_def map_of_set_prop)

lemma saved_endpoint_valid:
  "is_http_url (queue_endpoint (Some (formToConfig form base))) \<longleftrightarrow> f_endpoint form = [] \<or> is_http_url (f_endpoint form)"
  using default_endpoint_http by (simp add: saved_endpoint)

text \<open>the flush button can be pressed only on a connection and with no cycle running; it is disabled
  whenever the waiting hint is shown, and the hint is shown exactly with items queued off-line.\<close>

theorem flush_button_safe:
  defines "view \<equiv> \<lambda>now config connection queue status outcome v. QueueScreen now config connection queue status (offline_view outcome v)"
  shows "\<not> qs_flushDisabled (view now config connection queue status outcome v) \<longleftrightarrow>
      \<not> ss_isSyncing status \<and> ov_connectionStatus v \<in> {CONNECTED, METERED}"
    and "qs_waitingHint (view now config connection queue status outcome v) \<noteq> None \<longleftrightarrow>
      num_lt (num 0) (ov_size v) \<and> ov_connectionStatus v \<notin> {CONNECTED, METERED}"
    and "qs_waitingHint (view now config connection queue status outcome v) \<noteq> None \<longrightarrow>
      qs_flushDisabled (view now config connection queue status outcome v)"
  by (auto simp: view_def QueueScreen_def offline_view_def Let_def)

end
