(* ===== verification/Example_History.thy ===== *)
theory Example_History
  imports Example_Queue Queue_Live Event_Hooks
begin

text \<open>
  The history screen and the root of the example application (\<open>example/src/screens/HistoryScreen.tsx\<close>,
  \<open>example/src/components/HistoryRow.tsx\<close>, \<open>example/src/App.tsx\<close>): the screen over the facade and the
  hook \<open>useSyncEvents\<close>, with its calls, its registration and its notifications in flight, the rows and
  their keys, and the tabs.
\<close>

section \<open>The history screen\<close>

definition HISTORY_LIMIT :: jsnum where
  "HISTORY_LIMIT = num 50"

definition HISTORY_EVENTS :: "sync_event_type list" where
  "HISTORY_EVENTS = [SYNC_SUCCEEDED, SYNC_FAILED, BACKGROUND_SYNC_COMPLETED]"

record history_vals =
  hv_history :: "sync_result list"
  hv_error :: "jsval option"

definition initial_history :: history_vals where
  "initial_history = \<lparr>hv_history = [], hv_error = None\<rparr>"

text \<open>
  The screen over a process, from its mount on: its calls in flight, each with the answer the native
  side has given it but whose continuation has not run, or none yet; its instance of
  \<open>useSyncEvents\<close>; the answer to the hook's registration, while the hook has not seen it; whether the
  native side has the listener; and the notifications sent to the listener but not delivered.
\<close>

datatype history_call = ReadHistory "(thrown + sync_result list) option" | ClearHistory "(thrown + unit) option"

record 'w history_screen =
  hs_app :: "'w app"
  hs_vals :: history_vals
  hs_calls :: "history_call list"
  hs_alerts :: "(string \<times> jsval) list"
  hs_events :: "(bool \<times> bool option, events_vals, events_await) hook_state"
  hs_registering :: "(thrown + string) option"
  hs_listening :: bool
  hs_notices :: "sync_event list"

text \<open>\<open>refresh\<close> up to its call; the guard asks the probe.\<close>

definition refresh_history :: "'w native created \<Rightarrow> 'w history_screen \<Rightarrow> 'w history_screen" where
  "refresh_history outcome s =
     (let (here, p) = isNativeModuleAvailable outcome (probe (hs_app s));
          s = s\<lparr>hs_app := (hs_app s)\<lparr>probe := p\<rparr>\<rparr>
      in if \<not> here then s else s\<lparr>hs_calls := hs_calls s @ [ReadHistory None]\<rparr>)"

definition handleEvent :: "'w native created \<Rightarrow> sync_event \<Rightarrow> 'w history_screen \<Rightarrow> 'w history_screen" where
  "handleEvent outcome event s =
     (if ev_type event = SYNC_SUCCEEDED \<or> ev_type event = SYNC_FAILED \<or> ev_type event = BACKGROUND_SYNC_COMPLETED
      then refresh_history outcome s else s)"

text \<open>What follows an answer: the rest of \<open>refresh\<close>, and of the dialog's \<open>Clear\<close> button.\<close>

definition show_read :: "thrown + sync_result list \<Rightarrow> history_vals \<Rightarrow> history_vals" where
  "show_read r v =
     (case r of Inr nxt \<Rightarrow> v\<lparr>hv_history := nxt, hv_error := None\<rparr> | Inl err \<Rightarrow> v\<lparr>hv_error := Some (alert_message err)\<rparr>)"

fun settle_call :: "history_call \<Rightarrow> 'w history_screen \<Rightarrow> 'w history_screen option" where
  "settle_call (ReadHistory (Some r)) s = Some (s\<lparr>hs_vals := show_read r (hs_vals s)\<rparr>)"
| "settle_call (ClearHistory (Some r)) s =
     Some (case r of
             Inr _ \<Rightarrow> s\<lparr>hs_vals := (hs_vals s)\<lparr>hv_history := []\<rparr>\<rparr>
           | Inl err \<Rightarrow> s\<lparr>hs_alerts := hs_alerts s @ [(''Clear failed'', alert_message err)]\<rparr>)"
| "settle_call _ s = None"

text \<open>The native side answers a call in its world.\<close>

fun answer_call :: "'w native created \<Rightarrow> history_call \<Rightarrow> 'w app \<Rightarrow> (history_call \<times> 'w app) option" where
  "answer_call outcome (ReadHistory None) a =
     (let (r, a) = getSyncHistory outcome (Some HISTORY_LIMIT) a in Some (ReadHistory (Some r), a))"
| "answer_call outcome (ClearHistory None) a =
     (let (r, a) = clearSyncHistory outcome a in Some (ClearHistory (Some r), a))"
| "answer_call outcome _ a = None"

text \<open>The options of \<open>useSyncEvents\<close>; its callback is \<open>handleEvent\<close>.\<close>

definition history_options :: use_sync_events_options where
  "history_options = \<lparr>ue_types = Some HISTORY_EVENTS, ue_onEvent = 0, ue_enabled = None\<rparr>"

text \<open>The effects of the mount: the initial fetch, then the effect of \<open>useSyncEvents\<close>.\<close>

definition mount_history :: "'w native created \<Rightarrow> 'w history_screen \<Rightarrow> 'w history_screen option" where
  "mount_history outcome s =
     (let s = refresh_history outcome s;
          (here, p) = isNativeModuleAvailable outcome (probe (hs_app s))
      in map_option (\<lambda>h. s\<lparr>hs_app := (hs_app s)\<lparr>probe := p\<rparr>, hs_events := h\<rparr>)
           (hook_handle useSyncEvents (Mount (here, ue_enabled history_options)) (hs_events s)))"

text \<open>A delivery runs the hook's listener; \<open>handleEvent\<close> runs for each call of the callback it makes.\<close>

definition deliver_history :: "'w native created \<Rightarrow> sync_event \<Rightarrow> 'w history_screen \<Rightarrow> 'w history_screen option" where
  "deliver_history outcome e s =
     map_option
       (\<lambda>h. fold (\<lambda>(callback, event). handleEvent outcome event)
              (drop (length (invoked (vals (hs_events s)))) (invoked (vals h))) (s\<lparr>hs_events := h\<rparr>))
       (hook_handle useSyncEvents (Deliver 0 e) (hs_events s))"

datatype 'w history_event =
    MountHistory
  | ListenHistory nat
  | SettleListenHistory
  | SyncHappens 'w "sync_event list"
  | NotifyHistory
  | ConfirmClear
  | Answer nat
  | Settle nat

text \<open>
  \<open>SyncHappens\<close> is a change of the native world with the events it emits: a listener the native side
  has by then will be notified of them, in order. \<open>ListenHistory\<close> is the native side registering the
  listener, \<open>SettleListenHistory\<close> the promise of \<open>addSyncEventListener\<close> settling later; \<open>Answer\<close> and
  \<open>Settle\<close> are the same of a call in flight. The screen mounts once.
\<close>

fun history_handle :: "'w native created \<Rightarrow> 'w history_event \<Rightarrow> 'w history_screen \<Rightarrow> 'w history_screen option" where
  "history_handle outcome MountHistory s = (if runs (hs_events s) = [] then mount_history outcome s else None)"
| "history_handle outcome (ListenHistory callback) s =
     (if (0, EventsSubscribe) \<in> set (pending (hs_events s)) \<and> hs_registering s = None then
        (let (x, a) = addSyncEventListener outcome callback (hs_app s)
         in Some (s\<lparr>hs_app := a, hs_registering := Some x,
                    hs_listening := (case x of Inr _ \<Rightarrow> True | Inl _ \<Rightarrow> hs_listening s)\<rparr>))
      else None)"
| "history_handle outcome SettleListenHistory s =
     (case hs_registering s of
        None \<Rightarrow> None
      | Some x \<Rightarrow> map_option (\<lambda>h. s\<lparr>hs_events := h, hs_registering := None\<rparr>)
                    (hook_handle useSyncEvents (SubscribeReply 0 x) (hs_events s)))"
| "history_handle outcome (SyncHappens w evs) s =
     Some (s\<lparr>hs_app := (hs_app s)\<lparr>world := w\<rparr>, hs_notices := hs_notices s @ (if hs_listening s then evs else [])\<rparr>)"
| "history_handle outcome NotifyHistory s =
     (case hs_notices s of [] \<Rightarrow> None | e # es \<Rightarrow> deliver_history outcome e (s\<lparr>hs_notices := es\<rparr>))"
| "history_handle outcome ConfirmClear s = Some (s\<lparr>hs_calls := hs_calls s @ [ClearHistory None]\<rparr>)"
| "history_handle outcome (Answer i) s =
     (if i < length (hs_calls s)
      then map_option (\<lambda>(c, a). s\<lparr>hs_calls := (hs_calls s)[i := c], hs_app := a\<rparr>)
             (answer_call outcome (hs_calls s ! i) (hs_app s))
      else None)"
| "history_handle outcome (Settle i) s =
     (if i < length (hs_calls s)
      then settle_call (hs_calls s ! i) (s\<lparr>hs_calls := take i (hs_calls s) @ drop (Suc i) (hs_calls s)\<rparr>)
      else None)"

fun history_run :: "'w native created \<Rightarrow> 'w history_event list \<Rightarrow> 'w history_screen \<Rightarrow> 'w history_screen option" where
  "history_run outcome [] s = Some s"
| "history_run outcome (e # es) s =
     (case history_handle outcome e s of None \<Rightarrow> None | Some s' \<Rightarrow> history_run outcome es s')"

definition open_history :: "'w app \<Rightarrow> 'w history_screen" where
  "open_history a =
     \<lparr>hs_app = a, hs_vals = initial_history, hs_calls = [], hs_alerts = [], hs_events = initial_hook (initial_events history_options),
      hs_registering = None, hs_listening = False, hs_notices = []\<rparr>"

section \<open>Rows\<close>

text \<open>\<open>`${item.startedAt}-${item.finishedAt}-${index}`\<close>\<close>

definition keyExtractor :: "sync_result \<Rightarrow> nat \<Rightarrow> string" where
  "keyExtractor item index = num_string (startedAt item) @ ''-'' @ num_string (finishedAt item) @ ''-'' @ show_nat index"

lemma after_last_dash: "takeWhile is_digit (rev (s @ ''-'' @ show_nat i)) = rev (show_nat i)"
  using show_nat_digits [of i] takeWhile_append2 [of "rev (show_nat i)" is_digit "CHR ''-'' # rev s"]
  by (simp add: is_digit_code [of "CHR ''-''"])

lemma keyExtractor_index: "keyExtractor r i = keyExtractor q j \<Longrightarrow> i = j"
proof -
  assume "keyExtractor r i = keyExtractor q j"
  then have "takeWhile is_digit (rev ((num_string (startedAt r) @ ''-'' @ num_string (finishedAt r)) @ ''-'' @ show_nat i)) =
    takeWhile is_digit (rev ((num_string (startedAt q) @ ''-'' @ num_string (finishedAt q)) @ ''-'' @ show_nat j))"
    by (simp only: keyExtractor_def append_assoc)
  then show "i = j" unfolding after_last_dash by (simp add: show_nat_inj)
qed

text \<open>\<open>Date.prototype.toLocaleString\<close> depends on the device's locale: it is a parameter, \<open>None\<close> where it throws.\<close>

definition formatTimestamp :: "(jsnum \<Rightarrow> string option) \<Rightarrow> jsnum \<Rightarrow> string" where
  "formatTimestamp locale timestampMs = nullish (locale timestampMs) (num_string timestampMs)"

text \<open>The last flush: its time and its two counts, which the screen joins with dots.\<close>

definition headerText :: "(jsnum \<Rightarrow> string option) \<Rightarrow> sync_result option \<Rightarrow> string list" where
  "headerText locale lastResult =
     (case lastResult of
        None \<Rightarrow> [''No flush has run in this session yet.'']
      | Some r \<Rightarrow> [''Last flush: '' @ formatTimestamp locale (finishedAt r), ''ok '' @ num_string (successCount r),
                   ''failed '' @ num_string (failureCount r)])"

record history_row =
  hr_label :: string
  hr_timestamp :: string
  hr_success :: string
  hr_failed :: string
  hr_details :: "(string \<times> string) list option"
  hr_emptyText :: bool

definition HistoryRow :: "(jsnum \<Rightarrow> string option) \<Rightarrow> sync_result \<Rightarrow> bool \<Rightarrow> history_row" where
  "HistoryRow locale r expanded =
     \<lparr>hr_label = (if expanded then ''Collapse sync result details'' else ''Expand sync result details''),
      hr_timestamp = formatTimestamp locale (finishedAt r), hr_success = ''ok '' @ num_string (successCount r),
      hr_failed = ''failed '' @ num_string (failureCount r),
      hr_details = (if expanded then Some (res_errors r) else None),
      hr_emptyText = (expanded \<and> length (res_errors r) = 0)\<rparr>"

definition toggle_row :: "nat \<Rightarrow> (nat \<Rightarrow> bool) \<Rightarrow> nat \<Rightarrow> bool" where
  "toggle_row i expanded = expanded(i := \<not> expanded i)"

record history_view =
  hw_rows :: "(string \<times> history_row) list"
  hw_header :: "string list"
  hw_errorBanner :: "jsval option"
  hw_recentTitle :: string
  hw_clearButton :: bool

text \<open>\<open>expanded\<close> is the state of the row at an index.\<close>

definition HistoryScreen ::
  "(jsnum \<Rightarrow> string option) \<Rightarrow> sync_result option \<Rightarrow> (nat \<Rightarrow> bool) \<Rightarrow> history_vals \<Rightarrow> history_view" where
  "HistoryScreen locale lastResult expanded v =
     \<lparr>hw_rows = map (\<lambda>(i, r). (keyExtractor r i, HistoryRow locale r (expanded i))) (enumerate 0 (hv_history v)),
      hw_header = headerText locale lastResult, hw_errorBanner = hv_error v,
      hw_recentTitle = ''Recent results ('' @ show_nat (length (hv_history v)) @ '')'',
      hw_clearButton = (0 < length (hv_history v))\<rparr>"

section \<open>The application\<close>

datatype screen_key = QueueTab | HistoryTab | ConfigTab

definition TABS :: "(screen_key \<times> string) list" where
  "TABS = [(QueueTab, ''Queue''), (HistoryTab, ''History''), (ConfigTab, ''Config'')]"

definition INITIAL_SYNC_OPTIONS :: sync_options where
  "INITIAL_SYNC_OPTIONS =
     \<lparr>opt_strategy = AUTOMATIC,
      opt_retryPolicy =
        \<lparr>maxAttempts = num 5, backoff = ''EXPONENTIAL'', baseDelayMs = num 1000, maxDelayMs = num 60000, jitter = True,
         retryOnStatusCodes = [num 408, num 425, num 429, num 500, num 502, num 503, num 504]\<rparr>,
      opt_batchSize = Some (num 10), opt_requestTimeoutMs = Some (num 30000), opt_maxQueueSize = Some (num 1000),
      opt_persistQueue = Some True, opt_defaultHeaders = Some [(''endpoint'', ''https://httpbin.org/post'')]\<rparr>"

text \<open>
  What \<open>App\<close> renders: the notice without the native module, else the provider with its options, the
  tabs (label, active) and one screen.
\<close>

datatype app_view =
    NativeUnavailableNotice
  | Tabs sync_options "(screen_key \<times> string \<times> bool) list" "screen_key list"

definition App :: "'h created \<Rightarrow> 'h probe \<Rightarrow> screen_key \<Rightarrow> app_view \<times> 'h probe" where
  "App outcome p currentScreen =
     (let (nativeReady, p) = isNativeModuleAvailable outcome p
      in (if \<not> nativeReady then NativeUnavailableNotice
          else Tabs INITIAL_SYNC_OPTIONS (map (\<lambda>(k, l). (k, l, currentScreen = k)) TABS)
                 (filter (\<lambda>k. currentScreen = k) [QueueTab, HistoryTab, ConfigTab]), p))"

lemma initial_options_are_defaults: "INITIAL_SYNC_OPTIONS = DEFAULT_CONFIG"
  by (simp add: INITIAL_SYNC_OPTIONS_def DEFAULT_CONFIG_def DEFAULT_RETRY_POLICY_def DEFAULT_ENDPOINT_def)

lemma one_screen: "fst (App outcome p k) = Tabs options tabs screens \<Longrightarrow> screens = [k]"
  by (cases k) (auto simp: App_def Let_def case_prod_unfold split: if_splits)

text \<open>What the configuration screen passes to \<open>useAutoSync\<close>; \<open>None\<close> are the options it leaves out.\<close>

definition auto_sync_props :: "bool \<Rightarrow> bool \<Rightarrow> auto_props" where
  "auto_sync_props native autoSyncEnabled =
     \<lparr>ap_native = native,
      ap_options =
        \<lparr>ua_enabled = Some autoSyncEnabled, ua_flushOnReconnect = Some True, ua_flushOnMetered = Some False,
         ua_flushOnForeground = None, ua_backgroundSync = None, ux_intervalMs = Some (num 60000),
         ux_flushOnAppForeground = Some True\<rparr>\<rparr>"

text \<open>The switch decides whether the hook runs; it then ticks every minute.\<close>

lemma auto_sync_switch:
  "auto_start (auto_sync_props native False) v = (v, None)"
  "auto_start (auto_sync_props True True) v = (v\<lparr>timer := Some (num 60000)\<rparr>, Some [AutoSubscribe])"
  by (simp_all add: auto_start_def auto_sync_props_def option_or_def auto_period_def)

section \<open>The history on the screen and the device\<close>

text \<open>
  A native module whose history is a function of its world: reads answer with it and change nothing,
  a successful clear leaves it empty, a failed one leaves it as it was, and so does registering a listener.
\<close>

definition history_reader :: "'w native \<Rightarrow> ('w \<Rightarrow> sync_result list) \<Rightarrow> bool" where
  "history_reader n view \<longleftrightarrow>
     (\<forall>w. native_getSyncHistory n HISTORY_LIMIT w = (Inr (view w), w)) \<and>
     (\<forall>w. view (snd (native_clearSyncHistory n w)) =
        (case fst (native_clearSyncHistory n w) of Inr _ \<Rightarrow> [] | Inl _ \<Rightarrow> view w)) \<and>
     (\<forall>k w. view (snd (native_addListener n SYNC_EVENT_CHANNEL k w)) = view w)"

fun answered :: "history_call \<Rightarrow> bool" where
  "answered (ReadHistory r) = (r \<noteq> None)"
| "answered (ClearHistory r) = (r \<noteq> None)"

text \<open>A read the native side has not answered, or a notification of a completed flush, will bring the history.\<close>

definition will_read :: "'w history_screen \<Rightarrow> bool" where
  "will_read s \<longleftrightarrow> ReadHistory None \<in> set (hs_calls s) \<or> (\<exists>e\<in>set (hs_notices s). ev_type e \<in> set HISTORY_EVENTS)"

text \<open>
  Calls are answered and settled in the order they were made, and every change of the history falls
  before an answer the screen waits for or is announced to the registered listener.
\<close>

fun orderly :: "('w \<Rightarrow> sync_result list) \<Rightarrow> 'w history_event \<Rightarrow> 'w history_screen \<Rightarrow> bool" where
  "orderly view (SyncHappens w evs) s =
     (view w = view (world (hs_app s)) \<or> will_read s \<or>
      (hs_listening s \<and> (\<exists>e\<in>set evs. ev_type e \<in> set HISTORY_EVENTS)))"
| "orderly view (Answer i) s = (\<forall>c\<in>set (take i (hs_calls s)). answered c)"
| "orderly view (Settle i) s = (i = 0)"
| "orderly view _ s = True"

fun orderly_run :: "'w native created \<Rightarrow> ('w \<Rightarrow> sync_result list) \<Rightarrow> 'w history_event list \<Rightarrow> 'w history_screen \<Rightarrow> bool" where
  "orderly_run outcome view [] s = True"
| "orderly_run outcome view (e # es) s =
     (orderly view e s \<and> (case history_handle outcome e s of None \<Rightarrow> False | Some t \<Rightarrow> orderly_run outcome view es t))"

text \<open>What the screen will show when the answers it has are settled.\<close>

fun after_answers :: "history_call list \<Rightarrow> sync_result list \<Rightarrow> sync_result list" where
  "after_answers [] h = h"
| "after_answers (ReadHistory (Some (Inr x)) # cs) h = after_answers cs x"
| "after_answers (ClearHistory (Some (Inr u)) # cs) h = after_answers cs []"
| "after_answers (c # cs) h = after_answers cs h"

lemma after_answers_append [simp]: "after_answers (xs @ ys) h = after_answers ys (after_answers xs h)"
  by (induction xs h rule: after_answers.induct) simp_all

lemma after_unanswered [simp]: "\<forall>c\<in>set us. \<not> answered c \<Longrightarrow> after_answers us h = h"
  by (induction us h rule: after_answers.induct) simp_all

fun read_fine :: "history_call \<Rightarrow> bool" where
  "read_fine (ReadHistory (Some (Inl e))) = False"
| "read_fine c = answered c"

definition in_order :: "history_call list \<Rightarrow> bool" where
  "in_order cs \<longleftrightarrow> (\<exists>as us. cs = as @ us \<and> (\<forall>c\<in>set as. read_fine c) \<and> (\<forall>c\<in>set us. \<not> answered c))"

definition history_inv :: "'w native \<Rightarrow> ('w \<Rightarrow> sync_result list) \<Rightarrow> 'w history_screen \<Rightarrow> bool" where
  "history_inv n view s \<longleftrightarrow>
     holds_native n (hs_app s) \<and> in_order (hs_calls s) \<and> hv_error (hs_vals s) = None \<and>
     (will_read s \<or> after_answers (hs_calls s) (hv_history (hs_vals s)) = view (world (hs_app s)))"

text \<open>The hook's listener, its registration and the notifications under way belong together.\<close>

definition history_links :: "'w history_screen \<Rightarrow> bool" where
  "history_links s \<longleftrightarrow>
     typesRef (vals (hs_events s)) = Some HISTORY_EVENTS \<and> runs (hs_events s) \<noteq> [] \<and>
     (hs_notices s \<noteq> [] \<longrightarrow> hs_listening s) \<and>
     (hs_registering s \<noteq> None \<longrightarrow> (0, EventsSubscribe) \<in> set (pending (hs_events s))) \<and>
     (hs_listening s \<longrightarrow> 0 \<in> snd ` set (registered (hs_events s)) \<or> (\<exists>i. hs_registering s = Some (Inr i)))"

lemma read_fine_answered: "read_fine c \<Longrightarrow> answered c"
  by (cases c rule: read_fine.cases) simp_all

lemma in_order_snoc: "in_order cs \<Longrightarrow> \<not> answered c \<Longrightarrow> in_order (cs @ [c])"
proof -
  assume "in_order cs" "\<not> answered c"
  then obtain as us where "cs = as @ us" "\<forall>c\<in>set as. read_fine c" "\<forall>c\<in>set us. \<not> answered c"
    unfolding in_order_def by blast
  with \<open>\<not> answered c\<close> show ?thesis
    unfolding in_order_def by (intro exI [of _ as] exI [of _ "us @ [c]"]) auto
qed

lemmas in_order_call [simp] = in_order_snoc [where c = "ReadHistory None", simplified] in_order_snoc [where c = "ClearHistory None", simplified]

lemma in_order_tail: "in_order (c # cs) \<Longrightarrow> in_order cs"
  unfolding in_order_def by (metis Cons_eq_append_conv list.set_intros(2) append_Nil empty_iff empty_set)

lemma holds_available: "holds_native n a \<Longrightarrow> isNativeModuleAvailable outcome (probe a) = (True, probe a)"
  by (auto simp: holds_native_def isNativeModuleAvailable_def probe_inv_def)

lemma refresh_calls:
  "holds_native n (hs_app s) \<Longrightarrow> refresh_history outcome s = s\<lparr>hs_calls := hs_calls s @ [ReadHistory None]\<rparr>"
  by (simp add: refresh_history_def holds_available)

lemma answer_read:
  "holds_native n a \<Longrightarrow> history_reader n view \<Longrightarrow>
   answer_call outcome (ReadHistory None) a = Some (ReadHistory (Some (Inr (view (world a)))), a)"
  by (simp add: getSyncHistory_def holds_call history_reader_def wrap_reply_def)

lemma answer_clear:
  assumes "holds_native n a" and "history_reader n view"
  obtains r w where "answer_call outcome (ClearHistory None) a = Some (ClearHistory (Some r), a\<lparr>world := w\<rparr>)"
    and "view w = (case r of Inr _ \<Rightarrow> [] | Inl _ \<Rightarrow> view (world a))"
proof (cases "fst (native_clearSyncHistory n (world a))")
  case (Inl e)
  then show thesis using assms that [of "Inl (wrapNativeError e INVALID_PAYLOAD)" "snd (native_clearSyncHistory n (world a))"]
    by (simp add: clearSyncHistory_def holds_call history_reader_def wrap_reply_def)
next
  case (Inr u)
  then show thesis using assms that [of "Inr u" "snd (native_clearSyncHistory n (world a))"]
    by (simp add: clearSyncHistory_def holds_call history_reader_def wrap_reply_def)
qed

lemma answer_unanswered: "answer_call outcome c a = Some x \<Longrightarrow> c = ReadHistory None \<or> c = ClearHistory None"
  by (induction outcome c a rule: answer_call.induct) auto

lemma first_unanswered:
  assumes "in_order cs" and "i < length cs" and "\<not> answered (cs ! i)" and "\<forall>c\<in>set (take i cs). answered c"
  obtains as us where "cs = as @ cs ! i # us" "length as = i" "\<forall>c\<in>set as. read_fine c" "\<forall>c\<in>set us. \<not> answered c"
proof -
  from assms(1) obtain as us where c: "cs = as @ us" "\<forall>c\<in>set as. read_fine c" "\<forall>c\<in>set us. \<not> answered c"
    unfolding in_order_def by blast
  have "\<not> i < length as" using assms(3) c read_fine_answered by (auto simp: nth_append)
  moreover have "\<not> length as < i"
  proof
    assume "length as < i"
    then have "cs ! length as \<in> set (take i cs)" "length as < length cs" using assms(2) by (auto simp: in_set_conv_nth)
    then show False using assms(4) c by (auto simp: nth_append)
  qed
  ultimately have i: "length as = i" by simp
  then have "us = cs ! i # tl us" using c(1) assms(2) by (cases us) auto
  then show thesis using that [of as "tl us"] c i by (metis list.set_intros(2))
qed

lemma will_read_simps [simp]:
  "will_read (s\<lparr>hs_vals := v\<rparr>) = will_read s" "will_read (s\<lparr>hs_app := a\<rparr>) = will_read s"
  "will_read (s\<lparr>hs_events := h\<rparr>) = will_read s" "will_read (s\<lparr>hs_alerts := al\<rparr>) = will_read s"
  by (simp_all add: will_read_def)

lemma history_answer:
  assumes inv: "history_inv n view s" and r: "history_reader n view"
    and h: "history_handle outcome (Answer i) s = Some t" and o: "orderly view (Answer i) s"
  shows "history_inv n view t"
proof -
  from h obtain c a where i: "i < length (hs_calls s)" and c: "answer_call outcome (hs_calls s ! i) (hs_app s) = Some (c, a)"
    and t: "t = s\<lparr>hs_calls := (hs_calls s)[i := c], hs_app := a\<rparr>"
    by (auto split: if_splits)
  have k: "hs_calls s ! i = ReadHistory None \<or> hs_calls s ! i = ClearHistory None" using c by (rule answer_unanswered)
  then have un: "\<not> answered (hs_calls s ! i)" by auto
  have "in_order (hs_calls s)" "\<forall>c\<in>set (take i (hs_calls s)). answered c" using inv o by (simp_all add: history_inv_def)
  from first_unanswered [OF this(1) i un this(2)] obtain as us where
    s: "hs_calls s = as @ hs_calls s ! i # us" "length as = i" and f: "\<forall>c\<in>set as. read_fine c" "\<forall>c\<in>set us. \<not> answered c" .
  have "(hs_calls s)[i := c] = as @ c # us" using s by (metis list_update_length)
  then have calls: "hs_calls t = as @ c # us" by (simp add: t)
  have ord: "in_order (hs_calls t)" if "read_fine c"
    unfolding in_order_def calls using f that by (intro exI [of _ "as @ [c]"] exI [of _ us]) auto
  have n: "holds_native n (hs_app s)" using inv by (simp add: history_inv_def)
  from k show ?thesis
  proof
    assume "hs_calls s ! i = ReadHistory None"
    then have "c = ReadHistory (Some (Inr (view (world (hs_app s)))))" "a = hs_app s" using c answer_read [OF n r] by auto
    then show ?thesis using n f ord inv unfolding history_inv_def calls by (simp add: t)
  next
    assume k: "hs_calls s ! i = ClearHistory None"
    obtain q w where q: "c = ClearHistory (Some q)" "a = (hs_app s)\<lparr>world := w\<rparr>"
        "view w = (case q of Inr _ \<Rightarrow> [] | Inl _ \<Rightarrow> view (world (hs_app s)))"
      using answer_clear [OF n r] c k by (metis option.inject prod.inject)
    have s': "hs_calls s = as @ ClearHistory None # us" using s(1) k by simp
    have "will_read t \<longleftrightarrow> will_read s" unfolding will_read_def calls s' by (simp add: t q(1))
    moreover have "will_read s \<or> after_answers as (hv_history (hs_vals s)) = view (world (hs_app s))"
      using inv f(2) by (simp add: history_inv_def s')
    ultimately show ?thesis using n f ord q inv unfolding history_inv_def calls by (auto simp: t split: sum.split)
  qed
qed

lemma history_settle:
  assumes inv: "history_inv n view s" and h: "history_handle outcome (Settle 0) s = Some t"
  shows "history_inv n view t"
proof (cases "hs_calls s")
  case Nil
  then show ?thesis using h by simp
next
  case (Cons c cs)
  have "in_order (c # cs)" using inv Cons by (simp add: history_inv_def)
  then have o: "in_order cs" "answered c \<Longrightarrow> read_fine c"
    by (rule in_order_tail) (use \<open>in_order (c # cs)\<close> in \<open>auto simp: in_order_def Cons_eq_append_conv\<close>)
  show ?thesis
  proof (cases c)
    case (ReadHistory x)
    then obtain l where "x = Some (Inr l)" using o(2) h Cons by (cases x; cases "the x") auto
    then show ?thesis using inv h Cons ReadHistory o by (auto simp: history_inv_def show_read_def will_read_def)
  next
    case (ClearHistory x)
    then obtain q where "x = Some q" using h Cons by (cases x) auto
    then show ?thesis using inv h Cons ClearHistory o by (cases q) (auto simp: history_inv_def will_read_def)
  qed
qed

text \<open>A delivery: a completed flush starts a read, other events pass the hook's filter unseen.\<close>

lemma deliver_eq:
  assumes "history_links s" and "hs_listening s"
  shows "\<exists>h. deliver_history outcome e s = Some ((if ev_type e \<in> set HISTORY_EVENTS then refresh_history outcome else id) (s\<lparr>hs_events := h\<rparr>)) \<and>
    typesRef (vals h) = typesRef (vals (hs_events s)) \<and> runs h = runs (hs_events s) \<and>
    pending h = pending (hs_events s) \<and> registered h = registered (hs_events s)"
proof -
  let ?h = "continue 0 (on_event useSyncEvents (run_props (runs (hs_events s) ! 0)) e (vals (hs_events s))) (hs_events s)"
  have "hook_handle useSyncEvents (Deliver 0 e) (hs_events s) = Some ?h"
    using assms by (auto simp: history_links_def useSyncEvents_def)
  moreover have "typesRef (vals (hs_events s)) = Some HISTORY_EVENTS" using assms(1) by (simp add: history_links_def)
  ultimately show ?thesis
    by (intro exI [of _ ?h]) (auto simp: deliver_history_def useSyncEvents_def events_on_event_def handleEvent_def HISTORY_EVENTS_def)
qed

lemma mount_eq:
  assumes "holds_native n (hs_app s)" and "runs (hs_events s) = []"
  shows "history_handle outcome MountHistory s =
    Some (s\<lparr>hs_calls := hs_calls s @ [ReadHistory None], hs_events := mount useSyncEvents (True, None) (hs_events s)\<rparr>)"
proof -
  have "\<not> mounted (hs_events s)" using assms(2) by (simp add: mounted_def)
  then show ?thesis
    using assms(2) by (simp add: mount_history_def refresh_calls [OF assms(1)] holds_available [OF assms(1)] history_options_def)
qed

lemma refresh_fields [simp]:
  "hs_events (refresh_history outcome s) = hs_events s" "hs_notices (refresh_history outcome s) = hs_notices s"
  "hs_listening (refresh_history outcome s) = hs_listening s" "hs_registering (refresh_history outcome s) = hs_registering s"
  by (simp_all add: refresh_history_def Let_def split: prod.split)

lemma settle_call_fields:
  "settle_call c s = Some t \<Longrightarrow> hs_events t = hs_events s \<and> hs_notices t = hs_notices s \<and>
     hs_listening t = hs_listening s \<and> hs_registering t = hs_registering s"
  by (induction c s rule: settle_call.induct) (auto split: sum.splits)

lemma history_links_step:
  assumes l: "history_links s" and h: "history_handle outcome e s = Some t"
  shows "history_links t"
proof (cases e)
  case MountHistory
  then show ?thesis using l h by (simp add: history_links_def)
next
  case (ListenHistory k)
  then show ?thesis using l h
    by (cases "fst (addSyncEventListener outcome k (hs_app s))") (auto simp: history_links_def case_prod_unfold split: if_splits)
next
  case SettleListenHistory
  then obtain x where x: "hs_registering s = Some x" using h by (cases "hs_registering s") auto
  have "typesRef (vals (subscribe_reply useSyncEvents 0 x (hs_events s))) = typesRef (vals (hs_events s))" by simp
  then show ?thesis using l h x SettleListenHistory
    by (cases x) (auto simp: history_links_def split: if_splits)
next
  case (SyncHappens w evs)
  then show ?thesis using l h by (auto simp: history_links_def split: if_splits)
next
  case NotifyHistory
  then obtain ev es where n: "hs_notices s = ev # es" "deliver_history outcome ev (s\<lparr>hs_notices := es\<rparr>) = Some t"
    using h by (cases "hs_notices s") auto
  have "history_links (s\<lparr>hs_notices := es\<rparr>)" "hs_listening (s\<lparr>hs_notices := es\<rparr>)" using l n(1) by (auto simp: history_links_def)
  from deliver_eq [OF this, of outcome ev] n l show ?thesis
    by (cases "ev_type ev \<in> set HISTORY_EVENTS") (auto simp: history_links_def)
next
  case ConfirmClear
  then show ?thesis using l h by (auto simp: history_links_def)
next
  case (Answer i)
  then show ?thesis using l h by (auto simp: history_links_def split: if_splits)
next
  case (Settle i)
  then show ?thesis using l h settle_call_fields [of "hs_calls s ! i" _ t] by (fastforce simp: history_links_def split: if_splits)
qed

lemma history_step:
  assumes inv: "history_inv n view s" and l: "history_links s" and r: "history_reader n view"
    and h: "history_handle outcome e s = Some t" and o: "orderly view e s"
  shows "history_inv n view t"
proof (cases e)
  case MountHistory
  then show ?thesis using l h by (simp add: history_links_def)
next
  case (ListenHistory k)
  have n: "holds_native n (hs_app s)" using inv by (simp add: history_inv_def)
  have "view (snd (native_addListener n SYNC_EVENT_CHANNEL k (world (hs_app s)))) = view (world (hs_app s))"
    using r by (simp add: history_reader_def)
  then show ?thesis using inv h ListenHistory
    by (auto simp: history_inv_def addSyncEventListener_def holds_call [OF n] will_read_def split: if_splits)
next
  case SettleListenHistory
  then show ?thesis using inv h by (auto simp: history_inv_def will_read_def split: option.splits if_splits)
next
  case (SyncHappens w evs)
  then show ?thesis using inv h o by (auto simp: history_inv_def will_read_def)
next
  case NotifyHistory
  then obtain ev es where n: "hs_notices s = ev # es" "deliver_history outcome ev (s\<lparr>hs_notices := es\<rparr>) = Some t"
    using h by (cases "hs_notices s") auto
  have "history_links (s\<lparr>hs_notices := es\<rparr>)" "hs_listening (s\<lparr>hs_notices := es\<rparr>)" using l n(1) by (auto simp: history_links_def)
  from deliver_eq [OF this, of outcome ev] n(2) obtain g where
    t: "t = (if ev_type ev \<in> set HISTORY_EVENTS then refresh_history outcome else id) (s\<lparr>hs_notices := es, hs_events := g\<rparr>)" by auto
  show ?thesis
  proof (cases "ev_type ev \<in> set HISTORY_EVENTS")
    case True
    then show ?thesis using inv t by (auto simp: history_inv_def refresh_calls will_read_def)
  next
    case False
    then have "will_read t = will_read s" using t n(1) by (auto simp: will_read_def)
    then show ?thesis using inv t False by (auto simp: history_inv_def)
  qed
next
  case ConfirmClear
  then show ?thesis using inv h by (auto simp: history_inv_def will_read_def)
next
  case (Answer i)
  then show ?thesis using history_answer [OF inv r] h o by simp
next
  case (Settle i)
  then have "e = Settle 0" using o by simp
  then show ?thesis using history_settle [OF inv] h by blast
qed

lemma history_run_inv:
  "orderly_run outcome view es s \<Longrightarrow> history_run outcome es s = Some t \<Longrightarrow> history_inv n view s \<Longrightarrow> history_links s \<Longrightarrow>
   history_reader n view \<Longrightarrow> history_inv n view t \<and> history_links t"
proof (induction es arbitrary: s)
  case (Cons e es)
  then obtain u where u: "history_handle outcome e s = Some u" "orderly view e s" "orderly_run outcome view es u" "history_run outcome es u = Some t"
    by (auto split: option.splits)
  then show ?case using Cons history_step history_links_step by blast
qed simp

text \<open>Answering, settling and notifying come to an end.\<close>

fun screen_rests :: "'w history_event \<Rightarrow> bool" where
  "screen_rests (Answer i) = True"
| "screen_rests (Settle i) = True"
| "screen_rests NotifyHistory = True"
| "screen_rests _ = False"

definition under_way :: "'w history_screen \<Rightarrow> nat" where
  "under_way s = 3 * length (hs_notices s) + sum_list (map (\<lambda>c. if answered c then 1 else 2) (hs_calls s))"

lemma settle_call_calls: "settle_call c s = Some t \<Longrightarrow> hs_calls t = hs_calls s"
  by (induction c s rule: settle_call.induct) (auto split: sum.splits)

lemma settle_answered: "answered c \<Longrightarrow> \<exists>t. settle_call c s = Some t"
  by (cases "(c, s)" rule: settle_call.cases) auto

lemma history_progress:
  assumes inv: "history_inv n view s" and l: "history_links s" and r: "history_reader n view"
    and w: "hs_calls s \<noteq> [] \<or> hs_notices s \<noteq> []"
  shows "\<exists>e t. screen_rests e \<and> orderly view e s \<and> history_handle outcome e s = Some t \<and> under_way t < under_way s"
proof (cases "hs_notices s")
  case (Cons ev es)
  then have "history_links (s\<lparr>hs_notices := es\<rparr>)" "hs_listening (s\<lparr>hs_notices := es\<rparr>)" using l by (auto simp: history_links_def)
  from deliver_eq [OF this, of outcome ev] obtain g where
    t: "deliver_history outcome ev (s\<lparr>hs_notices := es\<rparr>) =
      Some ((if ev_type ev \<in> set HISTORY_EVENTS then refresh_history outcome else id) (s\<lparr>hs_notices := es, hs_events := g\<rparr>))" by auto
  have "holds_native n (hs_app s)" using inv by (simp add: history_inv_def)
  then have "under_way (refresh_history outcome (s\<lparr>hs_notices := es, hs_events := g\<rparr>)) < under_way s"
    using Cons by (simp add: refresh_calls under_way_def)
  moreover have "under_way (s\<lparr>hs_notices := es, hs_events := g\<rparr>) < under_way s" using Cons by (simp add: under_way_def)
  ultimately show ?thesis using Cons t by (intro exI [of _ NotifyHistory]) simp
next
  case Nil
  then obtain c cs where c: "hs_calls s = c # cs" using w by (cases "hs_calls s") auto
  have n: "holds_native n (hs_app s)" using inv by (simp add: history_inv_def)
  show ?thesis
  proof (cases "answered c")
    case True
    obtain t where "settle_call c (s\<lparr>hs_calls := cs\<rparr>) = Some t" using settle_answered [OF True] by blast
    moreover from this have "under_way t < under_way s"
      using settle_call_calls settle_call_fields Nil c True by (fastforce simp: under_way_def)
    ultimately show ?thesis using c by (intro exI [of _ "Settle 0"]) simp
  next
    case False
    then have "\<exists>d a. answer_call outcome c (hs_app s) = Some (d, a) \<and> answered d"
      using answer_read [OF n r, of outcome] answer_clear [OF n r, of outcome] by (cases c) (metis answered.simps option.distinct(1))+
    then obtain d a where "answer_call outcome c (hs_app s) = Some (d, a)" "answered d" by blast
    then show ?thesis using c Nil False
      by (intro exI [of _ "Answer 0"] exI [of _ "s\<lparr>hs_calls := d # cs, hs_app := a\<rparr>"]) (simp add: under_way_def)
  qed
qed

lemma history_settles:
  assumes "history_inv n view s" and "history_links s" and "history_reader n view"
  shows "\<exists>es t. history_run outcome es s = Some t \<and> (\<forall>e\<in>set es. screen_rests e) \<and> orderly_run outcome view es s \<and>
    hs_calls t = [] \<and> hs_notices t = []"
  using assms
proof (induction "under_way s" arbitrary: s rule: less_induct)
  case less
  show ?case
  proof (cases "hs_calls s \<noteq> [] \<or> hs_notices s \<noteq> []")
    case True
    from history_progress [OF less.prems True, of outcome] obtain e u where
      u: "screen_rests e" "orderly view e s" "history_handle outcome e s = Some u" "under_way u < under_way s" by blast
    from less.hyps [OF u(4) history_step [OF less.prems u(3,2)] history_links_step [OF less.prems(2) u(3)] less.prems(3)]
    obtain es t where "history_run outcome es u = Some t" "\<forall>e\<in>set es. screen_rests e" "orderly_run outcome view es u"
      "hs_calls t = []" "hs_notices t = []" by blast
    then show ?thesis using u by (intro exI [of _ "e # es"] exI [of _ t]) simp
  next
    case False
    then show ?thesis by (intro exI [of _ "[]"] exI [of _ s]) simp
  qed
qed

lemma mount_inv:
  assumes "holds_native n a" and "history_handle outcome MountHistory (open_history a) = Some u"
  shows "history_inv n view u \<and> history_links u"
proof -
  have u: "u = (open_history a)\<lparr>hs_calls := [ReadHistory None], hs_events := mount useSyncEvents (True, None) (hs_events (open_history a))\<rparr>"
    using assms(2) mount_eq [of n "open_history a" outcome] assms(1) by (simp add: open_history_def)
  have "in_order [ReadHistory None]"
    unfolding in_order_def by (intro exI [of _ "[]"] exI [of _ "[ReadHistory None]"]) simp
  then show ?thesis using assms(1)
    by (simp add: u history_inv_def history_links_def will_read_def open_history_def initial_events_def history_options_def
        initial_history_def useSyncEvents_def events_start_def)
qed

section \<open>Properties\<close>

text \<open>C38: the history screen catches up with the device, through the awaited registration of its listener and
  with notifications under way. After the mount, over a native module that answers reads with its history,
  as long as calls are answered and settled in the order they were made and every change of the
  history falls before a read the screen still waits for or is announced to the registered listener:
  whenever no call and no notification is under way the list shown is the device's history, without
  an error; and from any moment on answering, settling and notifying comes to an end, and then the
  list shown is the device's history, whatever flushes, clears and failed clears happened before.\<close>

theorem history_catches_up:
  assumes "holds_native n a" and "history_reader n view" and "history_handle outcome MountHistory (open_history a) = Some u"
    and "history_run outcome es u = Some s" and "orderly_run outcome view es u"
  shows "(hs_calls s = [] \<and> hs_notices s = [] \<longrightarrow>
      hv_history (hs_vals s) = view (world (hs_app s)) \<and> hv_error (hs_vals s) = None) \<and>
    (\<exists>es' t. history_run outcome es' s = Some t \<and> (\<forall>e\<in>set es'. screen_rests e) \<and> hs_calls t = [] \<and> hs_notices t = [] \<and>
      hv_history (hs_vals t) = view (world (hs_app t)) \<and> hv_error (hs_vals t) = None)"
proof -
  have shown: "hv_history (hs_vals t) = view (world (hs_app t)) \<and> hv_error (hs_vals t) = None"
    if "history_inv n view t" "hs_calls t = []" "hs_notices t = []" for t
    using that by (simp add: history_inv_def will_read_def)
  have s: "history_inv n view s \<and> history_links s"
    using history_run_inv [OF assms(5,4) _ _ assms(2)] mount_inv [OF assms(1,3)] by blast
  obtain es' t where t: "history_run outcome es' s = Some t" "\<forall>e\<in>set es'. screen_rests e" "orderly_run outcome view es' s"
      "hs_calls t = []" "hs_notices t = []"
    using history_settles [of n view s outcome] s assms(2) by blast
  then have "history_inv n view t" using history_run_inv [OF t(3,1) _ _ assms(2)] s by blast
  then show ?thesis using shown s t by blast
qed

text \<open>A device whose world is its history.\<close>

definition result_at :: "int \<Rightarrow> sync_result" where
  "result_at k =
     \<lparr>startedAt = num k, finishedAt = num k, successCount = num 0, failureCount = num 0, succeededIds = [], failedIds = [],
      res_errors = []\<rparr>"

text \<open>A history module over any base module, and a process that holds it.\<close>

definition history_native :: "sync_result list native" where
  "history_native =
     \<lparr>native_enqueue = \<lambda>_ w. (Inr [], w), native_enqueueBatch = \<lambda>_ w. (Inr [], w), native_removeItem = \<lambda>_ w. (Inr True, w),
      native_clearQueue = \<lambda>w. (Inr (), w), native_getQueueSize = \<lambda>w. (Inr (num 0), w),
      native_getPendingItems = \<lambda>w. (Inr [], w), native_flush = \<lambda>w. (Inr (result_at 1), result_at 1 # w),
      native_pauseSync = \<lambda>w. (Inr (), w), native_resumeSync = \<lambda>w. (Inr (), w), native_isSyncing = \<lambda>w. (Inr False, w),
      native_configureSync = \<lambda>_ w. (Inr (), w), native_getSyncConfig = \<lambda>w. (Inr DEFAULT_CONFIG, w),
      native_getLastSyncResult = \<lambda>w. (Inr (result_at 0), w), native_getSyncHistory = \<lambda>_ w. (Inr w, w),
      native_clearSyncHistory = \<lambda>w. (Inr (), []),
      native_getConnectionStatus = \<lambda>w. (Inl (OtherValue JNull), w), native_enableBackgroundSync = \<lambda>_ w. (Inr (), w),
      native_disableBackgroundSync = \<lambda>w. (Inr (), w), native_isBackgroundSyncEnabled = \<lambda>w. (Inr False, w),
      native_addListener = \<lambda>_ _ w. (Inr [], w), native_removeListener = \<lambda>_ _ w. (Inr (), w)\<rparr>"

definition history_app :: "sync_result list app" where
  "history_app =
     \<lparr>probe = \<lparr>cachedHybrid = Created history_native, resolved = True, available = True, constructed = 1\<rparr>, world = []\<rparr>"

definition success_event :: sync_event where
  "success_event =
     \<lparr>ev_type = SYNC_SUCCEEDED, ev_timestamp = num 0, ev_itemId = None, ev_progress = None, ev_errorCode = None,
      ev_statusCode = None, ev_attempt = None, ev_connectionStatus = None, ev_metadata = None\<rparr>"

lemma history_app_holds: "holds_native history_native history_app"
  by (simp add: holds_native_def history_app_def probe_inv_def)

lemma history_native_reader: "history_reader history_native id"
  by (simp add: history_reader_def history_native_def)

lemma history_app_calls:
  "isNativeModuleAvailable outcome (probe history_app) = (True, probe history_app)"
  "answer_call outcome (ReadHistory None) (history_app\<lparr>world := w\<rparr>) = Some (ReadHistory (Some (Inr w)), history_app\<lparr>world := w\<rparr>)"
  "answer_call outcome (ClearHistory None) (history_app\<lparr>world := w\<rparr>) = Some (ClearHistory (Some (Inr ())), history_app\<lparr>world := []\<rparr>)"
  "addSyncEventListener outcome k (history_app\<lparr>world := w\<rparr>) = (Inr [], history_app\<lparr>world := w\<rparr>)"
proof -
  have n: "holds_native history_native (history_app\<lparr>world := w\<rparr>)" using history_app_holds by simp
  show "isNativeModuleAvailable outcome (probe history_app) = (True, probe history_app)"
    by (rule holds_available [OF history_app_holds])
  show "answer_call outcome (ReadHistory None) (history_app\<lparr>world := w\<rparr>) = Some (ReadHistory (Some (Inr w)), history_app\<lparr>world := w\<rparr>)"
    using answer_read [OF n history_native_reader] by simp
  show "answer_call outcome (ClearHistory None) (history_app\<lparr>world := w\<rparr>) = Some (ClearHistory (Some (Inr ())), history_app\<lparr>world := []\<rparr>)"
    by (simp add: clearSyncHistory_def holds_call [OF n] wrap_reply_def) (simp add: history_native_def)
  show "addSyncEventListener outcome k (history_app\<lparr>world := w\<rparr>) = (Inr [], history_app\<lparr>world := w\<rparr>)"
    by (simp add: addSyncEventListener_def holds_call [OF n] wrap_reply_def) (simp add: history_native_def)
qed

lemmas history_run_simps =
  history_app_calls mount_history_def refresh_history_def deliver_history_def handleEvent_def show_read_def initial_history_def
  open_history_def useSyncEvents_def events_start_def events_on_event_def events_subscribed_def initial_events_def
  history_options_def HISTORY_EVENTS_def success_event_def

text \<open>
  Out of order, an old answer wins: a read answered before a clear and settled after it puts the
  cleared results back on the screen.
\<close>

lemma history_stale_read_wins:
  "\<exists>t. history_run outcome [MountHistory, ConfirmClear, Answer 0, Answer 1, Settle 1, Settle 0]
         (open_history (history_app\<lparr>world := [result_at 1]\<rparr>)) = Some t \<and>
       hs_calls t = [] \<and> hv_history (hs_vals t) = [result_at 1] \<and> world (hs_app t) = []"
  by (simp add: history_run_simps del: answer_call.simps)

text \<open>
  The first read is answered, a flush completes before the listener is registered, and nothing is in
  flight: the screen shows the old history until the next completed flush.
\<close>

lemma history_missed_change:
  "\<exists>t. history_run outcome [MountHistory, Answer 0, Settle 0, SyncHappens [result_at 1] [success_event], ListenHistory 0,
         SettleListenHistory] (open_history (history_app\<lparr>world := []\<rparr>)) = Some t \<and>
       hs_calls t = [] \<and> hs_notices t = [] \<and> hs_listening t \<and> hv_history (hs_vals t) = [] \<and> world (hs_app t) = [result_at 1]"
  by (simp add: history_run_simps del: answer_call.simps)

text \<open>the rows of the history have pairwise different keys, even when results have equal timestamps.\<close>

theorem row_keys_distinct: "distinct (map fst (hw_rows (HistoryScreen locale lastResult expanded v)))"
proof -
  have "map fst (hw_rows (HistoryScreen locale lastResult expanded v)) = map (\<lambda>(i, r). keyExtractor r i) (enumerate 0 (hv_history v))"
    by (simp add: HistoryScreen_def case_prod_unfold comp_def)
  moreover have "inj_on (\<lambda>(i, r). keyExtractor r i) (set (enumerate 0 (hv_history v)))"
    by (auto simp: inj_on_def in_set_enumerate_eq dest: keyExtractor_index)
  ultimately show ?thesis by (simp add: distinct_map)
qed

definition history_events :: "sync_result list history_event list" where
  "history_events =
     [ListenHistory 0, Answer 0, SyncHappens [result_at 1] [success_event], SettleListenHistory, Settle 0, NotifyHistory, ConfirmClear, Answer 0]"

lemma history_events_run:
  "\<exists>u s. history_handle (Created history_native) MountHistory (open_history (history_app\<lparr>world := []\<rparr>)) = Some u \<and>
     history_run (Created history_native) history_events u = Some s \<and> orderly_run (Created history_native) id history_events u \<and>
     hs_calls s = [ReadHistory (Some (Inr [result_at 1])), ClearHistory None]"
  by (simp add: history_events_def history_run_simps will_read_def del: answer_call.simps)

theorem history_catches_up_witness:
  "\<exists>s es' t. history_run (Created history_native) (MountHistory # history_events) (open_history (history_app\<lparr>world := []\<rparr>)) = Some s \<and>
     history_run (Created history_native) es' s = Some t \<and> hs_calls t = [] \<and> hv_history (hs_vals t) = world (hs_app t)"
proof -
  obtain u s where u: "history_handle (Created history_native) MountHistory (open_history (history_app\<lparr>world := []\<rparr>)) = Some u"
      "history_run (Created history_native) history_events u = Some s" "orderly_run (Created history_native) id history_events u"
    using history_events_run by blast
  have "holds_native history_native (history_app\<lparr>world := []\<rparr>)" using history_app_holds by simp
  from history_catches_up [OF this history_native_reader u] u(1,2) show ?thesis by auto
qed

end
