(* ===== verification/Ci_Scripts.thy ===== *)
theory Ci_Scripts
  imports Number_Text
begin

text \<open>
  The two scripts of the continuous integration (\<open>.github/scripts\<close>): \<open>pick-ios-simulator.mjs\<close>, which
  chooses the simulator of the iOS tests, and \<open>assert-pack-contents.mjs\<close>, which checks the files of
  the npm package.
\<close>

section \<open>Regular expressions\<close>

definition after_prefix :: "string \<Rightarrow> string \<Rightarrow> string option" where
  "after_prefix p s = (if take (length p) s = p then Some (drop (length p) s) else None)"

text \<open>\<open>exec\<close> of an expression that is not anchored at the start: the leftmost match.\<close>

fun exec_at :: "(string \<Rightarrow> 'a option) \<Rightarrow> string \<Rightarrow> 'a option" where
  "exec_at here [] = here []"
| "exec_at here (c # s) = (case here (c # s) of Some m \<Rightarrow> Some m | None \<Rightarrow> exec_at here s)"

text \<open>\<open>\d+\<close>: its digits and the rest; a longer match cannot leave a digit behind.\<close>

definition digits_then :: "string \<Rightarrow> (string \<times> string) option" where
  "digits_then s = (let d = takeWhile is_digit s in if d = [] then None else Some (d, dropWhile is_digit s))"

section \<open>pick-ios-simulator.mjs\<close>

record simulator =
  sim_name :: string
  sim_udid :: string

text \<open>\<open>/\.iOS-(\d+)-(\d+)(?:-(\d+))?$/\<close> at a position: its three groups.\<close>

definition RUNTIME :: "string \<Rightarrow> string option list option" where
  "RUNTIME s =
     (case after_prefix ''.iOS-'' s of
        None \<Rightarrow> None
      | Some r \<Rightarrow>
          (case digits_then r of
             Some (a, CHR ''-'' # r) \<Rightarrow>
               (case digits_then r of
                  Some (b, []) \<Rightarrow> Some [Some a, Some b, None]
                | Some (b, CHR ''-'' # r) \<Rightarrow>
                    (case digits_then r of Some (c, []) \<Rightarrow> Some [Some a, Some b, Some c] | _ \<Rightarrow> None)
                | _ \<Rightarrow> None)
           | _ \<Rightarrow> None))"

definition version_part :: "string option \<Rightarrow> jsnum" where
  "version_part part = (case part of None \<Rightarrow> num 0 | Some d \<Rightarrow> dround (of_nat (decimal d)))"

type_synonym runtime = "jsnum list \<times> simulator list"

text \<open>\<open>Object.entries(devices)\<close> is a list of keys with their simulators.\<close>

definition matching_runtimes :: "(string \<times> simulator list) list \<Rightarrow> runtime list" where
  "matching_runtimes devices =
     concat (map (\<lambda>(key, sims). case exec_at RUNTIME key of Some m \<Rightarrow> [(map version_part m, sims)] | None \<Rightarrow> []) devices)"

text \<open>\<open>order || b.version[i] - part\<close>: a number is falsy when it is zero or \<open>NaN\<close>.\<close>

definition truthy :: "jsnum \<Rightarrow> bool" where
  "truthy x \<longleftrightarrow> x \<noteq> NaN \<and> x \<noteq> num 0"

definition compare_versions :: "jsnum list \<Rightarrow> jsnum list \<Rightarrow> jsnum" where
  "compare_versions a b = foldl (\<lambda>order (part, other). if truthy order then order else num_sub other part) (num 0) (zip a b)"

text \<open>
  \<open>Array.prototype.sort\<close> with a comparison function is a stable sort: an element goes before another
  unless the comparison is positive.
\<close>

fun js_insert :: "('a \<Rightarrow> 'a \<Rightarrow> jsnum) \<Rightarrow> 'a \<Rightarrow> 'a list \<Rightarrow> 'a list" where
  "js_insert cmp x [] = [x]"
| "js_insert cmp x (y # ys) = (if num_lt (num 0) (cmp x y) then y # js_insert cmp x ys else x # y # ys)"

definition js_sort :: "('a \<Rightarrow> 'a \<Rightarrow> jsnum) \<Rightarrow> 'a list \<Rightarrow> 'a list" where
  "js_sort cmp xs = foldr (js_insert cmp) xs []"

definition runtimes :: "(string \<times> simulator list) list \<Rightarrow> runtime list" where
  "runtimes devices = js_sort (\<lambda>a b. compare_versions (fst a) (fst b)) (matching_runtimes devices)"

text \<open>\<open>localeCompare\<close> depends on the collation of the machine: it is a parameter.\<close>

definition is_iPhone :: "simulator \<Rightarrow> bool" where
  "is_iPhone s \<longleftrightarrow> after_prefix ''iPhone '' (sim_name s) \<noteq> None"

definition iPhones :: "(string \<Rightarrow> string \<Rightarrow> jsnum) \<Rightarrow> simulator list \<Rightarrow> simulator list" where
  "iPhones localeCompare sims = js_sort (\<lambda>a b. localeCompare (sim_name a) (sim_name b)) (filter is_iPhone sims)"

definition chosen :: "string list \<Rightarrow> simulator list \<Rightarrow> simulator option" where
  "chosen preferred phones =
     (case find (\<lambda>p. p \<noteq> None) (map (\<lambda>wanted. find (\<lambda>s. sim_name s = wanted) phones) preferred) of
        Some p \<Rightarrow> p
      | None \<Rightarrow> (case phones of [] \<Rightarrow> None | p # _ \<Rightarrow> Some p))"

datatype pick_outcome = Testing "jsnum list" simulator | NoSimulator "string list"

fun pick_from :: "(string \<Rightarrow> string \<Rightarrow> jsnum) \<Rightarrow> string list \<Rightarrow> runtime list \<Rightarrow> string list \<Rightarrow> pick_outcome" where
  "pick_from localeCompare preferred [] keys = NoSimulator keys"
| "pick_from localeCompare preferred ((version, sims) # rest) keys =
     (case chosen preferred (iPhones localeCompare sims) of
        Some s \<Rightarrow> Testing version s
      | None \<Rightarrow> pick_from localeCompare preferred rest keys)"

definition pick_ios_simulator ::
  "(string \<Rightarrow> string \<Rightarrow> jsnum) \<Rightarrow> string list \<Rightarrow> (string \<times> simulator list) list \<Rightarrow> pick_outcome" where
  "pick_ios_simulator localeCompare preferred devices =
     pick_from localeCompare preferred (runtimes devices) (map fst devices)"

section \<open>Sorting with a comparison function\<close>

text \<open>What a comparison must satisfy on the elements at hand for the sort to order them.\<close>

locale js_order =
  fixes cmp :: "'a \<Rightarrow> 'a \<Rightarrow> jsnum" and ok :: "'a \<Rightarrow> bool"
  assumes asym: "ok x \<Longrightarrow> ok y \<Longrightarrow> num_lt (num 0) (cmp x y) \<Longrightarrow> \<not> num_lt (num 0) (cmp y x)"
    and trans: "ok x \<Longrightarrow> ok y \<Longrightarrow> ok z \<Longrightarrow> \<not> num_lt (num 0) (cmp x y) \<Longrightarrow> \<not> num_lt (num 0) (cmp y z) \<Longrightarrow>
      \<not> num_lt (num 0) (cmp x z)"
begin

lemma insert_sorted:
  assumes "ok x" and "\<forall>y\<in>set ys. ok y" and "sorted_wrt (\<lambda>a b. \<not> num_lt (num 0) (cmp a b)) ys"
  shows "sorted_wrt (\<lambda>a b. \<not> num_lt (num 0) (cmp a b)) (js_insert cmp x ys)"
  using assms
proof (induction ys)
  case (Cons y ys)
  have set: "set (js_insert cmp x zs) = insert x (set zs)" for zs by (induction zs) auto
  show ?case
  proof (cases "num_lt (num 0) (cmp x y)")
    case True
    then show ?thesis using Cons asym [of x y] by (auto simp: set simp del: num_lt.simps)
  next
    case False
    then show ?thesis using Cons.prems trans [of x y] by (auto simp del: num_lt.simps)
  qed
qed simp

end

lemma set_js_insert [simp]: "set (js_insert cmp x ys) = insert x (set ys)"
  by (induction ys) auto

lemma set_js_sort [simp]: "set (js_sort cmp xs) = set xs"
  unfolding js_sort_def by (induction xs) auto

context js_order begin

lemma sort_sorted: "\<forall>x\<in>set xs. ok x \<Longrightarrow> sorted_wrt (\<lambda>a b. \<not> num_lt (num 0) (cmp a b)) (js_sort cmp xs)"
proof (induction xs)
  case (Cons x xs)
  have "js_sort cmp (x # xs) = js_insert cmp x (js_sort cmp xs)" by (simp add: js_sort_def)
  then show ?case using insert_sorted [of x "js_sort cmp xs"] Cons by simp
qed (simp add: js_sort_def)

end

section \<open>The order of versions\<close>

fun older :: "jsnum list \<Rightarrow> jsnum list \<Rightarrow> bool" where
  "older (x # xs) (y # ys) = (num_lt x y \<or> x = y \<and> older xs ys)"
| "older _ _ = False"

lemma compare_decided: "truthy d \<Longrightarrow> foldl (\<lambda>order (part, other). if truthy order then order else num_sub other part) d ps = d"
  by (induction ps) auto

lemma compare_older:
  assumes "length a = length b" and "\<forall>x\<in>set a. whole_number x" and "\<forall>x\<in>set b. whole_number x"
  shows "num_lt (num 0) (compare_versions a b) \<longleftrightarrow> older a b"
  using assms
proof (induction a b rule: list_induct2)
  case (Cons x xs y ys)
  obtain i j where x: "x = num i" "0 \<le> i" "i \<le> 2 ^ 53" and y: "y = num j" "0 \<le> j" "j \<le> 2 ^ 53"
    using Cons.prems unfolding whole_number_def by (metis list.set_intros(1))
  have d: "num_sub y x = num (j - i)" using num_sub_int [of j i] x y by simp
  have first: "compare_versions (x # xs) (y # ys) =
      foldl (\<lambda>order (part, other). if truthy order then order else num_sub other part) (num (j - i)) (zip xs ys)"
    using d by (simp add: compare_versions_def truthy_def)
  show ?case
  proof (cases "i = j")
    case True
    then have "compare_versions (x # xs) (y # ys) = compare_versions xs ys" using first by (simp add: compare_versions_def)
    then show ?thesis using Cons True x y by simp
  next
    case False
    then have "truthy (num (j - i))" by (simp add: truthy_def)
    then have "compare_versions (x # xs) (y # ys) = num (j - i)" using first by (simp only: compare_decided)
    then have "num_lt (num 0) (compare_versions (x # xs) (y # ys)) \<longleftrightarrow> i < j" by simp
    then show ?thesis using False x(1) y(1) by simp
  qed
qed (simp add: compare_versions_def)

definition version_ok :: "jsnum list \<Rightarrow> bool" where
  "version_ok v \<longleftrightarrow> length v = 3 \<and> (\<forall>p\<in>set v. whole_number p)"

lemma version_okE:
  assumes "version_ok v"
  obtains i j k where "v = [num i, num j, num k]"
proof -
  from assms obtain a b c where v: "v = [a, b, c]"
    by (auto simp: version_ok_def numeral_3_eq_3 length_Suc_conv)
  with assms show thesis using that unfolding version_ok_def whole_number_def by auto
qed

lemma compare_ok: "version_ok a \<Longrightarrow> version_ok b \<Longrightarrow> num_lt (num 0) (compare_versions a b) \<longleftrightarrow> older a b"
  by (rule compare_older) (simp_all add: version_ok_def)

lemma older_asym: "version_ok a \<Longrightarrow> version_ok b \<Longrightarrow> older a b \<Longrightarrow> \<not> older b a"
  by (elim version_okE) auto

lemma older_trans: "version_ok a \<Longrightarrow> version_ok b \<Longrightarrow> version_ok c \<Longrightarrow> \<not> older a b \<Longrightarrow> \<not> older b c \<Longrightarrow> \<not> older a c"
  by (elim version_okE) auto

interpretation versions: js_order "\<lambda>a b. compare_versions (fst a) (fst b)" "\<lambda>r. version_ok (fst r)"
proof unfold_locales
  fix x y z :: "jsnum list \<times> 'a"
  assume x: "version_ok (fst x)" and y: "version_ok (fst y)"
  show "\<not> num_lt (num 0) (compare_versions (fst y) (fst x))" if "num_lt (num 0) (compare_versions (fst x) (fst y))"
    using that x y older_asym unfolding compare_ok [OF x y] compare_ok [OF y x] by blast
  assume z: "version_ok (fst z)"
  show "\<not> num_lt (num 0) (compare_versions (fst x) (fst z))"
    if "\<not> num_lt (num 0) (compare_versions (fst x) (fst y))" "\<not> num_lt (num 0) (compare_versions (fst y) (fst z))"
    using that older_trans [OF x y z] unfolding compare_ok [OF x y] compare_ok [OF y z] compare_ok [OF x z] by blast
qed

lemma RUNTIME_groups: "RUNTIME s = Some m \<Longrightarrow> length m = 3"
  by (auto simp: RUNTIME_def split: option.splits list.splits char.splits bool.splits prod.splits)

lemma exec_at_some: "exec_at here s = Some m \<Longrightarrow> \<exists>t. here t = Some m"
  by (induction s) (auto split: option.splits)

lemma runtime_versions: "(v, sims) \<in> set (matching_runtimes devices) \<Longrightarrow> length v = 3"
  by (auto simp: matching_runtimes_def split: option.splits dest!: exec_at_some [OF sym] dest: RUNTIME_groups)

section \<open>The choice\<close>

lemma chosen_None: "chosen preferred phones = None \<longleftrightarrow> phones = []"
proof
  show "phones = []" if "chosen preferred phones = None"
    using that by (auto simp: chosen_def find_Some_iff split: option.splits list.splits)
  have "find (\<lambda>p. p \<noteq> None) (map (\<lambda>wanted. find (\<lambda>s. sim_name s = wanted) ([] :: simulator list)) preferred) = None"
    by (induction preferred) simp_all
  then show "chosen preferred phones = None" if "phones = []" using that by (simp add: chosen_def)
qed

lemma chosen_in: "chosen preferred phones = Some s \<Longrightarrow> s \<in> set phones"
proof (induction preferred)
  case (Cons w ws)
  then show ?case
    by (cases "find (\<lambda>s. sim_name s = w) phones") (auto simp: chosen_def find_Some_iff)
qed (auto simp: chosen_def split: list.splits)

lemma chosen_preferred:
  "chosen preferred phones = Some s \<Longrightarrow> k < length preferred \<Longrightarrow> p \<in> set phones \<Longrightarrow> sim_name p = preferred ! k \<Longrightarrow>
   \<exists>l\<le>k. sim_name s = preferred ! l"
proof (induction preferred arbitrary: k)
  case (Cons w ws)
  show ?case
  proof (cases "find (\<lambda>s. sim_name s = w) phones")
    case None
    then have "sim_name p \<noteq> w" using Cons.prems(3) by (auto simp: find_None_iff)
    then obtain m where k: "k = Suc m" using Cons.prems(4) by (cases k) auto
    have "chosen ws phones = Some s" using Cons.prems(1) None by (simp add: chosen_def)
    then obtain l where "l \<le> m" "sim_name s = ws ! l" using Cons.IH [of m] Cons.prems k by auto
    then show ?thesis using k by (intro exI [of _ "Suc l"]) simp
  next
    case (Some q)
    then have "s = q" using Cons.prems(1) by (simp add: chosen_def)
    then show ?thesis using Some by (intro exI [of _ 0]) (auto simp: find_Some_iff)
  qed
qed simp

lemma iPhones_Nil: "iPhones lc sims = [] \<longleftrightarrow> (\<forall>p\<in>set sims. \<not> is_iPhone p)"
proof -
  have "iPhones lc sims = [] \<longleftrightarrow> set (iPhones lc sims) = {}" by simp
  then show ?thesis by (auto simp: iPhones_def simp del: set_empty set_empty2)
qed

lemma pick_from_outcome:
  "case pick_from lc preferred rs keys of
     Testing v s \<Rightarrow> (\<exists>before sims after. rs = before @ (v, sims) # after \<and> chosen preferred (iPhones lc sims) = Some s \<and>
       (\<forall>r\<in>set before. \<forall>p\<in>set (snd r). \<not> is_iPhone p))
   | NoSimulator ks \<Rightarrow> ks = keys \<and> (\<forall>r\<in>set rs. \<forall>p\<in>set (snd r). \<not> is_iPhone p)"
proof (induction rs)
  case (Cons r rs)
  obtain v sims where r: "r = (v, sims)" by (cases r)
  show ?case
  proof (cases "chosen preferred (iPhones lc sims)")
    case None
    then have none: "\<forall>p\<in>set sims. \<not> is_iPhone p" by (simp add: chosen_None iPhones_Nil)
    show ?thesis
    proof (cases "pick_from lc preferred rs keys")
      case (Testing w s)
      with Cons.IH obtain before sims' after where "rs = before @ (w, sims') # after"
        "chosen preferred (iPhones lc sims') = Some s" "\<forall>r\<in>set before. \<forall>p\<in>set (snd r). \<not> is_iPhone p" by auto
      then show ?thesis using None none r Testing
        by simp (intro exI [of _ "r # before"] exI [of _ sims'] exI [of _ after], simp)
    qed (use Cons.IH None none r in simp)
  next
    case (Some s)
    then have "pick_from lc preferred (r # rs) keys = Testing v s" using r by simp
    then show ?thesis using Some r by (simp only: pick_outcome.case) (rule exI [of _ "[]"], simp)
  qed
qed simp

section \<open>assert-pack-contents.mjs\<close>

definition MODEL_DIR :: string where
  "MODEL_DIR = ''ios/Database/SyncProvider.xcdatamodeld''"

definition MARKER :: string where
  "MARKER = MODEL_DIR @ ''/.xccurrentversion''"

definition NATIVE_TESTS :: "string \<Rightarrow> bool" where
  "NATIVE_TESTS path \<longleftrightarrow>
     after_prefix ''ios/Tests/'' path \<noteq> None \<or> after_prefix ''android/src/test/'' path \<noteq> None \<or>
     after_prefix ''android/src/androidTest/'' path \<noteq> None"

text \<open>The current version the marker names, at a position of its text.\<close>

definition version_name :: "string \<Rightarrow> string option" where
  "version_name s =
     (case after_prefix ''<key>_XCCurrentVersionName</key>'' s of
        None \<Rightarrow> None
      | Some r \<Rightarrow>
          (case after_prefix ''<string>'' (dropWhile is_space r) of
             None \<Rightarrow> None
           | Some r \<Rightarrow>
               (let name = takeWhile (\<lambda>c. c \<noteq> CHR ''<'') r
                in if name = [] \<or> after_prefix ''</string>'' (drop (length name) r) = None then None else Some name)))"

definition current_version :: "string \<Rightarrow> string option" where
  "current_version marker = exec_at version_name marker"

definition ends_with :: "string \<Rightarrow> string \<Rightarrow> bool" where
  "ends_with p s \<longleftrightarrow> after_prefix (rev p) (rev s) \<noteq> None"

definition versions_of :: "string list \<Rightarrow> string list" where
  "versions_of entries = filter (ends_with ''.xcdatamodel'') entries"

definition contents_of :: "string \<Rightarrow> string" where
  "contents_of version = MODEL_DIR @ ''/'' @ version @ ''/contents''"

text \<open>Spreading a \<open>Set\<close> keeps the first of equal entries; a missing current version prints as \<open>undefined\<close>.\<close>

definition required :: "string \<Rightarrow> string list \<Rightarrow> string list" where
  "required marker entries =
     rev (remdups (rev ([MARKER, contents_of (case current_version marker of None \<Rightarrow> ''undefined'' | Some v \<Rightarrow> v)] @
       map contents_of (versions_of entries))))"

definition pack_problems :: "string list \<Rightarrow> string \<Rightarrow> string list \<Rightarrow> string list" where
  "pack_problems packed marker entries =
     map (\<lambda>path. ''missing from the tarball: '' @ path) (filter (\<lambda>path. path \<notin> set packed) (required marker entries)) @
     map (\<lambda>path. ''native test in the tarball: '' @ path) (filter NATIVE_TESTS packed)"

lemma pack_ok_iff:
  "pack_problems packed marker entries = [] \<longleftrightarrow>
     MARKER \<in> set packed \<and> (\<forall>v\<in>set (versions_of entries). contents_of v \<in> set packed) \<and>
     contents_of (case current_version marker of None \<Rightarrow> ''undefined'' | Some v \<Rightarrow> v) \<in> set packed \<and>
     (\<forall>path\<in>set packed. \<not> NATIVE_TESTS path)"
  by (auto simp: pack_problems_def required_def filter_empty_conv)

text \<open>No problem is reported twice, unless the package lists a test twice.\<close>

lemma problems_distinct: "distinct packed \<Longrightarrow> distinct (pack_problems packed marker entries)"
  by (auto simp: pack_problems_def required_def distinct_map inj_on_def)

section \<open>Properties\<close>

text \<open>C40: the script tests on the newest iOS runtime that has an iPhone: the simulator it names is an iPhone of
  a runtime no other runtime with an iPhone is newer than, and it carries the first preferred name any
  iPhone of that runtime has; it fails, naming every runtime, only when no runtime has an iPhone.\<close>

theorem pick_newest_iPhone:
  assumes "\<forall>r\<in>set (matching_runtimes devices). \<forall>p\<in>set (fst r). whole_number p"
  shows "case pick_ios_simulator lc preferred devices of
      Testing v s \<Rightarrow>
        (\<exists>sims. (v, sims) \<in> set (matching_runtimes devices) \<and> s \<in> set sims \<and> is_iPhone s \<and>
           (\<forall>k<length preferred. (\<exists>p\<in>set sims. is_iPhone p \<and> sim_name p = preferred ! k) \<longrightarrow>
              (\<exists>l\<le>k. sim_name s = preferred ! l))) \<and>
        (\<forall>r\<in>set (matching_runtimes devices). (\<exists>p\<in>set (snd r). is_iPhone p) \<longrightarrow> \<not> older v (fst r))
    | NoSimulator keys \<Rightarrow> keys = map fst devices \<and> (\<forall>r\<in>set (matching_runtimes devices). \<forall>p\<in>set (snd r). \<not> is_iPhone p)"
proof (cases "pick_ios_simulator lc preferred devices")
  case (NoSimulator keys)
  then show ?thesis
    using pick_from_outcome [where lc = lc and preferred = preferred and rs = "runtimes devices" and keys = "map fst devices"]
    by (simp add: pick_ios_simulator_def) (simp add: runtimes_def)
next
  case (Testing v s)
  have ok: "\<forall>r\<in>set (matching_runtimes devices). version_ok (fst r)"
    using assms runtime_versions unfolding version_ok_def by (metis prod.collapse)
  have sorted: "sorted_wrt (\<lambda>a b. \<not> num_lt (num 0) (compare_versions (fst a) (fst b))) (runtimes devices)"
    unfolding runtimes_def by (rule versions.sort_sorted [OF ok])
  have set: "set (runtimes devices) = set (matching_runtimes devices)" by (simp add: runtimes_def)
  obtain before sims after where r: "runtimes devices = before @ (v, sims) # after"
      and c: "chosen preferred (iPhones lc sims) = Some s" and none: "\<forall>r\<in>set before. \<forall>p\<in>set (snd r). \<not> is_iPhone p"
    using Testing pick_from_outcome [where lc = lc and preferred = preferred and rs = "runtimes devices" and keys = "map fst devices"]
    by (auto simp: pick_ios_simulator_def)
  have m: "(v, sims) \<in> set (matching_runtimes devices)" using set r by (metis in_set_conv_decomp)
  have phones: "set (iPhones lc sims) = {p \<in> set sims. is_iPhone p}" by (auto simp: iPhones_def)
  have newest: "\<not> older v (fst q)" if q: "q \<in> set (matching_runtimes devices)" "\<exists>p\<in>set (snd q). is_iPhone p" for q
  proof -
    have "q = (v, sims) \<or> q \<in> set after" using q none set r by auto
    moreover have "\<not> older v v" using older_asym ok m by force
    moreover have "\<not> num_lt (num 0) (compare_versions v (fst q))" if "q \<in> set after"
      using sorted r that by (auto simp: sorted_wrt_append simp del: num_lt.simps)
    ultimately show ?thesis using compare_ok [of v "fst q"] ok m q(1) by force
  qed
  have "\<exists>l\<le>k. sim_name s = preferred ! l"
    if "k < length preferred" "p \<in> set sims" "is_iPhone p" "sim_name p = preferred ! k" for k p
    using chosen_preferred [OF c that(1) _ that(4)] that phones by auto
  then show ?thesis using Testing m chosen_in [OF c] phones newest by auto
qed

definition example_devices :: "(string \<times> simulator list) list" where
  "example_devices =
     [(''com.apple.CoreSimulator.SimRuntime.iOS-18-5'', [\<lparr>sim_name = ''iPhone 16'', sim_udid = ''A''\<rparr>]),
      (''com.apple.CoreSimulator.SimRuntime.iOS-26-5'',
       [\<lparr>sim_name = ''iPad'', sim_udid = ''B''\<rparr>, \<lparr>sim_name = ''iPhone 17'', sim_udid = ''C''\<rparr>]),
      (''com.apple.CoreSimulator.SimRuntime.iOS-27-2-iPhone19-4'', [\<lparr>sim_name = ''iPhone 19'', sim_udid = ''D''\<rparr>])]"

lemma example_runtimes:
  "matching_runtimes example_devices =
     [([num 18, num 5, num 0], [\<lparr>sim_name = ''iPhone 16'', sim_udid = ''A''\<rparr>]),
      ([num 26, num 5, num 0], [\<lparr>sim_name = ''iPad'', sim_udid = ''B''\<rparr>, \<lparr>sim_name = ''iPhone 17'', sim_udid = ''C''\<rparr>])]"
  using dround_int [of 18] dround_int [of 26] dround_int [of 5]
  by (simp add: matching_runtimes_def example_devices_def RUNTIME_def after_prefix_def digits_then_def is_digit_code
      version_part_def decimal_def digit_value_def)

theorem pick_newest_iPhone_witness:
  "case pick_ios_simulator (\<lambda>_ _. num 0) [''iPhone 17''] example_devices of
     Testing v s \<Rightarrow> \<forall>r\<in>set (matching_runtimes example_devices). (\<exists>p\<in>set (snd r). is_iPhone p) \<longrightarrow> \<not> older v (fst r)
   | NoSimulator keys \<Rightarrow> \<forall>r\<in>set (matching_runtimes example_devices). \<forall>p\<in>set (snd r). \<not> is_iPhone p"
proof -
  have "whole_number (num 0)" using whole_num_whole [of 0] by simp
  then have "\<forall>r\<in>set (matching_runtimes example_devices). \<forall>p\<in>set (fst r). whole_number p"
    by (simp add: example_runtimes)
  from pick_newest_iPhone [OF this, where lc = "\<lambda>_ _. num 0" and preferred = "[''iPhone 17'']"]
  show ?thesis by (simp split: pick_outcome.splits)
qed

end
