(* ===== verification/Spec2Isabelle.thy ===== *)
theory Spec2Isabelle
  imports Retry_Backoff Validation Id_Generator Native_Probe Serialization Facade
    Drain_Properties Drain_Reasons Drain_Facade Hook_Types Web_Entry Hook_Parity Queue_Live Hook_Alone
    Number_Text Example_Config Example_Queue Example_History Ci_Scripts
begin

text \<open>
  A verification library for \<open>react-native-sync-provider\<close>, an offline-tolerant HTTP queue for React
  Native. The TypeScript layer under \<open>src/src\<close> is modelled; the queue itself is native code behind
  the interface of \<open>SyncProvider.nitro.ts\<close>, and the model takes it as a parameter.

  The program's parts and the theories that model them.

  \<^item> The language: \<open>Js_Number\<close> has IEEE doubles as rationals with infinities and \<open>NaN\<close>, each
    operation rounded to nearest even (a negative zero is not told from a positive one);
    \<open>Js_Value\<close> has the values an untyped caller can pass, objects as property lists in order.
  \<^item> \<open>Sync_Prelude\<close>: the shared automation, the locale \<open>wire_enum\<close> of the string enumerations, the
    locale \<open>invariant_system\<close> of step relations with an invariant, and actions
    \<open>'s \<Rightarrow> ('e + 'a) \<times> 's\<close> for \<open>async\<close> functions that read and write a state and may throw.
  \<^item> \<open>Sync_Errors\<close> and \<open>Sync_Types\<close>: \<open>errors/*.ts\<close>, \<open>utils/errors.ts\<close>, \<open>types/*.ts\<close>. A thrown value is a
    \<open>SyncError\<close> with its code, message, cause and issues, another \<open>Error\<close>, or any other value.
  \<^item> \<open>Retry_Backoff\<close> (\<open>utils/retryBackoff.ts\<close>): the delay equals the documented curve, its range
    is known for every policy and attempt, it grows with the attempt, and is returned exactly when the Fibonacci loop ends. That loop is
    a \<open>partial_function\<close>, so not returning is the value \<open>None\<close>.
  \<^item> \<open>Validation\<close> (\<open>utils/validateSyncItem.ts\<close>): acceptance is the declarative contract, the first
    violation is thrown with every issue, and the issues reveal nothing of the sensitive fields.
  \<^item> \<open>Id_Generator\<close> (\<open>utils/idGenerator.ts\<close>): the pattern of an identifier, and the entropy it keeps.
  \<^item> \<open>Native_Probe\<close> (\<open>utils/isNativeModuleAvailable.ts\<close>, \<open>utils/assertNativeModuleAvailable.ts\<close>): the
    native object is built at most once and the first outcome is final.
  \<^item> \<open>Serialization\<close> (\<open>utils/serializeSyncItem.ts\<close>, \<open>utils/deserializeSyncItem.ts\<close>): the round trip,
    soundness of reading, and the error codes. The JSON text is its abstract syntax.
  \<^item> \<open>Facade\<close> (\<open>index.tsx\<close>, \<open>SyncProvider.nitro.ts\<close>): one definition per exported function. The locale
    \<open>facade_op\<close> is the contract they share (guard, probe, one native call, wrapping of failures) and is
    interpreted on \<open>run_facade\<close>, the dispatch over all of them.
  \<^item> \<open>Drain_Controller\<close>, \<open>Drain_Proofs\<close>, \<open>Drain_Properties\<close> (\<open>utils/drainController.ts\<close>): the drain loop
    as a state machine whose places are its \<open>await\<close>s. An event is a start, a cancel, a native reply, a
    timer, the resumption of the loop after its promise settled, or the clock moving. The invariant
    of \<open>Drain_Proofs\<close> carries the safety and liveness properties of \<open>Drain_Properties\<close>.
    \<open>Drain_Reasons\<close> (\<open>types/drain.ts\<close>) shows that a drain stops for the reason it reports.
  \<^item> \<open>Drain_Facade\<close> (\<open>drainUntilEmpty\<close> and \<open>cancelDrain\<close> of \<open>index.tsx\<close>): the drain's waits answered by the
    facade, so that the composed state is the process of \<open>Facade\<close> beside the drain. Every reachable
    composed state projects to reachable states of both parts, all errors are \<open>SyncError\<close>s, and over a
    native module that makes progress a drain empties the queue.
  \<^item> \<open>Hook_Types\<close> (\<open>types/hooks.ts\<close>) and \<open>Web_Entry\<close> (\<open>index.web.tsx\<close>): the result types of the hooks,
    and the entry without a native module, compared call by call with the native entry that lacks its module.
  \<^item> \<open>Hook_Runtime\<close>: the life of a hook's effect as one step relation. A hook is a \<open>hook_code\<close>: what its
    effect, its continuations after each \<open>await\<close>, its listener, its actions and its cleanup compute;
    the runtime mounts and cleans up runs, keeps the calls in flight, the registered listeners and
    the identifiers passed to \<open>removeSyncEventListener\<close>. Its locales are the contracts of hooks:
    \<open>single_subscription\<close> (a run registers one listener at most and its cleanup removes it),
    \<open>late_safe\<close> (no listener outlives its run), \<open>guarded_replies\<close> (nothing changes after the cleanup),
    \<open>event_driven\<close>, \<open>vals_invariant\<close> and \<open>loading_flag\<close>, each interpreted on the hooks that meet it.
  \<^item> \<open>Status_Hooks\<close> (\<open>useConnection\<close>, \<open>useSyncStatus\<close>, \<open>useSyncSnapshot\<close>), \<open>Queue_Hooks\<close> (\<open>useSyncQueue\<close>,
    \<open>useOfflineQueue\<close>), \<open>Config_Hooks\<close> (\<open>useSyncContext\<close>, \<open>useSyncConfig\<close>, \<open>SyncProvider\<close>), \<open>Event_Hooks\<close>
    (\<open>useSyncEvents\<close>, \<open>useAutoSync\<close>): the code of every hook and what it promises. Lemmas named
    \<open>_listener_leak\<close> are runs in which a hook that is not \<open>late_safe\<close> loses its listener.
  \<^item> \<open>Hook_Parity\<close>: without the native module every hook meets the locale \<open>inert_hook\<close>, registers no
    listener, and shows what the hook of the web entry shows.
  \<^item> \<open>Queue_Live\<close>: \<open>useSyncQueue\<close> over the facade with its reads in flight, the native listeners and the
    events they are sent. The hook catches up with the native queue when reads settle in order and
    changes are announced; two lemmas are runs in which it does not.
  \<^item> \<open>Hook_Alone\<close>: the provider and the observing hooks alone with the facade. \<open>drive\<close> answers the waits of
    a hook, oldest first; after a mount and after an announced change the hooks show what the native
    module holds, failures of its reads included, and the provider's context shows its configuration.
  \<^item> The example application (\<open>example/src\<close>): \<open>Number_Text\<close> has the two conversions the form relies on,
    \<open>String\<close> and \<open>parseInt\<close> on doubles, and reads back what it prints. \<open>Example_Config\<close>
    (\<open>screens/ConfigScreen.tsx\<close>) has the form, its round trip, and the screen as a state machine whose
    background switch follows the device. \<open>Example_Queue\<close> (\<open>screens/QueueScreen.tsx\<close>,
    \<open>components/SyncItemRow.tsx\<close>, \<open>components/ConnectionBadge.tsx\<close>) composes the screen's handlers with
    the facade and validation, shows that the age of an item is exact in spite of rounding, and has
    runs in which a saved endpoint does not reach the queue screen and two hooks disagree.
    \<open>Example_History\<close> (\<open>screens/HistoryScreen.tsx\<close>, \<open>components/HistoryRow.tsx\<close>, \<open>App.tsx\<close>) has the
    history screen over the facade and \<open>useSyncEvents\<close>, with calls, the registration of its listener and
    notifications in flight: it catches up with the device; two lemmas are runs in which it does not. It
    also has the rows and their keys.
  \<^item> \<open>Ci_Scripts\<close> (\<open>.github/scripts/*.mjs\<close>): the choice of a simulator and the check of the package's
    files. The locale \<open>js_order\<close> is what a comparison function owes to \<open>Array.prototype.sort\<close> and is
    interpreted on the comparison of runtime versions.

  Bounds. The drain model has no fuel: every step is one event, and \<open>drain_never_spins\<close> bounds the
  passes of a loop by its flushes and its sleeps. \<open>pump k\<close> of \<open>Drain_Facade\<close> lets the facade answer \<open>k\<close>
  waits; four per queued item and three more are enough (\<open>drain_empties\<close>). \<open>drive\<close> of
  \<open>Hook_Alone\<close> has fuel for six answers, more than an effect or a listener waits; that it is enough is part
  of its theorems. Queue sizes and iteration counts of the drain are
  integers (native counts); options and times are doubles, so \<open>NaN\<close> and infinite options are covered.

  Not modelled. The Kotlin and Swift implementations, the example's style sheet, the documentation
  site (configuration and static pages), the tests, the build files and the vendored package manager. React's rendering, the memoisation of
  callbacks and the scheduling of effects belong to React; timers and promises are events of the
  step relations. In the step relation of the hooks the facade's answers are arbitrary: any reply may come at any time
  after its call, and the native side may deliver any event to a listener it was asked to register.
\<close>

end
